(* ===== verification/Prelude.thy ===== *)
theory Prelude
  imports
    Main
    "HOL-Library.Word"
    "HOL-Library.AList"
    "HOL-Library.Monad_Syntax"
    "HOL-Library.Signed_Division"
    "HOL-Library.Multiset"
    "HOL-Library.Char_ord"
    "HOL-Library.List_Lexorder"
begin

text \<open>
  The vocabulary every component of the development shares.

  \<^item> Go's fixed-width integers: unsigned ones are words, \<open>int64\<close> is \<^typ>\<open>int\<close> with the
    wrap-around \<open>i64\<close> written at every operation.
  \<^item> Byte arrays of fixed length: an address is 20 bytes, a hash 32 bytes, a signature 65 bytes
    (64 bytes of R and S and the recovery byte V).  The zero value of Go is the word 0.
  \<^item> Errors: a Go function that returns \<open>(T, error)\<close> returns \<open>error + T\<close>.
  \<^item> Panics: a Go function that can dereference a nil pointer, index out of range or divide by
    zero returns an \<open>option\<close>, and \<^const>\<open>None\<close> is the panic that ends the process.
  \<^item> Go maps: association lists with distinct keys (the order of the list is one iteration
    order), with the interface they promise as the locale \<open>go_map\<close>.
  \<^item> Three-way comparison functions, with the interface \<open>go_cmp\<close>, and machines that handle one
    message at a time, with the interface \<open>message_machine\<close>.
\<close>

section \<open>Collections of facts\<close>

named_theorems go_simps \<open>rewrite rules on Go values: wrap-around, maps, results\<close>
named_theorems frame_simps \<open>fields an operation leaves unchanged\<close>

section \<open>Integers and byte arrays\<close>

type_synonym u8 = "8 word"
type_synonym u16 = "16 word"
type_synonym u32 = "32 word"
type_synonym u64 = "64 word"
type_synonym address = "160 word"
type_synonym hash = "256 word"
type_synonym signature = "512 word \<times> 8 word"

abbreviation NilSignature :: signature where
  "NilSignature \<equiv> (0, 0)"

text \<open>Two's complement wrap-around of a 64-bit signed result.\<close>

definition i64 :: "int \<Rightarrow> int" where
  "i64 x = (x + 2 ^ 63) mod 2 ^ 64 - 2 ^ 63"

lemma i64_id [go_simps]: "- (2 ^ 63) \<le> x \<Longrightarrow> x < 2 ^ 63 \<Longrightarrow> i64 x = x"
  by (simp add: i64_def)

lemma i64_lower: "- (2 ^ 63) \<le> i64 x"
  by (simp add: i64_def)

lemma i64_upper: "i64 x < 2 ^ 63"
proof -
  have "(x + 2 ^ 63) mod 2 ^ 64 < (2 ^ 64 :: int)" by simp
  then show ?thesis by (simp add: i64_def)
qed

lemma sint_u64_range: "- (2 ^ 63) \<le> sint (w :: u64) \<and> sint w < 2 ^ 63"
  using sint_greater_eq [of w] sint_less [of w] by simp

text \<open>
  Bytes read in big-endian order, as \<open>Hash.SetBytes\<close> and \<open>Address.SetBytes\<close> do: a longer slice
  loses its leading bytes, a shorter one is padded with zeroes on the left.
\<close>

fun bytesToWord :: "u8 list \<Rightarrow> 'a :: len word \<Rightarrow> 'a word" where
  "bytesToWord [] acc = acc"
| "bytesToWord (b # bs) acc = bytesToWord bs (acc * 256 + ucast b)"

definition stringBytes :: "string \<Rightarrow> u8 list" where
  "stringBytes s = map (\<lambda>c. of_nat (of_char c)) s"

lemma word_of_unat: "unat (w :: 'a :: len word) = n \<Longrightarrow> w = of_nat n"
  by auto

lemma unat_ucast_u8_u16: "unat (ucast (b :: u8) :: u16) = unat b"
proof -
  have "unat b < 2 ^ 16" using unsigned_less [of b, where ?'a = nat] by simp
  then show ?thesis by (simp add: unsigned_ucast_eq take_bit_nat_eq_self)
qed

lemma ucast_u8_u16_u8: "ucast (ucast (b :: u8) :: u16) = b"
  by (rule word_unat_eq_iff [THEN iffD2])
    (simp add: take_bit_word_eq_self unat_ucast_u8_u16 unsigned_ucast_eq)

lemma uint_of_nat_u32: "n < 2 ^ 32 \<Longrightarrow> uint (of_nat n :: u32) = int n"
  by (simp add: uint_nat unat_of_nat)

section \<open>Errors and results\<close>

text \<open>
  The error values of the modelled packages.  An error built with \<open>errors.Errorf\<close> or
  \<open>errors.New\<close> in the body of a function carries a short label of its message.
\<close>

datatype error =
    Errorf string
  | ErrMsgAccountIsNull
  | ErrValidatorsIsNil
  | ErrValidatorNotFound
  | ErrMsgExistInCache
  | ErrNoMsgInCache
  | ErrParamsIsNil
  | ErrSelfReqIsNil
  | ErrPOSResultIsNil
  | ErrLeaderResultIsNil
  | ErrCDCOrSignHelperisNil
  | ErrGetAccountAndPassword
  | ErrIllegalSignAccount
  | ErrNilKeyStore
  | ErrReader
  | errSignHashLenErr
  | errStockCountErr
  | errSignCountErr
  | errSignStockErr
  | errDisagreeCountErr
  | errDisagreeStockErr
  | errBroadcastSignCount
  | errBroadcastVerifySign
  | errBroadcastVerifySignFalse
  | errVersionSignCount
  | errVersionVerifySign
  | errSuperBlockSignCount
  | errSuperBlockVerifySign
  | ErrExpectedString
  | ErrExpectedList
  | ErrCanonSize
  | ErrValueTooLarge
  | ErrUnexpectedEOF
  | ErrNegativeBigInt
  | ErrFuelExhausted
  | MissingNodeError hash "u8 list"

fun isOK :: "error + 'a \<Rightarrow> bool" where
  "isOK (Inl e) = False"
| "isOK (Inr x) = True"

lemma all_bytes:
  assumes "\<forall>n \<in> set [0..<256]. P (of_nat n :: u8)"
  shows "P x"
proof -
  have "unat x \<in> set [0..<256]" using unsigned_less [of x, where ?'a = nat] by simp
  with assms have "P (of_nat (unat x))" by blast
  then show ?thesis by simp
qed

lemma isOK_iff [go_simps]: "isOK r \<longleftrightarrow> (\<exists>x. r = Inr x)"
  by (cases r) auto

section \<open>Go maps\<close>

type_synonym ('k, 'v) gomap = "('k \<times> 'v) list"

definition mapMake :: "('k, 'v) gomap" where
  "mapMake = []"

definition mapGet :: "('k, 'v) gomap \<Rightarrow> 'k \<Rightarrow> 'v option" where
  "mapGet m k = map_of m k"

definition mapSet :: "'k \<Rightarrow> 'v \<Rightarrow> ('k, 'v) gomap \<Rightarrow> ('k, 'v) gomap" where
  "mapSet k v m = AList.update k v m"

definition mapDelete :: "'k \<Rightarrow> ('k, 'v) gomap \<Rightarrow> ('k, 'v) gomap" where
  "mapDelete k m = AList.delete k m"

definition mapLen :: "('k, 'v) gomap \<Rightarrow> nat" where
  "mapLen m = length m"

definition mapOK :: "('k, 'v) gomap \<Rightarrow> bool" where
  "mapOK m \<longleftrightarrow> distinct (map fst m)"

text \<open>
  What the language promises of a map: a lookup sees the last store, a deletion removes one key,
  and the length counts the keys.
\<close>

locale go_map =
  fixes make :: 'm
    and get :: "'m \<Rightarrow> 'k \<Rightarrow> 'v option"
    and put :: "'k \<Rightarrow> 'v \<Rightarrow> 'm \<Rightarrow> 'm"
    and del :: "'k \<Rightarrow> 'm \<Rightarrow> 'm"
    and len :: "'m \<Rightarrow> nat"
    and ok :: "'m \<Rightarrow> bool"
  assumes get_make: "get make k = None"
    and get_put: "ok m \<Longrightarrow> get (put k v m) k' = (if k' = k then Some v else get m k')"
    and get_del: "ok m \<Longrightarrow> get (del k m) k' = (if k' = k then None else get m k')"
    and len_keys: "ok m \<Longrightarrow> finite (dom (get m)) \<and> len m = card (dom (get m))"
    and ok_make: "ok make"
    and ok_put: "ok m \<Longrightarrow> ok (put k v m)"
    and ok_del: "ok m \<Longrightarrow> ok (del k m)"
begin

lemma len_make: "len make = 0"
proof -
  have "dom (get make) = {}" by (auto simp: get_make)
  then show ?thesis using len_keys [OF ok_make] by simp
qed

lemma keys_put: "ok m \<Longrightarrow> dom (get (put k v m)) = insert k (dom (get m))"
  by (auto simp: get_put split: if_splits)

text \<open>A store under a fresh key adds one entry, a store under a known key none.\<close>

lemma len_put: "ok m \<Longrightarrow> len (put k v m) = (if get m k = None then Suc (len m) else len m)"
  using len_keys [of m] len_keys [OF ok_put, of m k v]
  by (auto simp: keys_put insert_absorb domIff)

lemma get_put_other: "ok m \<Longrightarrow> k' \<noteq> k \<Longrightarrow> get (put k v m) k' = get m k'"
  by (simp add: get_put)

lemma len_le_of_keys: "ok m \<Longrightarrow> finite S \<Longrightarrow> dom (get m) \<subseteq> S \<Longrightarrow> len m \<le> card S"
  using len_keys [of m] by (simp add: card_mono)

end

interpretation alist: go_map mapMake mapGet mapSet mapDelete mapLen mapOK
proof
  fix m :: "('a, 'b) gomap" and k k' v
  show "mapOK m \<Longrightarrow> mapGet (mapSet k v m) k' = (if k' = k then Some v else mapGet m k')"
    by (simp add: mapGet_def mapSet_def update_conv')
  show "mapOK m \<Longrightarrow> mapGet (mapDelete k m) k' = (if k' = k then None else mapGet m k')"
    by (simp add: mapGet_def mapDelete_def delete_conv')
  have "mapGet m = map_of m" by (simp add: mapGet_def fun_eq_iff)
  then show "mapOK m \<Longrightarrow> finite (dom (mapGet m)) \<and> mapLen m = card (dom (mapGet m))"
    using distinct_card [of "map fst m"] by (simp add: mapOK_def mapLen_def dom_map_of_conv_image_fst)
  show "mapOK m \<Longrightarrow> mapOK (mapSet k v m)"
    by (simp add: mapOK_def mapSet_def distinct_update)
  show "mapOK m \<Longrightarrow> mapOK (mapDelete k m)"
    by (simp add: mapOK_def mapDelete_def distinct_delete)
qed (simp_all add: mapMake_def mapGet_def mapOK_def)

lemmas map_specs [go_simps] =
  alist.get_make alist.get_put alist.get_del alist.ok_make alist.ok_put alist.ok_del
  alist.len_make alist.len_put

section \<open>Three-way comparison\<close>

text \<open>
  Several types of the program have a method \<open>Cmp\<close> that returns -1, 0 or 1.  What its callers
  rely on: 0 means equality, swapping the arguments swaps the sign, and "not greater" is
  transitive.
\<close>

locale go_cmp =
  fixes cmp :: "'a \<Rightarrow> 'a \<Rightarrow> int"
  assumes cmp_range: "cmp x y \<in> {-1, 0, 1}"
    and cmp_eq: "cmp x y = 0 \<longleftrightarrow> x = y"
    and cmp_swap: "cmp y x = - cmp x y"
    and cmp_trans: "cmp x y < 0 \<Longrightarrow> cmp y z < 0 \<Longrightarrow> cmp x z < 0"
begin

lemma cmp_refl: "cmp x x = 0"
  by (simp add: cmp_eq)

lemma le_trans: "cmp x y \<le> 0 \<Longrightarrow> cmp y z \<le> 0 \<Longrightarrow> cmp x z \<le> 0"
  by (metis cmp_eq cmp_trans order_le_less)

lemma le_antisym: "cmp x y \<le> 0 \<Longrightarrow> cmp y x \<le> 0 \<Longrightarrow> x = y"
  by (metis cmp_eq cmp_swap neg_le_0_iff_le order_antisym)

lemma not_less: "\<not> cmp x y < 0 \<longleftrightarrow> cmp y x \<le> 0"
  by (metis cmp_swap neg_le_0_iff_le not_less)

end

section \<open>Machines that handle one message at a time\<close>

text \<open>
  A goroutine that owns its state and takes messages from a channel is a partial function on
  states: \<^const>\<open>None\<close> is a panic.  An invariant every message keeps holds after every sequence
  of messages, and a relation every message respects (a value that never moves back) holds
  between the first and the last state.
\<close>

locale message_machine =
  fixes handle :: "'m \<Rightarrow> 's \<Rightarrow> 's option"
    and inv :: "'s \<Rightarrow> bool"
    and le :: "'s \<Rightarrow> 's \<Rightarrow> bool"
  assumes handle_inv: "inv s \<Longrightarrow> handle m s = Some s' \<Longrightarrow> inv s'"
    and handle_le: "inv s \<Longrightarrow> handle m s = Some s' \<Longrightarrow> le s s'"
    and le_refl: "le s s"
    and le_trans: "le s t \<Longrightarrow> le t u \<Longrightarrow> le s u"
begin

fun run :: "'m list \<Rightarrow> 's \<Rightarrow> 's option" where
  "run [] s = Some s"
| "run (m # ms) s = do { s' \<leftarrow> handle m s; run ms s' }"

lemma run_inv_le: "inv s \<Longrightarrow> run ms s = Some s' \<Longrightarrow> inv s' \<and> le s s'"
proof (induction ms arbitrary: s)
  case Nil
  then show ?case by (simp add: le_refl)
next
  case (Cons m ms)
  from Cons.prems obtain t where t: "handle m s = Some t" and r: "run ms t = Some s'"
    by (auto split: Option.bind_splits)
  from Cons.prems(1) t have "inv t" and "le s t" by (blast intro: handle_inv handle_le)+
  with Cons.IH r show ?case by (blast intro: le_trans)
qed

end

section \<open>Division\<close>

lemma int_div_bounds:
  assumes "0 < (b :: int)"
  shows "a div b * b \<le> a" and "a < a div b * b + b"
  using div_mult_mod_eq [of a b] pos_mod_bound [OF assms, of a] pos_mod_sign [OF assms, of a]
  by linarith+

lemma int_div_less:
  assumes "0 < (b :: int)" "a < c * b"
  shows "a div b < c"
proof (rule ccontr)
  assume "\<not> a div b < c"
  then have "c * b \<le> a div b * b" using assms(1) by (intro mult_right_mono) simp_all
  with int_div_bounds(1) [OF assms(1), of a] assms(2) show False by linarith
qed

lemma sdiv_nonneg: "0 \<le> (a :: int) \<Longrightarrow> 0 < b \<Longrightarrow> a sdiv b = a div b"
  by (cases "a = 0") (simp_all add: signed_divide_int_def)

section \<open>Lists\<close>

text \<open>The index of the first element that satisfies a predicate, as a \<open>for\<close> loop finds it.\<close>

fun indexOf :: "('a \<Rightarrow> bool) \<Rightarrow> 'a list \<Rightarrow> nat option" where
  "indexOf p [] = None"
| "indexOf p (x # xs) = (if p x then Some 0 else map_option Suc (indexOf p xs))"

lemma indexOf_Some: "indexOf p xs = Some i \<Longrightarrow> i < length xs \<and> p (xs ! i) \<and> (\<forall>j < i. \<not> p (xs ! j))"
proof (induction xs arbitrary: i)
  case (Cons x xs)
  then show ?case by (auto simp: nth_Cons' less_Suc_eq_0_disj split: if_splits)
qed simp

lemma indexOf_None: "indexOf p xs = None \<longleftrightarrow> (\<forall>x \<in> set xs. \<not> p x)"
  by (induction xs) auto

lemma indexOf_ex: "x \<in> set xs \<Longrightarrow> p x \<Longrightarrow> \<exists>i. indexOf p xs = Some i"
  using indexOf_None [of p xs] by (cases "indexOf p xs") auto

text \<open>Reading a slice at an index, with the panic of an index out of range.\<close>

definition index :: "'a list \<Rightarrow> nat \<Rightarrow> 'a option" where
  "index xs i = (if i < length xs then Some (xs ! i) else None)"

lemma index_Some [go_simps]: "index xs i = Some x \<longleftrightarrow> i < length xs \<and> x = xs ! i"
  by (auto simp: index_def)

text \<open>Sums over the values of a map do not depend on the iteration order.\<close>

lemma sum_list_perm: "mset xs = mset ys \<Longrightarrow> sum_list (map f xs) = sum_list (map f ys :: 'b :: comm_monoid_add list)"
  by (metis mset_map sum_mset_sum_list)

lemma length_filter_perm: "mset xs = mset ys \<Longrightarrow> length (filter p xs) = length (filter p ys)"
  by (metis mset_filter size_mset)

end
