(* ===== verification/McTypes.thy ===== *)
theory McTypes
  imports Prelude
begin

text \<open>
  The message-centre data model (\<open>mc/\<close>) and the roles and positions of \<open>common/\<close>: broadcast
  and election periods, the topology graph of the elected nodes and its changes from block to
  block, election results, consensus turns and the chain state, with the operations the
  consensus services call on them.
\<close>

section \<open>Roles and positions\<close>

type_synonym RoleType = u32
type_synonym ElectRoleType = u8

abbreviation (input) RoleNil :: RoleType where "RoleNil \<equiv> 0x001"
abbreviation (input) RoleDefault :: RoleType where "RoleDefault \<equiv> 0x002"
abbreviation (input) RoleBucket :: RoleType where "RoleBucket \<equiv> 0x004"
abbreviation (input) RoleBackupMiner :: RoleType where "RoleBackupMiner \<equiv> 0x008"
abbreviation (input) RoleMiner :: RoleType where "RoleMiner \<equiv> 0x010"
abbreviation (input) RoleInnerMiner :: RoleType where "RoleInnerMiner \<equiv> 0x020"
abbreviation (input) RoleBackupValidator :: RoleType where "RoleBackupValidator \<equiv> 0x040"
abbreviation (input) RoleValidator :: RoleType where "RoleValidator \<equiv> 0x080"
abbreviation (input) RoleBackupBroadcast :: RoleType where "RoleBackupBroadcast \<equiv> 0x100"
abbreviation (input) RoleBroadcast :: RoleType where "RoleBroadcast \<equiv> 0x200"
abbreviation (input) RoleCandidateValidator :: RoleType where "RoleCandidateValidator \<equiv> 0x400"

abbreviation (input) ElectRoleMiner :: ElectRoleType where "ElectRoleMiner \<equiv> 0x00"
abbreviation (input) ElectRoleMinerBackUp :: ElectRoleType where "ElectRoleMinerBackUp \<equiv> 0x01"
abbreviation (input) ElectRoleValidator :: ElectRoleType where "ElectRoleValidator \<equiv> 0x02"
abbreviation (input) ElectRoleValidatorBackUp :: ElectRoleType where "ElectRoleValidatorBackUp \<equiv> 0x03"
abbreviation (input) ElectRoleCandidateValidator :: ElectRoleType where "ElectRoleCandidateValidator \<equiv> 0x04"
abbreviation (input) ElectRoleNil :: ElectRoleType where "ElectRoleNil \<equiv> 0xff"

abbreviation (input) PosOffline :: u16 where "PosOffline \<equiv> 0xF000"
abbreviation (input) PosOnline :: u16 where "PosOnline \<equiv> 0xF001"

abbreviation (input) NetTopoTypeAll :: u8 where "NetTopoTypeAll \<equiv> 0"
abbreviation (input) NetTopoTypeChange :: u8 where "NetTopoTypeChange \<equiv> 1"

definition Transfer2ElectRole :: "RoleType \<Rightarrow> ElectRoleType" where
  "Transfer2ElectRole rt =
     (if rt = RoleMiner then ElectRoleMiner
      else if rt = RoleBackupMiner then ElectRoleMinerBackUp
      else if rt = RoleValidator then ElectRoleValidator
      else if rt = RoleBackupValidator then ElectRoleValidatorBackUp
      else if rt = RoleCandidateValidator then ElectRoleCandidateValidator
      else ElectRoleNil)"

definition Transfer2CommonRole :: "ElectRoleType \<Rightarrow> RoleType" where
  "Transfer2CommonRole ert =
     (if ert = ElectRoleMiner then RoleMiner
      else if ert = ElectRoleMinerBackUp then RoleBackupMiner
      else if ert = ElectRoleValidator then RoleValidator
      else if ert = ElectRoleValidatorBackUp then RoleBackupValidator
      else if ert = ElectRoleCandidateValidator then RoleCandidateValidator
      else RoleNil)"

definition GetRoleTypeFromPosition :: "u16 \<Rightarrow> RoleType" where
  "GetRoleTypeFromPosition position = Transfer2CommonRole (ucast (drop_bit 12 position))"

definition GeneratePosition :: "u16 \<Rightarrow> ElectRoleType \<Rightarrow> u16" where
  "GeneratePosition idx electRole =
     (if electRole \<ge> ElectRoleNil then 0xffff
      else push_bit 12 (ucast electRole) + idx)"

section \<open>Broadcast and election periods\<close>

record BCIntervalInfo =
  LastBCNumber :: u64
  LastReelectNumber :: u64
  BCInterval :: u64
  BackupEnableNumber :: u64
  BackupBCInterval :: u64

definition ReelectionTimes :: u64 where
  "ReelectionTimes = 3"

definition GetReElectionInterval :: "BCIntervalInfo \<Rightarrow> u64" where
  "GetReElectionInterval info = BCInterval info * ReelectionTimes"

text \<open>The remainder and the quotient by \<open>BCInterval\<close> panic when it is 0.\<close>

definition IsBroadcastNumber :: "BCIntervalInfo \<Rightarrow> u64 \<Rightarrow> bool option" where
  "IsBroadcastNumber info number =
     (if number < LastBCNumber info then Some False
      else if BCInterval info = 0 then None
      else Some ((number - LastBCNumber info) mod BCInterval info = 0))"

definition IsReElectionNumber :: "BCIntervalInfo \<Rightarrow> u64 \<Rightarrow> bool option" where
  "IsReElectionNumber info number =
     (if number < LastReelectNumber info then Some False
      else if BCInterval info = 0 then None
      else if (number - LastReelectNumber info) mod BCInterval info \<noteq> 0 then Some False
      else (let bcCount = (number - LastReelectNumber info) div BCInterval info
            in Some (bcCount mod ReelectionTimes = 0)))"

definition GetNextBroadcastNumber :: "BCIntervalInfo \<Rightarrow> u64 \<Rightarrow> u64 option" where
  "GetNextBroadcastNumber info number =
     (if number \<le> LastBCNumber info then Some (LastBCNumber info)
      else if BCInterval info = 0 then None
      else Some (((number - LastBCNumber info) div BCInterval info + 1) * BCInterval info
                 + LastBCNumber info))"

definition GetNextReElectionNumber :: "BCIntervalInfo \<Rightarrow> u64 \<Rightarrow> u64 option" where
  "GetNextReElectionNumber info number =
     (if number \<le> LastReelectNumber info then Some (LastReelectNumber info)
      else if BCInterval info = 0 then None
      else (let bcCountAfterReelect = (number - LastReelectNumber info) div BCInterval info;
                NextReelectCount = bcCountAfterReelect div ReelectionTimes + 1
            in Some ((NextReelectCount * ReelectionTimes) * BCInterval info
                     + LastReelectNumber info)))"

definition UsingBackupInterval :: "BCIntervalInfo \<Rightarrow> BCIntervalInfo" where
  "UsingBackupInterval info =
     info\<lparr>BCInterval := BackupBCInterval info, BackupEnableNumber := 0, BackupBCInterval := 0\<rparr>"

definition SetLastBCNumber :: "BCIntervalInfo \<Rightarrow> u64 \<Rightarrow> BCIntervalInfo" where
  "SetLastBCNumber info number = info\<lparr>LastBCNumber := number\<rparr>"

definition SetLastReelectNumber :: "BCIntervalInfo \<Rightarrow> u64 \<Rightarrow> BCIntervalInfo" where
  "SetLastReelectNumber info number = info\<lparr>LastReelectNumber := number\<rparr>"

definition SetBackupBCInterval :: "BCIntervalInfo \<Rightarrow> u64 \<Rightarrow> u64 \<Rightarrow> BCIntervalInfo" where
  "SetBackupBCInterval info interval enableNumber =
     info\<lparr>BackupEnableNumber := enableNumber, BackupBCInterval := interval\<rparr>"

section \<open>Topology and election graphs\<close>

record TopologyNodeInfo =
  tn_Account :: address
  tn_Position :: u16
  tn_Type :: RoleType
  tn_NodeNumber :: u8

record TopologyGraph =
  NodeList :: "TopologyNodeInfo list"
  CurNodeNumber :: u8

record NetTopologyData =
  td_Account :: address
  td_Position :: u16

record NetTopology =
  nt_Type :: u8
  nt_Data :: "NetTopologyData list"

record ElectNodeInfo =
  en_Account :: address
  en_Position :: u16
  en_Stock :: u16
  en_VIPLevel :: u16
  en_Type :: RoleType

record ElectGraph =
  eg_Number :: u64
  ElectList :: "ElectNodeInfo list"
  NextMinerElect :: "ElectNodeInfo list"
  NextValidatorElect :: "ElectNodeInfo list"

record ElectOnlineStatus =
  eo_Number :: u64
  ElectOnline :: "ElectNodeInfo list"

record Elect =
  el_Account :: address
  el_Stock :: u16
  el_Type :: ElectRoleType
  el_VIP :: u16

definition increaseNodeNumber :: "u8 \<Rightarrow> u8" where
  "increaseNodeNumber cur = (if cur \<ge> 99 then 0 else cur + 1)"

definition sortNodes :: "TopologyNodeInfo list \<Rightarrow> TopologyNodeInfo list" where
  "sortNodes nodes = sort_key tn_Position nodes"

definition newNode :: "NetTopologyData \<Rightarrow> u8 \<Rightarrow> TopologyNodeInfo" where
  "newNode d n =
     \<lparr>tn_Account = td_Account d, tn_Position = td_Position d,
      tn_Type = GetRoleTypeFromPosition (td_Position d), tn_NodeNumber = n\<rparr>"

fun appendNodes :: "NetTopologyData list \<Rightarrow> TopologyGraph \<Rightarrow> TopologyGraph" where
  "appendNodes [] g = g"
| "appendNodes (d # ds) g =
     (let n = increaseNodeNumber (CurNodeNumber g)
      in appendNodes ds (g\<lparr>NodeList := NodeList g @ [newNode d n], CurNodeNumber := n\<rparr>))"

definition NewGenesisTopologyGraph :: "u64 \<Rightarrow> NetTopology \<Rightarrow> error + TopologyGraph" where
  "NewGenesisTopologyGraph number netTopology =
     (if number \<noteq> 0 then Inl (Errorf ''genesis number is not 0'')
      else if nt_Type netTopology \<noteq> NetTopoTypeAll then Inl (Errorf ''genesis topology is not full'')
      else (let g = appendNodes (nt_Data netTopology) \<lparr>NodeList = [], CurNodeNumber = 99\<rparr>
            in Inr (g\<lparr>NodeList := sortNodes (NodeList g)\<rparr>)))"

definition AccountIsInGraph :: "TopologyGraph \<Rightarrow> address \<Rightarrow> bool" where
  "AccountIsInGraph g account \<longleftrightarrow> indexOf (\<lambda>one. account = tn_Account one) (NodeList g) \<noteq> None"

definition CheckAccountRole :: "TopologyGraph \<Rightarrow> address \<Rightarrow> RoleType \<Rightarrow> bool" where
  "CheckAccountRole g account role =
     (case find (\<lambda>one. account = tn_Account one) (NodeList g) of
        None \<Rightarrow> False
      | Some one \<Rightarrow> tn_Type one = role)"

definition validatorAccounts :: "TopologyGraph \<Rightarrow> address list" where
  "validatorAccounts g = map tn_Account (filter (\<lambda>node. tn_Type node = RoleValidator) (NodeList g))"

definition FindNextValidator :: "TopologyGraph \<Rightarrow> address \<Rightarrow> address" where
  "FindNextValidator g account =
     (let validators = validatorAccounts g
      in case indexOf (\<lambda>v. account = v) validators of
           None \<Rightarrow> 0
         | Some pos \<Rightarrow> validators ! ((pos + 1) mod length validators))"

text \<open>
  The loop over the nodes that replaces, removes or inserts at a position; it returns the new
  list and the current node number.
\<close>

fun changeAtPosition :: "NetTopologyData \<Rightarrow> u8 \<Rightarrow> TopologyNodeInfo list \<Rightarrow> TopologyNodeInfo list \<times> u8" where
  "changeAtPosition chg cur [] = ([], cur)"
| "changeAtPosition chg cur (curNode # rest) =
     (if td_Position chg = tn_Position curNode then
        (if td_Account chg = 0 then (rest, cur)
         else (let n = increaseNodeNumber cur
               in (curNode\<lparr>tn_Account := td_Account chg, tn_NodeNumber := n\<rparr> # rest, n)))
      else if td_Position chg < tn_Position curNode then
        (let n = increaseNodeNumber cur in (newNode chg n # curNode # rest, n))
      else (let (rest', cur') = changeAtPosition chg cur rest in (curNode # rest', cur')))"

definition modifyGraphByChgInfo :: "NetTopologyData \<Rightarrow> TopologyGraph \<Rightarrow> TopologyGraph option" where
  "modifyGraphByChgInfo chgInfo g =
     (if td_Position chgInfo = PosOnline then Some g
      else if td_Position chgInfo = PosOffline then
        (case indexOf (\<lambda>n. td_Account chgInfo = tn_Account n) (NodeList g) of
           None \<Rightarrow> Some g
         | Some i \<Rightarrow> Some (g\<lparr>NodeList := take i (NodeList g) @ drop (Suc i) (NodeList g)\<rparr>))
      else if NodeList g = [] then None
      else if td_Position chgInfo > tn_Position (last (NodeList g)) then
        (let n = increaseNodeNumber (CurNodeNumber g)
         in Some (g\<lparr>NodeList := NodeList g @ [newNode chgInfo n], CurNodeNumber := n\<rparr>))
      else (let (nodes, n) = changeAtPosition chgInfo (CurNodeNumber g) (NodeList g)
            in Some (g\<lparr>NodeList := nodes, CurNodeNumber := n\<rparr>)))"

fun modifyGraphByChgInfos :: "NetTopologyData list \<Rightarrow> TopologyGraph \<Rightarrow> TopologyGraph option" where
  "modifyGraphByChgInfos [] g = Some g"
| "modifyGraphByChgInfos (c # cs) g = do { g' \<leftarrow> modifyGraphByChgInfo c g; modifyGraphByChgInfos cs g' }"

definition Transfer2NextGraph :: "TopologyGraph \<Rightarrow> NetTopology \<Rightarrow> (error + TopologyGraph) option" where
  "Transfer2NextGraph g blockTopology =
     (if nt_Type blockTopology = NetTopoTypeAll then
        (let g' = appendNodes (nt_Data blockTopology) \<lparr>NodeList = [], CurNodeNumber = CurNodeNumber g\<rparr>
         in Some (Inr (g'\<lparr>NodeList := sortNodes (NodeList g')\<rparr>)))
      else if nt_Type blockTopology = NetTopoTypeChange then
        map_option Inr (modifyGraphByChgInfos (nt_Data blockTopology) g)
      else Some (Inl (Errorf ''block topology type'')))"

definition electOf :: "ElectNodeInfo \<Rightarrow> Elect" where
  "electOf e = \<lparr>el_Account = en_Account e, el_Stock = en_Stock e,
                el_Type = Transfer2ElectRole (en_Type e), el_VIP = 0\<rparr>"

definition TransferElect2CommonElect :: "ElectGraph \<Rightarrow> Elect list" where
  "TransferElect2CommonElect eg = map electOf (ElectList eg)"

definition TransferNextElect2CommonElect :: "ElectGraph \<Rightarrow> Elect list" where
  "TransferNextElect2CommonElect eg = map electOf (NextMinerElect eg) @ map electOf (NextValidatorElect eg)"

definition FindNodeElectOnlineState :: "ElectOnlineStatus \<Rightarrow> address \<Rightarrow> ElectNodeInfo option" where
  "FindNodeElectOnlineState eos node = find (\<lambda>elect. en_Account elect = node) (ElectOnline eos)"

section \<open>Online-state consensus requests\<close>

type_synonym OnlineState = u8

abbreviation (input) OnLine :: OnlineState where "OnLine \<equiv> 1"
abbreviation (input) OffLine :: OnlineState where "OffLine \<equiv> 2"

record OnlineConsensusReq =
  oc_Number :: u64
  oc_LeaderTurn :: u32
  oc_Leader :: address
  oc_Node :: address
  oc_OnlineState :: OnlineState

record OnlineConsensusVoteResult =
  ov_Req :: "OnlineConsensusReq option"
  ov_SignList :: "signature list"
  ov_From :: address

definition IsValidity :: "OnlineConsensusVoteResult \<Rightarrow> u64 \<Rightarrow> u64 \<Rightarrow> bool" where
  "IsValidity msg curNumber validityTime =
     (case ov_Req msg of None \<Rightarrow> False | Some req \<Rightarrow> curNumber - oc_Number req \<le> validityTime)"

section \<open>Consensus turns and the chain state\<close>

record ConsensusTurnInfo =
  PreConsensusTurn :: u32
  UsedReelectTurn :: u32

abbreviation (input) ZeroTurn :: ConsensusTurnInfo where
  "ZeroTurn \<equiv> \<lparr>PreConsensusTurn = 0, UsedReelectTurn = 0\<rparr>"

definition TotalTurns :: "ConsensusTurnInfo \<Rightarrow> u32" where
  "TotalTurns info = PreConsensusTurn info + UsedReelectTurn info"

definition turnCmp :: "ConsensusTurnInfo \<Rightarrow> ConsensusTurnInfo \<Rightarrow> int" where
  "turnCmp info target =
     (if info = target then 0
      else if TotalTurns info < TotalTurns target then -1
      else if TotalTurns info > TotalTurns target then 1
      else if PreConsensusTurn info < PreConsensusTurn target then -1
      else 1)"

record ChainState =
  cs_superSeq :: u64
  cs_curNumber :: u64

definition chainCmp :: "ChainState \<Rightarrow> u64 \<Rightarrow> u64 \<Rightarrow> int" where
  "chainCmp s superSeq curNumber =
     (if cs_superSeq s > superSeq then 1
      else if cs_superSeq s < superSeq then -1
      else if cs_curNumber s > curNumber then 1
      else if cs_curNumber s < curNumber then -1
      else 0)"

definition chainReset :: "u64 \<Rightarrow> u64 \<Rightarrow> ChainState" where
  "chainReset superSeq curNumber = \<lparr>cs_superSeq = superSeq, cs_curNumber = curNumber\<rparr>"

section \<open>Consensus turns and chain states are totally ordered\<close>

lemma turn_eq_iff:
  "(t :: ConsensusTurnInfo) = u \<longleftrightarrow> TotalTurns t = TotalTurns u \<and> PreConsensusTurn t = PreConsensusTurn u"
  by (cases t, cases u) (auto simp: TotalTurns_def)

interpretation turn: go_cmp turnCmp
proof
  fix x y z :: ConsensusTurnInfo
  show "turnCmp x y \<in> {-1, 0, 1}" and "turnCmp x y = 0 \<longleftrightarrow> x = y"
    by (auto simp: turnCmp_def)
  show "turnCmp y x = - turnCmp x y"
    by (auto simp: turnCmp_def turn_eq_iff)
  show "turnCmp x y < 0 \<Longrightarrow> turnCmp y z < 0 \<Longrightarrow> turnCmp x z < 0"
    by (auto simp: turnCmp_def turn_eq_iff split: if_splits)
qed

definition chainStateCmp :: "ChainState \<Rightarrow> ChainState \<Rightarrow> int" where
  "chainStateCmp s t = chainCmp s (cs_superSeq t) (cs_curNumber t)"

interpretation chain_state: go_cmp chainStateCmp
proof
  fix x y z :: ChainState
  show "chainStateCmp x y \<in> {-1, 0, 1}"
    by (auto simp: chainStateCmp_def chainCmp_def)
  show "chainStateCmp x y = 0 \<longleftrightarrow> x = y"
    by (cases x, cases y) (auto simp: chainStateCmp_def chainCmp_def)
  show "chainStateCmp y x = - chainStateCmp x y"
    by (auto simp: chainStateCmp_def chainCmp_def)
  show "chainStateCmp x y < 0 \<Longrightarrow> chainStateCmp y z < 0 \<Longrightarrow> chainStateCmp x z < 0"
    by (auto simp: chainStateCmp_def chainCmp_def split: if_splits)
qed

section \<open>Roles and positions\<close>

lemma Transfer2CommonRole_inverse:
  "ert \<le> ElectRoleCandidateValidator \<Longrightarrow> Transfer2ElectRole (Transfer2CommonRole ert) = ert"
proof -
  assume "ert \<le> ElectRoleCandidateValidator"
  then have "unat ert \<le> 4" by (simp add: word_le_nat_alt)
  then consider "unat ert = 0" | "unat ert = 1" | "unat ert = 2" | "unat ert = 3" | "unat ert = 4"
    by linarith
  then show ?thesis
    by cases (auto dest!: word_of_unat simp: Transfer2ElectRole_def Transfer2CommonRole_def)
qed

lemma position_high_bits:
  assumes "idx < 0x1000" and "r \<le> (4 :: u8)"
  shows "drop_bit 12 (push_bit 12 (ucast r) + idx :: u16) = ucast r"
proof (rule word_unat_eq_iff [THEN iffD2])
  have r: "unat r \<le> 4" and i: "unat idx < 4096"
    using assms by (simp_all add: word_le_nat_alt word_less_nat_alt)
  note u = unat_ucast_u8_u16 [of r]
  have p: "unat (push_bit 12 (ucast r) :: u16) = unat r * 4096"
    using r by (simp add: push_bit_eq_mult unat_word_ariths u)
  have "unat (push_bit 12 (ucast r) + idx :: u16) = unat r * 4096 + unat idx"
    using r i by (simp add: unat_word_ariths p)
  then show "unat (drop_bit 12 (push_bit 12 (ucast r) + idx :: u16)) = unat (ucast r :: u16)"
    using i by (simp add: drop_bit_eq_div unat_div u)
qed

text \<open>C35. A position generated for an elected role and an index below 4096 decodes to that role.\<close>

theorem GeneratePosition_role:
  assumes "idx < 0x1000" and "role \<le> ElectRoleCandidateValidator"
  shows "GetRoleTypeFromPosition (GeneratePosition idx role) = Transfer2CommonRole role
    \<and> Transfer2ElectRole (GetRoleTypeFromPosition (GeneratePosition idx role)) = role"
proof -
  have "\<not> role \<ge> ElectRoleNil" using assms(2) by (simp add: word_le_nat_alt)
  then have "GetRoleTypeFromPosition (GeneratePosition idx role) = Transfer2CommonRole role"
    using position_high_bits [OF assms]
    by (simp add: GetRoleTypeFromPosition_def GeneratePosition_def ucast_u8_u16_u8)
  then show ?thesis using Transfer2CommonRole_inverse [OF assms(2)] by simp
qed

theorem GeneratePosition_role_witness:
  "GetRoleTypeFromPosition (GeneratePosition 17 ElectRoleValidator) = RoleValidator"
  using GeneratePosition_role [of 17 ElectRoleValidator] by (simp add: Transfer2CommonRole_def)

section \<open>The topology graph keeps its shape\<close>

definition nodeOK :: "TopologyNodeInfo \<Rightarrow> bool" where
  "nodeOK n \<longleftrightarrow> tn_Type n = GetRoleTypeFromPosition (tn_Position n) \<and> tn_NodeNumber n \<le> 99"

definition topologyOK :: "TopologyGraph \<Rightarrow> bool" where
  "topologyOK g \<longleftrightarrow> sorted_wrt (<) (map tn_Position (NodeList g))
     \<and> list_all nodeOK (NodeList g) \<and> CurNodeNumber g \<le> 99"

definition topologyMap :: "TopologyNodeInfo list \<Rightarrow> (u16 \<rightharpoonup> address)" where
  "topologyMap nodes = map_of (map (\<lambda>n. (tn_Position n, tn_Account n)) nodes)"

lemma increaseNodeNumber_le: "increaseNodeNumber cur \<le> 99"
  by (auto simp: increaseNodeNumber_def) (metis inc_le linorder_not_le)

lemma newNode_OK [simp]: "n \<le> 99 \<Longrightarrow> nodeOK (newNode d n)"
  by (simp add: nodeOK_def newNode_def)

lemma newNode_sel [simp]:
  "tn_Position (newNode d n) = td_Position d" "tn_Account (newNode d n) = td_Account d"
  by (simp_all add: newNode_def)

lemma changeAtPosition_positions:
  "x \<in> set (fst (changeAtPosition chg cur ns)) \<Longrightarrow>
   tn_Position x = td_Position chg \<or> tn_Position x \<in> tn_Position ` set ns"
  by (induction chg cur ns rule: changeAtPosition.induct) (auto simp: Let_def split: prod.splits if_splits)

lemma changeAtPosition_sorted:
  "sorted_wrt (<) (map tn_Position ns) \<Longrightarrow>
   sorted_wrt (<) (map tn_Position (fst (changeAtPosition chg cur ns)))"
proof (induction chg cur ns rule: changeAtPosition.induct)
  case (2 chg cur n ns)
  have "tn_Position n < tn_Position x"
    if "\<not> td_Position chg < tn_Position n" "td_Position chg \<noteq> tn_Position n"
      "x \<in> set (fst (changeAtPosition chg cur ns))" for x
    using changeAtPosition_positions [OF that(3)] that 2(2) by auto
  with 2 show ?case by (auto simp: Let_def split: prod.splits)
qed simp

lemma changeAtPosition_OK:
  "list_all nodeOK ns \<Longrightarrow> cur \<le> 99 \<Longrightarrow>
   list_all nodeOK (fst (changeAtPosition chg cur ns)) \<and> snd (changeAtPosition chg cur ns) \<le> 99"
  by (induction chg cur ns rule: changeAtPosition.induct)
    (auto simp: Let_def increaseNodeNumber_le nodeOK_def newNode_def split: prod.splits)

lemma topologyMap_Cons [simp]:
  "topologyMap (n # ns) = (topologyMap ns)(tn_Position n \<mapsto> tn_Account n)"
  "topologyMap [] = Map.empty"
  by (simp_all add: topologyMap_def)

lemma topologyMap_None: "p \<notin> set (map tn_Position ns) \<Longrightarrow> topologyMap ns p = None"
  by (induction ns) auto

lemma changeAtPosition_map:
  "sorted_wrt (<) (map tn_Position ns) \<Longrightarrow> ns \<noteq> [] \<Longrightarrow> td_Position chg \<le> tn_Position (last ns) \<Longrightarrow>
   topologyMap (fst (changeAtPosition chg cur ns)) =
     (topologyMap ns)(td_Position chg :=
        (if td_Account chg = 0 \<and> td_Position chg \<in> set (map tn_Position ns) then None
         else Some (td_Account chg)))"
proof (induction chg cur ns rule: changeAtPosition.induct)
  case (2 chg cur n ns)
  show ?case
  proof (cases "td_Position chg = tn_Position n")
    case True
    from 2(2) have "tn_Position n \<notin> set (map tn_Position ns)" by auto
    with True show ?thesis
      by (auto simp: Let_def fun_eq_iff topologyMap_None)
  next
    case ne: False
    show ?thesis
    proof (cases "td_Position chg < tn_Position n")
      case True
      then have "td_Position chg \<notin> set (map tn_Position (n # ns))" using 2(2) by auto
      with True ne show ?thesis by (auto simp: Let_def fun_eq_iff)
    next
      case False
      with ne 2 have "ns \<noteq> []" by auto
      with False ne 2 show ?thesis
        by (cases "changeAtPosition chg cur ns") (auto simp: fun_eq_iff)
    qed
  qed
qed simp

lemma removeAt_sorted: "sorted_wrt P xs \<Longrightarrow> sorted_wrt P (take i xs @ drop (Suc i) xs)"
proof (induction xs arbitrary: i)
  case (Cons x xs)
  then show ?case by (cases i) (auto dest: in_set_takeD in_set_dropD)
qed simp

lemma sorted_le_last: "sorted_wrt (<) (map f xs) \<Longrightarrow> x \<in> set xs \<Longrightarrow> f x \<le> (f (last xs) :: 'b :: linorder)"
  by (induction xs) (auto simp: less_imp_le split: if_splits)

lemma removeAt_all: "list_all P xs \<Longrightarrow> list_all P (take i xs @ drop (Suc i) xs)"
  by (auto simp: list_all_iff dest: in_set_takeD in_set_dropD)

lemma modifyGraphByChgInfo_OK:
  assumes "modifyGraphByChgInfo c g = Some g'" "topologyOK g"
  shows "topologyOK g'"
proof -
  note ok = assms(2) [unfolded topologyOK_def]
  consider (online) "td_Position c = PosOnline" | (offline) "td_Position c = PosOffline"
    | (pos) "td_Position c \<noteq> PosOnline" "td_Position c \<noteq> PosOffline" by blast
  then show ?thesis
  proof cases
    case online
    with assms show ?thesis by (simp add: modifyGraphByChgInfo_def)
  next
    case offline
    with assms(1) ok show ?thesis
      using removeAt_sorted [of "(<)" "map tn_Position (NodeList g)"] removeAt_all [of nodeOK "NodeList g"]
      by (auto simp: modifyGraphByChgInfo_def topologyOK_def take_map drop_map split: option.splits)
  next
    case pos
    show ?thesis
    proof (cases "td_Position c > tn_Position (last (NodeList g))")
      case True
      have "tn_Position n < td_Position c" if "n \<in> set (NodeList g)" for n
        using sorted_le_last [OF conjunct1 [OF ok] that] True by simp
      with True pos assms(1) ok show ?thesis
        by (auto simp: modifyGraphByChgInfo_def topologyOK_def Let_def sorted_wrt_append increaseNodeNumber_le
            split: if_splits)
    next
      case False
      with pos assms(1) ok show ?thesis
        using changeAtPosition_sorted [of "NodeList g" c "CurNodeNumber g"]
          changeAtPosition_OK [of "NodeList g" "CurNodeNumber g" c]
        by (auto simp: modifyGraphByChgInfo_def topologyOK_def Let_def split: if_splits prod.splits)
    qed
  qed
qed


lemma modifyGraphByChgInfos_OK:
  "modifyGraphByChgInfos cs g = Some g' \<Longrightarrow> topologyOK g \<Longrightarrow> topologyOK g'"
  by (induction cs g rule: modifyGraphByChgInfos.induct)
    (auto split: Option.bind_splits dest: modifyGraphByChgInfo_OK)

lemma appendNodes_nodes:
  "map tn_Position (NodeList (appendNodes ds g)) = map tn_Position (NodeList g) @ map td_Position ds"
  by (induction ds g rule: appendNodes.induct) (simp_all add: Let_def)

lemma appendNodes_OK:
  "list_all nodeOK (NodeList g) \<Longrightarrow> CurNodeNumber g \<le> 99 \<Longrightarrow>
   list_all nodeOK (NodeList (appendNodes ds g)) \<and> CurNodeNumber (appendNodes ds g) \<le> 99"
  by (induction ds g rule: appendNodes.induct) (simp_all add: Let_def increaseNodeNumber_le)

lemma sortNodes_strict:
  "distinct (map tn_Position ns) \<Longrightarrow> sorted_wrt (<) (map tn_Position (sortNodes ns))"
proof -
  assume d: "distinct (map tn_Position ns)"
  have "mset (map tn_Position (sortNodes ns)) = mset (map tn_Position ns)"
    by (simp add: sortNodes_def)
  with d have "distinct (map tn_Position (sortNodes ns))" by (metis mset_eq_imp_distinct_iff)
  then show ?thesis by (simp add: strict_sorted_iff sortNodes_def)
qed

lemma sortNodes_all: "list_all P (sortNodes ns) = list_all P ns"
  by (simp add: list_all_iff sortNodes_def)

text \<open>C32. From a well-formed topology graph (positions strictly increasing, the role of every node
  the one its position encodes, node numbers at most 99), the graph the next block's topology
  gives is well-formed again, for a full topology with distinct positions and for any list of
  changes.\<close>

theorem Transfer2NextGraph_OK:
  assumes "topologyOK g" and "Transfer2NextGraph g t = Some (Inr g')"
    and "nt_Type t = NetTopoTypeAll \<longrightarrow> distinct (map td_Position (nt_Data t))"
  shows "topologyOK g'"
proof (cases "nt_Type t = NetTopoTypeAll")
  case True
  let ?g = "appendNodes (nt_Data t) \<lparr>NodeList = [], CurNodeNumber = CurNodeNumber g\<rparr>"
  have "list_all nodeOK (NodeList ?g) \<and> CurNodeNumber ?g \<le> 99"
    using assms(1) by (intro appendNodes_OK) (auto simp: topologyOK_def)
  moreover have "distinct (map tn_Position (NodeList ?g))"
    using assms(3) True by (simp add: appendNodes_nodes)
  ultimately show ?thesis using assms(2) True
    by (auto simp: Transfer2NextGraph_def topologyOK_def Let_def sortNodes_all sortNodes_strict)
next
  case False
  with assms show ?thesis
    by (auto simp: Transfer2NextGraph_def split: if_splits dest: modifyGraphByChgInfos_OK)
qed


theorem Transfer2NextGraph_OK_witness:
  "\<exists>g'. Transfer2NextGraph \<lparr>NodeList = [newNode \<lparr>td_Account = 7, td_Position = 0x2000\<rparr> 1], CurNodeNumber = 1\<rparr>
     \<lparr>nt_Type = NetTopoTypeChange, nt_Data = [\<lparr>td_Account = 9, td_Position = 0x2001\<rparr>]\<rparr> = Some (Inr g')
     \<and> topologyOK g'"
proof -
  let ?g = "\<lparr>NodeList = [newNode \<lparr>td_Account = 7, td_Position = 0x2000\<rparr> 1], CurNodeNumber = 1\<rparr>"
  let ?t = "\<lparr>nt_Type = NetTopoTypeChange, nt_Data = [\<lparr>td_Account = 9, td_Position = 0x2001\<rparr>]\<rparr>"
  have ok: "topologyOK ?g" by (simp add: topologyOK_def)
  obtain g' where g': "Transfer2NextGraph ?g ?t = Some (Inr g')"
    by (simp add: Transfer2NextGraph_def modifyGraphByChgInfo_def Let_def)
  from Transfer2NextGraph_OK [OF ok g'] g' show ?thesis by simp
qed

lemma topologyMap_append: "topologyMap (xs @ ys) = topologyMap ys ++ topologyMap xs"
  by (simp add: topologyMap_def)

text \<open>C33. On a well-formed, non-empty graph, one position change is one update of the map from
  positions to accounts: the account is stored at the position, or the position is freed when the
  account is empty and the position is taken; no other position moves, and nothing panics.\<close>

theorem modifyGraphByChgInfo_map:
  assumes "topologyOK g" "NodeList g \<noteq> []" "td_Position c \<noteq> PosOnline" "td_Position c \<noteq> PosOffline"
  shows "\<exists>g'. modifyGraphByChgInfo c g = Some g' \<and>
    topologyMap (NodeList g') = (topologyMap (NodeList g))(td_Position c :=
       (if td_Account c = 0 \<and> topologyMap (NodeList g) (td_Position c) \<noteq> None then None
        else Some (td_Account c)))"
proof (cases "td_Position c > tn_Position (last (NodeList g))")
  case True
  then have "td_Position c \<notin> set (map tn_Position (NodeList g))"
    using assms(1) by (auto simp: topologyOK_def dest: sorted_le_last)
  then have "topologyMap (NodeList g) (td_Position c) = None" by (rule topologyMap_None)
  with True assms(2-) show ?thesis
    by (auto simp: modifyGraphByChgInfo_def Let_def topologyMap_append map_add_def fun_eq_iff split: option.splits)
next
  case False
  then have "topologyMap (fst (changeAtPosition c (CurNodeNumber g) (NodeList g))) =
     (topologyMap (NodeList g))(td_Position c :=
        (if td_Account c = 0 \<and> td_Position c \<in> set (map tn_Position (NodeList g)) then None
         else Some (td_Account c)))"
    using assms by (intro changeAtPosition_map) (auto simp: topologyOK_def)
  moreover have "topologyMap (NodeList g) (td_Position c) \<noteq> None \<longleftrightarrow> td_Position c \<in> set (map tn_Position (NodeList g))"
    by (auto simp: topologyMap_def map_of_eq_None_iff image_image)
  ultimately show ?thesis using False assms(2-)
    by (auto simp: modifyGraphByChgInfo_def split: prod.splits)
qed

theorem modifyGraphByChgInfo_map_witness:
  "\<exists>g'. modifyGraphByChgInfo \<lparr>td_Account = 9, td_Position = 0x2000\<rparr>
      \<lparr>NodeList = [newNode \<lparr>td_Account = 7, td_Position = 0x2000\<rparr> 1], CurNodeNumber = 1\<rparr> = Some g'
    \<and> topologyMap (NodeList g') 0x2000 = Some 9"
proof -
  let ?g = "\<lparr>NodeList = [newNode \<lparr>td_Account = 7, td_Position = 0x2000\<rparr> 1], CurNodeNumber = 1\<rparr>"
  let ?c = "\<lparr>td_Account = 9, td_Position = 0x2000\<rparr>"
  have "topologyOK ?g" "NodeList ?g \<noteq> []" "td_Position ?c \<noteq> PosOnline" "td_Position ?c \<noteq> PosOffline"
    by (simp_all add: topologyOK_def)
  from modifyGraphByChgInfo_map [OF this] show ?thesis by auto
qed

section \<open>Broadcast and election periods\<close>

lemma next_multiple:
  fixes d i :: nat
  assumes "0 < i"
  shows "d < (d div i + 1) * i" and "\<And>m. d < m \<Longrightarrow> m mod i = 0 \<Longrightarrow> (d div i + 1) * i \<le> m"
proof -
  show "d < (d div i + 1) * i" using assms
    by (metis Suc_eq_plus1 dividend_less_div_times mult.commute add.commute mult_Suc_right)
  fix m assume "d < m" "m mod i = 0"
  then obtain q where m: "m = q * i" by (metis mod_0_imp_dvd dvd_def mult.commute)
  with \<open>d < m\<close> have "d div i < q" using assms by (simp add: div_less_iff_less_mult)
  then show "(d div i + 1) * i \<le> m" using m by (metis Suc_eq_plus1 Suc_leI mult_le_mono1)
qed



text \<open>
  An election height is a broadcast height: the heights of the last broadcast and of the last
  election differ by whole periods.
\<close>

lemma reelection_is_broadcast:
  assumes "BCInterval info \<noteq> 0" and "LastReelectNumber info \<le> LastBCNumber info"
    and "(LastBCNumber info - LastReelectNumber info) mod BCInterval info = 0"
    and "LastBCNumber info \<le> number" and "IsReElectionNumber info number = Some True"
  shows "IsBroadcastNumber info number = Some True"
proof -
  let ?l = "unat (LastBCNumber info)" and ?r = "unat (LastReelectNumber info)"
    and ?i = "unat (BCInterval info)" and ?x = "unat number"
  have r: "?r \<le> ?l" and l: "?l \<le> ?x" using assms by (simp_all add: word_le_nat_alt)
  have "(?x - ?r) mod ?i = 0" "(?l - ?r) mod ?i = 0"
    using assms by (auto simp: IsReElectionNumber_def unat_eq_0 [symmetric] unat_mod unat_sub split: if_splits)
  then have "?i dvd (?x - ?r) - (?l - ?r)" by (simp only: dvd_diff_nat mod_eq_0_iff_dvd)
  then have "(?x - ?l) mod ?i = 0" using r by (simp add: mod_eq_0_iff_dvd)
  then show ?thesis using assms by (auto simp: IsBroadcastNumber_def unat_eq_0 [symmetric] unat_mod unat_sub)
qed

end
