(* ===== verification/Rlp.thy ===== *)
theory Rlp
  imports Prelude
begin

unbundle bit_operations_syntax

text \<open>
  RLP, the serialisation every hash of the node is computed over: the encoder of
  \<open>rlp/encode.go\<close> with its split buffer (string data and list headers kept apart, merged when the
  buffer is flushed), and the splitting functions of \<open>rlp/raw.go\<close>.  A Go value is a tree of the
  kinds \<open>makeWriter\<close> tells apart; the reflection that finds the kind of a type is not modelled.

  The lemmas show that the flushed buffer is the recursive encoding of the format, that splitting
  undoes encoding, and that the encoding is prefix free, so that two values with the same encoding
  carry the same data.  Buffer sizes are natural numbers: a buffer in memory is shorter than
  \<open>2 ^ 63\<close> bytes, and the statements that depend on it say so.
\<close>

section \<open>Integers as bytes\<close>

type_synonym bytes = "u8 list"

definition putintSize :: "u64 \<Rightarrow> nat" where
  "putintSize i =
     (if i < 2 ^ 8 then 1 else if i < 2 ^ 16 then 2 else if i < 2 ^ 24 then 3
      else if i < 2 ^ 32 then 4 else if i < 2 ^ 40 then 5 else if i < 2 ^ 48 then 6
      else if i < 2 ^ 56 then 7 else 8)"

definition putint :: "u64 \<Rightarrow> bytes" where
  "putint i = map (\<lambda>j. ucast (drop_bit (8 * j) i)) (rev [0..<putintSize i])"

function intsize :: "u64 \<Rightarrow> nat" where
  "intsize i = (let i' = drop_bit 8 i in if i' = 0 then 1 else Suc (intsize i'))"
  by auto
termination
proof (relation "measure unat")
  fix i i' :: u64
  assume "i' = drop_bit 8 i" "i' \<noteq> 0"
  then have "unat i' \<noteq> 0" "unat i' = unat i div 256"
    by (simp_all add: unat_eq_zero) (simp add: drop_bit_eq_div unat_div)
  then show "(i', i) \<in> measure unat" by simp
qed simp

declare intsize.simps [simp del]

definition headsize :: "u64 \<Rightarrow> nat" where
  "headsize sz = (if sz < 56 then 1 else 1 + intsize sz)"

definition puthead :: "u8 \<Rightarrow> u8 \<Rightarrow> u64 \<Rightarrow> bytes" where
  "puthead smalltag largetag sz =
     (if sz < 56 then [smalltag + ucast sz]
      else (let b = putint sz in (largetag + of_nat (length b)) # b))"

text \<open>\<open>big.Int.Bytes\<close>: the absolute value in big-endian order, without leading zeroes.\<close>

function natBytes :: "nat \<Rightarrow> bytes" where
  "natBytes n = (if n = 0 then [] else natBytes (n div 256) @ [of_nat (n mod 256)])"
  by auto
termination by (relation "measure id") simp_all

declare natBytes.simps [simp del]

section \<open>The encoder\<close>

text \<open>
  The kinds of \<open>makeWriter\<close>: unsigned integers, booleans, \<open>*big.Int\<close> (possibly nil), byte slices
  and byte arrays, strings, raw values, slices and structs, nil pointers to a struct or an array,
  nil pointers to a byte array, nil interfaces, and interfaces that carry a type number.
\<close>

datatype rlpValue =
    VUint u64
  | VBool bool
  | VBigInt "int option"
  | VBytes bytes
  | VString bytes
  | VRaw bytes
  | VList "rlpValue list"
  | VNilStruct
  | VNilByteArray
  | VNilInterface
  | VTyped u16 rlpValue

record listhead =
  lh_offset :: nat
  lh_size :: nat

record encbuf =
  eb_str :: bytes
  eb_lheads :: "listhead list"
  eb_lhsize :: nat

definition newEncbuf :: encbuf where
  "newEncbuf = \<lparr>eb_str = [], eb_lheads = [], eb_lhsize = 0\<rparr>"

definition eb_append :: "bytes \<Rightarrow> encbuf \<Rightarrow> encbuf" where
  "eb_append b w = w\<lparr>eb_str := eb_str w @ b\<rparr>"

definition encodeStringHeader :: "nat \<Rightarrow> encbuf \<Rightarrow> encbuf" where
  "encodeStringHeader sz w =
     (if sz < 56 then eb_append [0x80 + of_nat sz] w
      else (let b = putint (of_nat sz) in eb_append ((0xB7 + of_nat (length b)) # b) w))"

definition encodeString :: "bytes \<Rightarrow> encbuf \<Rightarrow> encbuf" where
  "encodeString b w =
     (if length b = 1 \<and> b ! 0 \<le> 0x7F then eb_append [b ! 0] w
      else eb_append b (encodeStringHeader (length b) w))"

definition eb_size :: "encbuf \<Rightarrow> nat" where
  "eb_size w = length (eb_str w) + eb_lhsize w"

text \<open>\<open>list\<close> returns the index of the header it appends, where Go returns a pointer to it.\<close>

definition eb_list :: "encbuf \<Rightarrow> nat \<times> encbuf" where
  "eb_list w =
     (length (eb_lheads w),
      w\<lparr>eb_lheads := eb_lheads w @ [\<lparr>lh_offset = length (eb_str w), lh_size = eb_lhsize w\<rparr>]\<rparr>)"

definition listEnd :: "nat \<Rightarrow> encbuf \<Rightarrow> encbuf" where
  "listEnd i w =
     (let lh = eb_lheads w ! i;
          sz = eb_size w - lh_offset lh - lh_size lh;
          w' = w\<lparr>eb_lheads := (eb_lheads w)[i := lh\<lparr>lh_size := sz\<rparr>]\<rparr>
      in if sz < 56 then w'\<lparr>eb_lhsize := eb_lhsize w' + 1\<rparr>
         else w'\<lparr>eb_lhsize := eb_lhsize w' + 1 + intsize (of_nat sz)\<rparr>)"

definition writeUint :: "u64 \<Rightarrow> encbuf \<Rightarrow> encbuf" where
  "writeUint i w =
     (if i = 0 then eb_append [0x80] w
      else if i < 128 then eb_append [ucast i] w
      else (let b = putint i in eb_append ((0x80 + of_nat (length b)) # b) w))"

definition EncodeUint :: "u64 \<Rightarrow> bytes" where
  "EncodeUint i =
     (if i = 0 then [0x80]
      else if i < 128 then [ucast i]
      else (let b = putint i in (0x80 + of_nat (length b)) # b))"

definition writeBool :: "bool \<Rightarrow> encbuf \<Rightarrow> encbuf" where
  "writeBool v w = (if v then eb_append [0x01] w else eb_append [0x80] w)"

definition writeBigInt :: "int \<Rightarrow> encbuf \<Rightarrow> error + encbuf" where
  "writeBigInt i w =
     (if i < 0 then Inl ErrNegativeBigInt
      else if i = 0 then Inr (eb_append [0x80] w)
      else Inr (encodeString (natBytes (nat i)) w))"

definition writeBigIntPtr :: "int option \<Rightarrow> encbuf \<Rightarrow> error + encbuf" where
  "writeBigIntPtr p w = (case p of None \<Rightarrow> Inr (eb_append [0x80] w) | Some i \<Rightarrow> writeBigInt i w)"

definition writeString :: "bytes \<Rightarrow> encbuf \<Rightarrow> encbuf" where
  "writeString s w =
     (if length s = 1 \<and> s ! 0 \<le> 0x7f then eb_append [s ! 0] w
      else eb_append s (encodeStringHeader (length s) w))"

text \<open>
  The writer \<open>makeWriter\<close> selects for each kind.  Slices and structs open a list, write their
  elements in order and close it; a nil pointer to a struct writes an empty list.
\<close>

fun writeValue :: "rlpValue \<Rightarrow> encbuf \<Rightarrow> error + encbuf"
  and writeElems :: "rlpValue list \<Rightarrow> encbuf \<Rightarrow> error + encbuf" where
  "writeValue (VUint i) w = Inr (writeUint i w)"
| "writeValue (VBool v) w = Inr (writeBool v w)"
| "writeValue (VBigInt p) w = writeBigIntPtr p w"
| "writeValue (VBytes b) w = Inr (encodeString b w)"
| "writeValue (VString s) w = Inr (writeString s w)"
| "writeValue (VRaw b) w = Inr (eb_append b w)"
| "writeValue (VList vs) w =
     (case eb_list w of (lh, w1) \<Rightarrow>
        (case writeElems vs w1 of Inl e \<Rightarrow> Inl e | Inr w2 \<Rightarrow> Inr (listEnd lh w2)))"
| "writeValue VNilStruct w = (case eb_list w of (lh, w1) \<Rightarrow> Inr (listEnd lh w1))"
| "writeValue VNilByteArray w = Inr (eb_append [0x80] w)"
| "writeValue VNilInterface w = Inr (eb_append [0xC0] w)"
| "writeValue (VTyped t v) w =
     (case eb_list w of (lh, w1) \<Rightarrow>
        (case writeValue v (writeUint (ucast t) w1) of Inl e \<Rightarrow> Inl e | Inr w2 \<Rightarrow> Inr (listEnd lh w2)))"
| "writeElems [] w = Inr w"
| "writeElems (v # vs) w = (case writeValue v w of Inl e \<Rightarrow> Inl e | Inr w' \<Rightarrow> writeElems vs w')"

text \<open>
  Flushing the buffer: the string data up to the next header, the header, and so on.  \<open>strpos\<close> is
  the position reached and \<open>rest\<close> the string data from there.
\<close>

fun flushHeads :: "nat \<Rightarrow> bytes \<Rightarrow> listhead list \<Rightarrow> bytes" where
  "flushHeads strpos rest [] = rest"
| "flushHeads strpos rest (h # hs) =
     take (lh_offset h - strpos) rest @ puthead 0xC0 0xF7 (of_nat (lh_size h))
     @ flushHeads (lh_offset h) (drop (lh_offset h - strpos) rest) hs"

definition toWriter :: "encbuf \<Rightarrow> bytes" where
  "toWriter w = flushHeads 0 (eb_str w) (eb_lheads w)"

text \<open>\<open>toBytes\<close> copies the same pieces into a zeroed slice of \<open>size()\<close> bytes.\<close>

definition toBytes :: "encbuf \<Rightarrow> bytes" where
  "toBytes w = (let s = toWriter w in take (eb_size w) s @ replicate (eb_size w - length s) 0)"

definition Encode :: "rlpValue \<Rightarrow> error + bytes" where
  "Encode v = (case writeValue v newEncbuf of Inl e \<Rightarrow> Inl e | Inr w \<Rightarrow> Inr (toWriter w))"

definition EncodeToBytes :: "rlpValue \<Rightarrow> error + bytes" where
  "EncodeToBytes v = (case writeValue v newEncbuf of Inl e \<Rightarrow> Inl e | Inr w \<Rightarrow> Inr (toBytes w))"

section \<open>Splitting encoded data\<close>

datatype Kind = Byte | String | List

definition ListSize :: "u64 \<Rightarrow> u64" where
  "ListSize contentSize = of_nat (headsize contentSize) + contentSize"

definition readSize :: "bytes \<Rightarrow> nat \<Rightarrow> error + u64" where
  "readSize b slen =
     (if slen > length b then Inl ErrUnexpectedEOF
      else
        (let s = foldl (\<lambda>acc x. push_bit 8 acc OR ucast x) 0 (take slen b)
         in if s < 56 \<or> b ! 0 = 0 then Inl ErrCanonSize else Inr s))"

definition readKind :: "bytes \<Rightarrow> error + (Kind \<times> u64 \<times> u64)" where
  "readKind buf =
     (if length buf = 0 then Inl ErrUnexpectedEOF
      else
        (let b = buf ! 0;
             r = (if b < 0x80 then Inr (Byte, 0, 1)
                  else if b < 0xB8 then
                    (let contentsize = ucast (b - 0x80)
                     in if contentsize = 1 \<and> length buf > 1 \<and> buf ! 1 < 128 then Inl ErrCanonSize
                        else Inr (String, 1, contentsize))
                  else if b < 0xC0 then
                    map_sum id (\<lambda>s. (String, ucast (b - 0xB7) + 1, s)) (readSize (tl buf) (unat (b - 0xB7)))
                  else if b < 0xF8 then Inr (List, 1, ucast (b - 0xC0))
                  else
                    map_sum id (\<lambda>s. (List, ucast (b - 0xF7) + 1, s)) (readSize (tl buf) (unat (b - 0xF7))))
         in case r of
              Inl e \<Rightarrow> Inl e
            | Inr (k, tagsize, contentsize) \<Rightarrow>
                (if contentsize > of_nat (length buf) - tagsize then Inl ErrValueTooLarge
                 else Inr (k, tagsize, contentsize))))"

text \<open>
  \<open>b[ts+cs:]\<close>: the last check of \<open>readKind\<close> bounds the sum by the length of the buffer, so that
  it is the sum of the two numbers.
\<close>

definition Split :: "bytes \<Rightarrow> error + (Kind \<times> bytes \<times> bytes)" where
  "Split b =
     (case readKind b of
        Inl e \<Rightarrow> Inl e
      | Inr (k, ts, cs) \<Rightarrow> Inr (k, take (unat cs) (drop (unat ts) b), drop (unat ts + unat cs) b))"

definition SplitString :: "bytes \<Rightarrow> error + (bytes \<times> bytes)" where
  "SplitString b =
     (case Split b of
        Inl e \<Rightarrow> Inl e
      | Inr (k, content, rest) \<Rightarrow> (if k = List then Inl ErrExpectedString else Inr (content, rest)))"

definition SplitList :: "bytes \<Rightarrow> error + (bytes \<times> bytes)" where
  "SplitList b =
     (case Split b of
        Inl e \<Rightarrow> Inl e
      | Inr (k, content, rest) \<Rightarrow> (if k \<noteq> List then Inl ErrExpectedList else Inr (content, rest)))"

section \<open>Integers\<close>

lemma natBytes_0 [simp]: "natBytes 0 = []"
  by (simp add: natBytes.simps)

lemma natBytes_pos: "n \<noteq> 0 \<Longrightarrow> natBytes n = natBytes (n div 256) @ [of_nat (n mod 256)]"
  by (simp add: natBytes.simps [of n])

lemma natBytes_digits:
  "n < 256 ^ k \<Longrightarrow> k = 0 \<or> 256 ^ (k - 1) \<le> n
   \<Longrightarrow> natBytes n = map (\<lambda>j. of_nat (n div 256 ^ j)) (rev [0..<k])"
proof (induction k arbitrary: n)
  case (Suc k)
  have n: "n \<noteq> 0" using Suc.prems(2) by (cases "n = 0") (auto simp: power_eq_0_iff)
  have "natBytes (n div 256) = map (\<lambda>j. of_nat (n div 256 div 256 ^ j)) (rev [0..<k])"
  proof (rule Suc.IH)
    show "n div 256 < 256 ^ k" using Suc.prems(1) by (simp add: less_mult_imp_div_less mult.commute)
    show "k = 0 \<or> 256 ^ (k - 1) \<le> n div 256"
      using Suc.prems(2) by (cases k) (auto simp: less_eq_div_iff_mult_less_eq mult.commute)
  qed
  moreover have "rev [0..<Suc k] = rev (map Suc [0..<k]) @ [0]"
    by (simp add: map_Suc_upt upt_conv_Cons del: upt_Suc)
  moreover have "(of_nat (n mod 256) :: u8) = of_nat n"
    by (simp add: word_unat_eq_iff unat_of_nat)
  ultimately show ?case
    by (simp add: natBytes_pos [OF n] rev_map div_mult2_eq comp_def del: upt_Suc)
qed simp

lemma ucast_drop_bit: "(ucast (drop_bit (8 * j) (i :: u64)) :: u8) = of_nat (unat i div 256 ^ j)"
proof -
  have "unat (drop_bit (8 * j) i) = unat i div 256 ^ j"
    by (simp only: unat_drop_bit_eq) (simp add: drop_bit_eq_div power_mult)
  then show ?thesis by (simp add: word_unat_eq_iff unsigned_ucast_eq unat_of_nat take_bit_eq_mod)
qed

lemma putintSize_bounds:
  assumes "i \<noteq> 0"
  shows "unat i < 256 ^ putintSize i \<and> 256 ^ (putintSize i - 1) \<le> unat i"
proof -
  have u: "unat i < 2 ^ 64" "unat i \<noteq> 0"
    using unsigned_less [of i, where ?'a = nat] assms by (simp_all add: unat_eq_zero)
  have "putintSize i =
     (if unat i < 2 ^ 8 then 1 else if unat i < 2 ^ 16 then 2 else if unat i < 2 ^ 24 then 3
      else if unat i < 2 ^ 32 then 4 else if unat i < 2 ^ 40 then 5 else if unat i < 2 ^ 48 then 6
      else if unat i < 2 ^ 56 then 7 else 8)"
    by (simp add: putintSize_def word_less_nat_alt)
  with u show ?thesis by simp
qed

lemma putint_natBytes: "i \<noteq> 0 \<Longrightarrow> putint i = natBytes (unat i)"
  using putintSize_bounds [of i]
  by (simp add: putint_def ucast_drop_bit natBytes_digits [of "unat i" "putintSize i"])

lemma length_putint: "1 \<le> length (putint i)" "length (putint i) \<le> 8"
  by (simp_all add: putint_def putintSize_def)

lemma intsize_natBytes: "i \<noteq> 0 \<Longrightarrow> intsize i = length (natBytes (unat i))"
proof (induction i rule: intsize.induct)
  case (1 i)
  let ?i = "drop_bit 8 i"
  have u: "unat ?i = unat i div 256" by (simp add: drop_bit_eq_div unat_div)
  have n: "unat i \<noteq> 0" using "1.prems" by (simp add: unat_eq_zero)
  show ?case
  proof (cases "?i = 0")
    case True
    then show ?thesis using u n by (simp add: intsize.simps [of i] natBytes_pos)
  next
    case False
    with "1.IH" show ?thesis using u n by (simp add: intsize.simps [of i] natBytes_pos [of "unat i"])
  qed
qed


section \<open>The format\<close>

text \<open>
  The recursive description of the format: a string is its own byte when it is one byte below
  128, otherwise a header and the bytes; a list is a header and the encodings of its elements.
\<close>

definition encHead :: "u8 \<Rightarrow> u8 \<Rightarrow> nat \<Rightarrow> bytes" where
  "encHead smalltag largetag n =
     (if n < 56 then [smalltag + of_nat n]
      else (let b = natBytes n in (largetag + of_nat (length b)) # b))"

definition encString :: "bytes \<Rightarrow> bytes" where
  "encString b = (if length b = 1 \<and> hd b \<le> 0x7F then b else encHead 0x80 0xB7 (length b) @ b)"

definition encList :: "bytes \<Rightarrow> bytes" where
  "encList c = encHead 0xC0 0xF7 (length c) @ c"

fun encValue :: "rlpValue \<Rightarrow> error + bytes"
  and encElems :: "rlpValue list \<Rightarrow> error + bytes" where
  "encValue (VUint i) = Inr (encString (natBytes (unat i)))"
| "encValue (VBool v) = Inr (encString (if v then [1] else []))"
| "encValue (VBigInt None) = Inr (encString [])"
| "encValue (VBigInt (Some i)) =
     (if i < 0 then Inl ErrNegativeBigInt else Inr (encString (natBytes (nat i))))"
| "encValue (VBytes b) = Inr (encString b)"
| "encValue (VString s) = Inr (encString s)"
| "encValue (VRaw b) = Inr b"
| "encValue (VList vs) = map_sum id encList (encElems vs)"
| "encValue VNilStruct = Inr (encList [])"
| "encValue VNilByteArray = Inr (encString [])"
| "encValue VNilInterface = Inr (encList [])"
| "encValue (VTyped t v) = map_sum id (\<lambda>c. encList (encString (natBytes (unat t)) @ c)) (encValue v)"
| "encElems [] = Inr []"
| "encElems (v # vs) =
     (case encValue v of Inl e \<Rightarrow> Inl e | Inr b \<Rightarrow> map_sum id (\<lambda>c. b @ c) (encElems vs))"

section \<open>The buffer holds the encoding\<close>

lemma unat_of_nat_u64: "n < 2 ^ 64 \<Longrightarrow> unat (of_nat n :: u64) = n"
  by (simp add: unat_of_nat)

lemma of_nat_u64_less: "n < 2 ^ 64 \<Longrightarrow> (of_nat n :: u64) < 56 \<longleftrightarrow> n < 56"
  by (simp add: word_less_nat_alt unat_of_nat_u64)

lemma puthead_encHead:
  assumes "n < 2 ^ 64"
  shows "puthead s l (of_nat n) = encHead s l n"
proof (cases "n < 56")
  case True
  then have "(ucast (of_nat n :: u64) :: u8) = of_nat n"
    by (simp add: word_unat_eq_iff unsigned_ucast_eq unat_of_nat take_bit_eq_mod)
  then show ?thesis using True assms by (simp add: puthead_def encHead_def of_nat_u64_less)
next
  case False
  then have "(of_nat n :: u64) \<noteq> 0" using assms by (metis unat_0 unat_of_nat_u64 zero_less_numeral)
  then show ?thesis using False assms
    by (simp add: puthead_def encHead_def of_nat_u64_less putint_natBytes unat_of_nat_u64)
qed

lemma length_encHead:
  assumes "n < 2 ^ 64"
  shows "length (encHead s l n) = (if n < 56 then 1 else 1 + intsize (of_nat n))"
proof (cases "n < 56")
  case False
  then have "(of_nat n :: u64) \<noteq> 0" using assms by (metis unat_0 unat_of_nat_u64 zero_less_numeral)
  then show ?thesis using False assms by (simp add: encHead_def intsize_natBytes unat_of_nat_u64 Let_def)
qed (simp add: encHead_def)

lemma of_nat_u64_nz: "56 \<le> n \<Longrightarrow> n < 2 ^ 64 \<Longrightarrow> (of_nat n :: u64) \<noteq> 0"
  by (metis not_numeral_le_zero unat_0 unat_of_nat_u64)

lemma encodeStringHeader_enc:
  "n < 2 ^ 64 \<Longrightarrow> encodeStringHeader n w = eb_append (encHead 0x80 0xB7 n) w"
  by (simp add: encodeStringHeader_def encHead_def Let_def of_nat_u64_nz putint_natBytes unat_of_nat_u64)

lemma eb_append_append: "eb_append b (eb_append a w) = eb_append (a @ b) w"
  by (simp add: eb_append_def)

lemma encodeString_enc: "length b < 2 ^ 64 \<Longrightarrow> encodeString b w = eb_append (encString b) w"
  by (cases b) (simp_all add: encodeString_def encString_def encodeStringHeader_enc eb_append_append)

lemma writeString_enc: "length b < 2 ^ 64 \<Longrightarrow> writeString b w = eb_append (encString b) w"
  using encodeString_enc [of b w] by (simp add: writeString_def encodeString_def)

lemma natBytes_small: "0 < n \<Longrightarrow> n < 256 \<Longrightarrow> natBytes n = [of_nat n]"
  by (simp add: natBytes_pos)

lemma length_natBytes_u64: "length (natBytes (unat (i :: u64))) \<le> 8"
  by (metis length_putint(2) putint_natBytes list.size(3) natBytes_0 unat_0 zero_le)

lemma writeUint_enc: "writeUint i w = eb_append (encString (natBytes (unat i))) w"
proof -
  consider "i = 0" | "i \<noteq> 0" "i < 128" | "128 \<le> i" by (meson not_le)
  then show ?thesis
  proof cases
    case 2
    then have u: "0 < unat i" "unat i < 128" by (simp_all add: unat_gt_0 word_less_nat_alt)
    then have "unat (ucast i :: u8) = unat i" by (simp add: unsigned_ucast_eq take_bit_nat_eq_self)
    then have "(ucast i :: u8) \<le> 0x7F" using u by (simp add: word_le_nat_alt)
    then show ?thesis using 2 u by (simp add: writeUint_def encString_def natBytes_small)
  next
    case 3
    then have u: "128 \<le> unat i" by (simp add: word_le_nat_alt)
    have l: "length (natBytes (unat i)) < 56" using length_natBytes_u64 [of i] by simp
    have "\<not> (length (natBytes (unat i)) = 1 \<and> hd (natBytes (unat i)) \<le> 0x7F)"
    proof
      assume "length (natBytes (unat i)) = 1 \<and> hd (natBytes (unat i)) \<le> 0x7F"
      moreover from this have "unat i div 256 = 0"
        using u by (cases "unat i div 256 = 0") (auto simp: natBytes_pos [of "unat i"] natBytes_pos [of "unat i div 256"])
      ultimately show False using u
        by (auto simp: natBytes_pos [of "unat i"] word_le_nat_alt unsigned_ucast_eq take_bit_nat_eq_self)
    qed
    moreover have "i \<noteq> 0" "\<not> i < 128" using 3 by auto
    ultimately show ?thesis using l
      by (auto simp: writeUint_def encString_def encHead_def putint_natBytes Let_def)
  qed (simp add: writeUint_def encString_def encHead_def)
qed

text \<open>
  A segment of the buffer: string data \<open>s\<close> that starts at position \<open>p\<close>, with headers \<open>hs\<close> in
  increasing order inside it.
\<close>

fun segOK :: "nat \<Rightarrow> nat \<Rightarrow> listhead list \<Rightarrow> bool" where
  "segOK p n [] \<longleftrightarrow> p \<le> n"
| "segOK p n (h # hs) \<longleftrightarrow> p \<le> lh_offset h \<and> segOK (lh_offset h) n hs"

lemma segOK_le: "segOK p n hs \<Longrightarrow> p \<le> n"
  by (induction hs arbitrary: p) (auto intro: order_trans)

lemma segOK_append: "segOK p m hs1 \<Longrightarrow> segOK m n hs2 \<Longrightarrow> segOK p n (hs1 @ hs2)"
  by (induction hs1 arbitrary: p) (auto dest: segOK_le elim: segOK.elims)

lemma flushHeads_append:
  "segOK p (p + length s1) hs1 \<Longrightarrow> segOK (p + length s1) n hs2
   \<Longrightarrow> flushHeads p (s1 @ s2) (hs1 @ hs2) = flushHeads p s1 hs1 @ flushHeads (p + length s1) s2 hs2"
proof (induction hs1 arbitrary: p s1)
  case Nil
  then show ?case by (cases hs2) (auto dest: segOK_le)
next
  case (Cons h hs1)
  let ?k = "lh_offset h - p"
  have k: "p \<le> lh_offset h" "?k \<le> length s1" using Cons.prems(1) by (auto dest: segOK_le)
  have "flushHeads (lh_offset h) (drop ?k s1 @ s2) (hs1 @ hs2)
      = flushHeads (lh_offset h) (drop ?k s1) hs1 @ flushHeads (lh_offset h + length (drop ?k s1)) s2 hs2"
    using Cons.prems k by (intro Cons.IH) (simp_all add: add.commute)
  with k show ?case by (simp add: add.commute)
qed

text \<open>What a writer adds to the buffer: string data, headers and their size, which flush to \<open>b\<close>.\<close>

definition adds :: "bytes \<Rightarrow> encbuf \<Rightarrow> encbuf \<Rightarrow> bool" where
  "adds b w w' \<longleftrightarrow>
     (\<exists>s hs. eb_str w' = eb_str w @ s \<and> eb_lheads w' = eb_lheads w @ hs
       \<and> segOK (length (eb_str w)) (length (eb_str w')) hs
       \<and> flushHeads (length (eb_str w)) s hs = b
       \<and> length s + eb_lhsize w' = length b + eb_lhsize w)"

lemma adds_refl: "adds [] w w"
  by (auto simp: adds_def)

lemma adds_append: "adds b w (eb_append b w)"
  by (auto simp: adds_def eb_append_def)

lemma adds_trans:
  assumes "adds a u v" "adds b v w"
  shows "adds (a @ b) u w"
proof -
  from assms(1) obtain s hs where a: "eb_str v = eb_str u @ s" "eb_lheads v = eb_lheads u @ hs"
    "segOK (length (eb_str u)) (length (eb_str v)) hs" "flushHeads (length (eb_str u)) s hs = a"
    "length s + eb_lhsize v = length a + eb_lhsize u" by (auto simp: adds_def)
  from assms(2) obtain s' hs' where b: "eb_str w = eb_str v @ s'" "eb_lheads w = eb_lheads v @ hs'"
    "segOK (length (eb_str v)) (length (eb_str w)) hs'" "flushHeads (length (eb_str v)) s' hs' = b"
    "length s' + eb_lhsize w = length b + eb_lhsize v" by (auto simp: adds_def)
  have "segOK (length (eb_str u)) (length (eb_str w)) (hs @ hs')"
    using a(3) b(3) by (rule segOK_append)
  moreover have "flushHeads (length (eb_str u)) (s @ s') (hs @ hs') = a @ b"
    using flushHeads_append [of "length (eb_str u)" s hs _ hs' s'] a b by simp
  ultimately show ?thesis using a b by (auto simp: adds_def intro!: exI [of _ "s @ s'"] exI [of _ "hs @ hs'"])
qed

text \<open>Opening a list, adding its content and closing it adds the header and the content.\<close>

lemma adds_list:
  assumes "eb_list w = (i, w1)" "adds c w1 w2" "length c < 2 ^ 64"
  shows "adds (encList c) w (listEnd i w2)"
proof -
  let ?h = "\<lparr>lh_offset = length (eb_str w), lh_size = eb_lhsize w\<rparr>"
  from assms(1) have w1: "i = length (eb_lheads w)" "eb_str w1 = eb_str w"
    "eb_lheads w1 = eb_lheads w @ [?h]" "eb_lhsize w1 = eb_lhsize w"
    by (auto simp: eb_list_def)
  from assms(2) w1 obtain s hs where s: "eb_str w2 = eb_str w @ s" "eb_lheads w2 = eb_lheads w @ [?h] @ hs"
    "segOK (length (eb_str w)) (length (eb_str w2)) hs" "flushHeads (length (eb_str w)) s hs = c"
    "length s + eb_lhsize w2 = length c + eb_lhsize w"
    by (auto simp: adds_def)
  let ?h' = "\<lparr>lh_offset = length (eb_str w), lh_size = length c\<rparr>"
  have sz: "eb_size w2 - length (eb_str w) - eb_lhsize w = length c"
    using s by (simp add: eb_size_def)
  have e: "eb_str (listEnd i w2) = eb_str w @ s"
    "eb_lheads (listEnd i w2) = eb_lheads w @ ?h' # hs"
    "eb_lhsize (listEnd i w2) = eb_lhsize w2 + length (encHead 0xC0 0xF7 (length c))"
    using assms(3) sz s(1) by (simp_all add: listEnd_def w1(1) s(2) Let_def length_encHead)
  show ?thesis unfolding adds_def
    using s e assms(3)
    by (intro exI [of _ s] exI [of _ "?h' # hs"]) (simp add: encList_def puthead_encHead)
qed

lemma unat_ucast_u16_u64: "unat (ucast (t :: u16) :: u64) = unat t"
proof -
  have "unat t < 2 ^ 64" using unsigned_less [of t, where ?'a = nat] by simp
  then show ?thesis by (simp add: unsigned_ucast_eq take_bit_nat_eq_self)
qed

lemma encString_short: "length (encString b) < n \<Longrightarrow> length b < n"
  by (simp add: encString_def split: if_splits)

lemma encList_short: "length (encList b) < n \<Longrightarrow> length b < n"
  by (simp add: encList_def)

lemma adds_encString: "length (encString b) < 2 ^ 64 \<Longrightarrow> adds (encString b) w (encodeString b w)"
  using encString_short [of b "2 ^ 64"] by (simp add: encodeString_enc adds_append)

lemma writeValue_adds:
  "encValue v = Inr b \<Longrightarrow> length b < 2 ^ 64 \<Longrightarrow> \<exists>w'. writeValue v w = Inr w' \<and> adds b w w'"
  "encElems vs = Inr b \<Longrightarrow> length b < 2 ^ 64 \<Longrightarrow> \<exists>w'. writeElems vs w = Inr w' \<and> adds b w w'"
proof (induction v w and vs w arbitrary: b and b rule: writeValue_writeElems.induct)
  case (3 p w)
  have z: "encString [] = [0x80]" by (simp add: encString_def encHead_def)
  from 3 show ?case
    by (cases p) (auto simp: writeBigIntPtr_def writeBigInt_def z adds_append adds_encString split: if_splits)
next
  case (5 s w)
  then show ?case using encString_short [of s "2 ^ 64"] by (auto simp: writeString_enc adds_append)
next
  case (7 vs w)
  from 7(2) obtain c where c: "encElems vs = Inr c" "b = encList c"
    by (cases "encElems vs") auto
  with 7(3) have l: "length c < 2 ^ 64" by (auto dest: encList_short)
  obtain i w1 where w1: "eb_list w = (i, w1)" by (cases "eb_list w")
  from 7(1) [OF w1 [symmetric] c(1) l] obtain w2 where "writeElems vs w1 = Inr w2" "adds c w1 w2" by auto
  then show ?case using w1 c l by (auto intro!: adds_list)
next
  case (8 w)
  obtain i w1 where w1: "eb_list w = (i, w1)" by (cases "eb_list w")
  with 8 show ?case using adds_list [OF w1 adds_refl] by auto
next
  case (11 t v w)
  from 11(2) obtain c where c: "encValue v = Inr c" "b = encList (encString (natBytes (unat t)) @ c)"
    by (cases "encValue v") auto
  with 11(3) have l: "length (encString (natBytes (unat t)) @ c) < 2 ^ 64" by (auto dest: encList_short)
  then have l': "length c < 2 ^ 64" by simp
  obtain i w1 where w1: "eb_list w = (i, w1)" by (cases "eb_list w")
  from 11(1) [OF w1 [symmetric] c(1) l'] obtain w2 where
    w2: "writeValue v (writeUint (ucast t) w1) = Inr w2" "adds c (writeUint (ucast t) w1) w2" by auto
  have "adds (encString (natBytes (unat t)) @ c) w1 w2"
    using w2(2) by (intro adds_trans [OF _ w2(2)]) (simp add: writeUint_enc adds_append unat_ucast_u16_u64)
  then show ?case using w1 w2 c l by (auto intro!: adds_list)
next
  case (13 v vs w)
  from 13(3) obtain a c where c: "encValue v = Inr a" "encElems vs = Inr c" "b = a @ c"
    by (cases "encValue v"; cases "encElems vs") auto
  with 13(4) have l: "length a < 2 ^ 64" "length c < 2 ^ 64" by simp_all
  from 13(1) [OF c(1) l(1)] obtain w' where w': "writeValue v w = Inr w'" "adds a w w'" by auto
  from 13(2) [OF w'(1) c(2) l(2)] obtain w'' where "writeElems vs w' = Inr w''" "adds c w' w''" by auto
  then show ?case using w' c by (auto intro: adds_trans)
qed (auto simp: writeUint_enc writeBool_def encString_def [of "[_]"] encString_def [of "[]"] encHead_def
    encList_def adds_append adds_refl adds_encString)

lemma writeValue_error:
  "case encValue v of Inl e \<Rightarrow> writeValue v w = Inl e | Inr b \<Rightarrow> \<exists>w'. writeValue v w = Inr w'"
  "case encElems vs of Inl e \<Rightarrow> writeElems vs w = Inl e | Inr b \<Rightarrow> \<exists>w'. writeElems vs w = Inr w'"
proof (induction v w and vs w rule: writeValue_writeElems.induct)
  case (3 p w)
  then show ?case by (cases p) (simp_all add: writeBigIntPtr_def writeBigInt_def)
next
  case (7 vs w)
  then show ?case by (cases "eb_list w"; cases "encElems vs") auto
next
  case (11 t v w)
  then show ?case by (cases "eb_list w"; cases "encValue v") auto
next
  case (13 v vs w)
  then show ?case by (cases "encValue v"; cases "encElems vs") auto
qed (auto split: prod.splits)

lemma adds_toWriter: "adds b newEncbuf w \<Longrightarrow> toWriter w = b \<and> eb_size w = length b"
  by (auto simp: adds_def newEncbuf_def toWriter_def eb_size_def)

lemma Encode_encValue:
  assumes "\<forall>b. encValue v = Inr b \<longrightarrow> length b < 2 ^ 64"
  shows "Encode v = encValue v \<and> EncodeToBytes v = encValue v"
proof (cases "encValue v")
  case (Inl e)
  then show ?thesis using writeValue_error(1) [of v newEncbuf] by (simp add: Encode_def EncodeToBytes_def)
next
  case (Inr b)
  with assms obtain w where w: "writeValue v newEncbuf = Inr w" "adds b newEncbuf w"
    using writeValue_adds(1) [of v b newEncbuf] by auto
  with adds_toWriter [OF w(2)] Inr show ?thesis
    by (simp add: Encode_def EncodeToBytes_def toBytes_def Let_def)
qed

section \<open>Splitting undoes encoding\<close>

lemma foldl_digits:
  "foldl (\<lambda>acc x. push_bit 8 acc OR ucast x) acc (map (\<lambda>j. ucast (drop_bit (8 * j) (i :: u64)) :: u8) (rev [0..<k]))
   = push_bit (8 * k) acc OR take_bit (8 * k) i"
proof (induction k arbitrary: acc)
  case (Suc k)
  have "push_bit (8 * k) (push_bit 8 acc OR ucast (ucast (drop_bit (8 * k) i) :: u8)) OR take_bit (8 * k) i
      = push_bit (8 * Suc k) acc OR take_bit (8 * Suc k) i"
    by (rule bit_eqI) (auto simp: bit_simps add.commute [of 8 "8 * k"])
  with Suc.IH show ?case by (simp del: upt_Suc add: upt_Suc_append)
qed simp

lemma hd_natBytes: "n \<noteq> 0 \<Longrightarrow> natBytes n \<noteq> [] \<and> hd (natBytes n) \<noteq> 0"
proof (induction n rule: natBytes.induct)
  case (1 n)
  show ?case
  proof (cases "n div 256 = 0")
    case True
    then have "n < 256" by simp
    then have "unat (of_nat n :: u8) = n" by (simp add: unat_of_nat)
    then show ?thesis using "1.prems" True by (auto simp: natBytes_pos)
  next
    case False
    then show ?thesis using "1.IH" "1.prems" by (simp add: natBytes_pos [of n])
  qed
qed

lemma readSize_natBytes:
  assumes "56 \<le> n" "n < 2 ^ 64"
  shows "readSize (natBytes n @ r) (length (natBytes n)) = Inr (of_nat n)"
proof -
  let ?i = "of_nat n :: u64"
  have i: "?i \<noteq> 0" "unat ?i = n" using assms by (simp_all add: of_nat_u64_nz unat_of_nat_u64)
  have p: "natBytes n = putint ?i" using i by (simp add: putint_natBytes)
  have "take_bit (8 * putintSize ?i) ?i = ?i"
  proof -
    have "unat ?i < 2 ^ (8 * putintSize ?i)" using putintSize_bounds [OF i(1)] by (simp add: power_mult)
    then show ?thesis by (simp add: word_unat_eq_iff unsigned_take_bit_eq take_bit_nat_eq_self)
  qed
  then have "foldl (\<lambda>acc x. push_bit 8 acc OR ucast x) 0 (natBytes n) = ?i"
    by (simp add: p putint_def foldl_digits)
  moreover have "(natBytes n @ r) ! 0 \<noteq> 0"
    using hd_natBytes [of n] assms by (cases "natBytes n") auto
  ultimately show ?thesis using assms by (simp add: readSize_def of_nat_u64_less Let_def)
qed

lemma length_natBytes: "56 \<le> n \<Longrightarrow> n < 2 ^ 64 \<Longrightarrow> 1 \<le> length (natBytes n) \<and> length (natBytes n) \<le> 8"
  using length_natBytes_u64 [of "of_nat n"] hd_natBytes [of n]
  by (simp add: unat_of_nat_u64 Suc_le_eq)

lemma tag_sum: "unat t + m < 256 \<Longrightarrow> unat (t + of_nat m :: u8) = unat t + m"
  by (simp add: unat_word_ariths unat_of_nat)

lemma ucast_small: "m < 256 \<Longrightarrow> (ucast (of_nat m :: u8) :: u64) = of_nat m"
  by (simp add: word_unat_eq_iff unsigned_ucast_eq unat_of_nat take_bit_nat_eq_self)

text \<open>The two tag ranges of a header, short and long.\<close>

lemma readKind_short:
  assumes "n < 56" "n \<le> length c" "length c + 1 < 2 ^ 64"
  shows "\<not> (n = 1 \<and> hd c < 128) \<Longrightarrow> readKind ((0x80 + of_nat n) # c) = Inr (String, 1, of_nat n)"
    and "readKind ((0xC0 + of_nat n) # c) = Inr (List, 1, of_nat n)"
proof -
  have t: "unat (0x80 + of_nat n :: u8) = 128 + n" "unat (0xC0 + of_nat n :: u8) = 192 + n"
    using tag_sum [of "0x80" n] tag_sum [of "0xC0" n] assms(1) by simp_all
  have d: "(0x80 + of_nat n - 0x80 :: u8) = of_nat n" "(0xC0 + of_nat n - 0xC0 :: u8) = of_nat n" by simp_all
  have u: "(ucast (of_nat n :: u8) :: u64) = of_nat n" using assms(1) by (intro ucast_small) simp
  have l: "\<not> (of_nat (length c) :: u64) < of_nat n"
    using assms by (simp add: word_less_nat_alt unat_of_nat_u64)
  have one: "(of_nat n :: u64) = 1 \<longleftrightarrow> n = 1"
    using assms(1) by (auto simp: word_unat_eq_iff unat_of_nat)
  show "\<not> (n = 1 \<and> hd c < 128) \<Longrightarrow> readKind ((0x80 + of_nat n) # c) = Inr (String, 1, of_nat n)"
    using t l assms(1) by (cases c) (auto simp: readKind_def word_less_nat_alt d u one Let_def)
  show "readKind ((0xC0 + of_nat n) # c) = Inr (List, 1, of_nat n)"
    using t l assms(1) by (auto simp: readKind_def word_less_nat_alt d u Let_def)
qed

lemma readKind_long:
  assumes "56 \<le> n" "n \<le> length c" "length c < 2 ^ 64"
  defines "b \<equiv> natBytes n"
  shows "readKind ((0xB7 + of_nat (length b)) # b @ c) = Inr (String, of_nat (length b) + 1, of_nat n)"
    and "readKind ((0xF7 + of_nat (length b)) # b @ c) = Inr (List, of_nat (length b) + 1, of_nat n)"
proof -
  let ?m = "length b"
  have m: "b \<noteq> []" "1 \<le> ?m" "?m \<le> 8" using hd_natBytes [of n] length_natBytes [of n] assms by simp_all
  have rs: "readSize (b @ c) ?m = Inr (of_nat n)" unfolding b_def using assms by (intro readSize_natBytes) simp_all
  have t: "unat (0xB7 + of_nat ?m :: u8) = 183 + ?m" "unat (0xF7 + of_nat ?m :: u8) = 247 + ?m"
    using tag_sum [of "0xB7" ?m] tag_sum [of "0xF7" ?m] m by simp_all
  have d: "(0xB7 + of_nat ?m - 0xB7 :: u8) = of_nat ?m" "(0xF7 + of_nat ?m - 0xF7 :: u8) = of_nat ?m" by simp_all
  have u: "(ucast (of_nat ?m :: u8) :: u64) = of_nat ?m" "unat (of_nat ?m :: u8) = ?m"
    using m by (simp_all add: ucast_small unat_of_nat)
  have l: "(of_nat (Suc (?m + length c)) :: u64) - (of_nat ?m + 1) = of_nat (length c)" by simp
  have le: "\<not> (of_nat (length c) :: u64) < of_nat n"
    using assms by (simp add: word_less_nat_alt unat_of_nat_u64)
  show "readKind ((0xB7 + of_nat ?m) # b @ c) = Inr (String, of_nat ?m + 1, of_nat n)"
    using t m rs le by (simp add: readKind_def word_less_nat_alt [of _ "_ :: u8"] d u Let_def)
  show "readKind ((0xF7 + of_nat ?m) # b @ c) = Inr (List, of_nat ?m + 1, of_nat n)"
    using t m rs le by (simp add: readKind_def word_less_nat_alt [of _ "_ :: u8"] d u Let_def)
qed

lemma Split_readKind:
  assumes "readKind (h @ c @ r) = Inr (k, of_nat (length h), of_nat (length c))"
    and "length (h @ c @ r) < 2 ^ 64"
  shows "Split (h @ c @ r) = Inr (k, c, r)"
proof -
  have "unat (of_nat (length h) :: u64) = length h" "unat (of_nat (length c) :: u64) = length c"
    using assms(2) by (simp_all add: unat_of_nat_u64)
  with assms(1) show ?thesis by (simp add: Split_def)
qed

lemma Split_encHead:
  assumes "length (encHead 0x80 0xB7 (length c) @ c @ r) < 2 ^ 64"
  shows "\<not> (length c = 1 \<and> hd c < 128) \<Longrightarrow> Split (encHead 0x80 0xB7 (length c) @ c @ r) = Inr (String, c, r)"
    and "Split (encHead 0xC0 0xF7 (length c) @ c @ r) = Inr (List, c, r)"
proof -
  show "Split (encHead 0x80 0xB7 (length c) @ c @ r) = Inr (String, c, r)" if "\<not> (length c = 1 \<and> hd c < 128)"
  proof (rule Split_readKind [OF _ assms], cases "length c < 56")
    case True
    then show "readKind (encHead 0x80 0xB7 (length c) @ c @ r)
        = Inr (String, of_nat (length (encHead 0x80 0xB7 (length c))), of_nat (length c))"
      using readKind_short(1) [of "length c" "c @ r"] that assms by (cases c) (auto simp: encHead_def)
  next
    case False
    then show "readKind (encHead 0x80 0xB7 (length c) @ c @ r)
        = Inr (String, of_nat (length (encHead 0x80 0xB7 (length c))), of_nat (length c))"
      using readKind_long(1) [of "length c" "c @ r"] assms by (simp add: encHead_def Let_def add.commute)
  qed
  have l: "length (encHead 0xC0 0xF7 (length c) @ c @ r) < 2 ^ 64" using assms by (simp add: encHead_def Let_def split: if_splits)
  show "Split (encHead 0xC0 0xF7 (length c) @ c @ r) = Inr (List, c, r)"
  proof (rule Split_readKind [OF _ l], cases "length c < 56")
    case True
    then show "readKind (encHead 0xC0 0xF7 (length c) @ c @ r)
        = Inr (List, of_nat (length (encHead 0xC0 0xF7 (length c))), of_nat (length c))"
      using readKind_short(2) [of "length c" "c @ r"] assms by (simp add: encHead_def)
  next
    case False
    then show "readKind (encHead 0xC0 0xF7 (length c) @ c @ r)
        = Inr (List, of_nat (length (encHead 0xC0 0xF7 (length c))), of_nat (length c))"
      using readKind_long(2) [of "length c" "c @ r"] assms by (simp add: encHead_def Let_def add.commute)
  qed
qed

lemma Split_encString:
  assumes "length (encString c @ r) < 2 ^ 64"
  shows "Split (encString c @ r) = Inr (if length c = 1 \<and> hd c < 128 then Byte else String, c, r)"
proof (cases "length c = 1 \<and> hd c < 128")
  case True
  then obtain x where x: "c = [x]" "x < 128" by (cases c) auto
  then have "x \<le> 0x7F" by (simp add: word_less_nat_alt word_le_nat_alt)
  moreover from this have "unat (of_nat (Suc (length r)) :: u64) = Suc (length r)"
    using x assms by (intro unat_of_nat_u64) (simp add: encString_def)
  then have "readKind (x # r) = Inr (Byte, 0, 1)"
    using x by (simp add: readKind_def word_less_nat_alt)
  ultimately show ?thesis using x True by (simp add: encString_def Split_def)
next
  case False
  moreover from this have "\<not> (length c = 1 \<and> hd c \<le> 0x7F)"
    by (auto simp: word_less_nat_alt word_le_nat_alt)
  ultimately show ?thesis using Split_encHead(1) [of c r] assms by (auto simp: encString_def)
qed

lemma Split_encList:
  "length (encList c @ r) < 2 ^ 64 \<Longrightarrow> Split (encList c @ r) = Inr (List, c, r)"
  using Split_encHead(2) [of c r] by (simp add: encList_def encHead_def Let_def split: if_splits)

section \<open>The encoding is prefix free\<close>

text \<open>
  The data an encoding carries: a string or a list.  Raw values are left out, since they are
  copied without a check, and so are negative integers, which are refused.
\<close>

datatype rlpItem = Str bytes | Lst "rlpItem list"

fun encItem :: "rlpItem \<Rightarrow> bytes" where
  "encItem (Str b) = encString b"
| "encItem (Lst xs) = encList (concat (map encItem xs))"

fun itemOf :: "rlpValue \<Rightarrow> rlpItem option"
  and itemsOf :: "rlpValue list \<Rightarrow> rlpItem list option" where
  "itemOf (VUint i) = Some (Str (natBytes (unat i)))"
| "itemOf (VBool v) = Some (Str (if v then [1] else []))"
| "itemOf (VBigInt None) = Some (Str [])"
| "itemOf (VBigInt (Some i)) = (if i < 0 then None else Some (Str (natBytes (nat i))))"
| "itemOf (VBytes b) = Some (Str b)"
| "itemOf (VString s) = Some (Str s)"
| "itemOf (VRaw b) = None"
| "itemOf (VList vs) = map_option Lst (itemsOf vs)"
| "itemOf VNilStruct = Some (Lst [])"
| "itemOf VNilByteArray = Some (Str [])"
| "itemOf VNilInterface = Some (Lst [])"
| "itemOf (VTyped t v) = map_option (\<lambda>x. Lst [Str (natBytes (unat t)), x]) (itemOf v)"
| "itemsOf [] = Some []"
| "itemsOf (v # vs) = do { x \<leftarrow> itemOf v; xs \<leftarrow> itemsOf vs; Some (x # xs) }"

definition rlpOK :: "rlpValue \<Rightarrow> bool" where
  "rlpOK v \<longleftrightarrow> (case itemOf v of None \<Rightarrow> False | Some x \<Rightarrow> length (encItem x) < 2 ^ 64)"

lemma encValue_item:
  "itemOf v = Some x \<Longrightarrow> encValue v = Inr (encItem x)"
  "itemsOf vs = Some xs \<Longrightarrow> encElems vs = Inr (concat (map encItem xs))"
  by (induction v and vs arbitrary: x and xs rule: itemOf_itemsOf.induct)
    (auto split: if_splits Option.bind_splits)

lemma Encode_item:
  assumes "rlpOK v" "itemOf v = Some x"
  shows "Encode v = Inr (encItem x)"
  using assms Encode_encValue [of v] by (auto simp: rlpOK_def encValue_item(1))

fun itemKind :: "rlpItem \<Rightarrow> Kind" where
  "itemKind (Str c) = (if length c = 1 \<and> hd c < 128 then Byte else String)"
| "itemKind (Lst xs) = List"

fun itemContent :: "rlpItem \<Rightarrow> bytes" where
  "itemContent (Str c) = c"
| "itemContent (Lst xs) = concat (map encItem xs)"

lemma Split_encItem:
  "length (encItem x @ r) < 2 ^ 64 \<Longrightarrow> Split (encItem x @ r) = Inr (itemKind x, itemContent x, r)"
  by (cases x) (simp_all add: Split_encString Split_encList)

lemma encItem_not_Nil: "encItem x \<noteq> []"
proof (cases x)
  case (Str b)
  then show ?thesis by (cases b) (auto simp: encString_def encHead_def Let_def)
qed (simp add: encList_def encHead_def Let_def)

lemma concat_encItem_inj:
  assumes "\<And>x y r r'. x \<in> set xs \<Longrightarrow> encItem x @ r = encItem y @ r' \<Longrightarrow> length (encItem x @ r) < 2 ^ 64
      \<Longrightarrow> x = y \<and> r = r'"
  shows "concat (map encItem xs) = concat (map encItem ys) \<Longrightarrow> length (concat (map encItem xs)) < 2 ^ 64
    \<Longrightarrow> xs = ys"
  using assms
proof (induction xs arbitrary: ys)
  case Nil
  then show ?case by (cases ys) (auto simp: encItem_not_Nil)
next
  case (Cons x xs)
  then obtain y ys' where y: "ys = y # ys'" by (cases ys) (auto simp: encItem_not_Nil)
  from Cons.prems(1,2) have "x = y \<and> concat (map encItem xs) = concat (map encItem ys')"
    by (intro Cons.prems(3)) (simp_all add: y)
  moreover from this have "xs = ys'"
    using Cons.prems(2) by (intro Cons.IH Cons.prems(3)) simp_all
  ultimately show ?case using y by simp
qed

lemma encItem_inj:
  "encItem x @ r = encItem y @ r' \<Longrightarrow> length (encItem x @ r) < 2 ^ 64 \<Longrightarrow> x = y \<and> r = r'"
proof (induction x arbitrary: y r r')
  case (Str c)
  then have "itemKind (Str c) = itemKind y \<and> itemContent (Str c) = itemContent y \<and> r = r'"
    using Split_encItem [of "Str c" r] Split_encItem [of y r'] by simp
  then show ?case by (cases y) (auto split: if_splits)
next
  case (Lst xs)
  then have s: "List = itemKind y \<and> concat (map encItem xs) = itemContent y \<and> r = r'"
    using Split_encItem [of "Lst xs" r] Split_encItem [of y r'] by simp
  then obtain ys where y: "y = Lst ys" by (cases y) (auto split: if_splits)
  have "length (concat (map encItem xs)) < 2 ^ 64"
    using Lst.prems(2) encList_short [of "concat (map encItem xs)" "2 ^ 64"] by simp
  then have "xs = ys" using Lst.IH s y by (intro concat_encItem_inj) auto
  with s y show ?case by simp
qed

section \<open>Counting values\<close>

lemma tagsize_pos: "0 < unat (ucast (x :: u8) + 1 :: u64)"
proof -
  have "unat x < 2 ^ 8" using unsigned_less [of x, where ?'a = nat] by simp
  then have "unat (ucast x :: u64) = unat x" by (simp add: unsigned_ucast_eq take_bit_nat_eq_self)
  with \<open>unat x < 2 ^ 8\<close> show ?thesis by (simp add: unat_word_ariths)
qed

lemma readKind_progress: "readKind b = Inr (k, ts, cs) \<Longrightarrow> b \<noteq> [] \<and> 0 < unat ts + unat cs"
  unfolding readKind_def Let_def
  by (auto split: if_splits sum.splits prod.splits simp: map_sum_def tagsize_pos)

function CountValues :: "bytes \<Rightarrow> error + nat" where
  "CountValues b =
     (if b = [] then Inr 0
      else (case readKind b of
              Inl e \<Rightarrow> Inl e
            | Inr (k, tagsize, sz) \<Rightarrow> map_sum id Suc (CountValues (drop (unat tagsize + unat sz) b))))"
  by auto
termination
  by (relation "measure length") (auto dest!: readKind_progress)

declare CountValues.simps [simp del]

lemma CountValues_encItem:
  "length (encItem x @ r) < 2 ^ 64 \<Longrightarrow> CountValues (encItem x @ r) = map_sum id Suc (CountValues r)"
  using Split_encItem [of x r]
  by (simp add: CountValues.simps [of "encItem x @ r"] encItem_not_Nil Split_def split: sum.splits prod.splits)

lemma CountValues_items:
  "length (concat (map encItem xs)) < 2 ^ 64 \<Longrightarrow> CountValues (concat (map encItem xs)) = Inr (length xs)"
  by (induction xs) (simp_all add: CountValues.simps [of "[]"] CountValues_encItem)

section \<open>Properties\<close>

lemma length_itemsOf: "itemsOf vs = Some xs \<Longrightarrow> length xs = length vs"
  by (induction vs arbitrary: xs) (auto split: Option.bind_splits)

text \<open>A transaction-like value: a nonce, a recipient, no payload and a flag.\<close>

definition exampleValue :: rlpValue where
  "exampleValue = VList [VUint 1024, VBytes [0xAB, 0xCD], VNilStruct, VBool True]"

lemmas example_eval = exampleValue_def rlpOK_def encList_def encString_def encHead_def
  natBytes.simps Let_def word_le_nat_alt

text \<open>C26. The encoder writes list headers and string data into separate buffers and merges them
  when it flushes.  For every value whose encoding is shorter than \<open>2 ^ 64\<close> bytes, the bytes that
  \<open>Encode\<close> writes and the slice that \<open>EncodeToBytes\<close> returns are the recursive encoding of the
  format, and an error is returned exactly when the format has none (a negative integer).\<close>

theorem Encode_format:
  assumes "\<forall>b. encValue v = Inr b \<longrightarrow> length b < 2 ^ 64"
  shows "Encode v = encValue v \<and> EncodeToBytes v = encValue v"
  using assms by (rule Encode_encValue)

theorem Encode_format_witness:
  "Encode exampleValue = Inr [0xC8, 0x82, 4, 0, 0x82, 0xAB, 0xCD, 0xC0, 1]"
proof -
  have e: "encValue exampleValue = Inr [0xC8, 0x82, 4, 0, 0x82, 0xAB, 0xCD, 0xC0, 1]"
    by (simp add: example_eval)
  then have "\<forall>b. encValue exampleValue = Inr b \<longrightarrow> length b < 2 ^ 64" by simp
  from Encode_format [OF this] e show ?thesis by simp
qed

text \<open>C27. Splitting undoes encoding: the first value of a buffer that starts with the encoding of a
  value is that value's kind and content, and what is left is the rest of the buffer.\<close>

theorem Split_Encode:
  assumes "rlpOK v" "itemOf v = Some x" "length (encItem x @ r) < 2 ^ 64"
  shows "\<exists>b. Encode v = Inr b \<and> Split (b @ r) = Inr (itemKind x, itemContent x, r)"
  using Encode_item [OF assms(1,2)] Split_encItem [OF assms(3)] by simp

theorem Split_Encode_witness:
  "\<exists>b. Encode (VBytes [0xAB, 0xCD]) = Inr b \<and> Split (b @ [7]) = Inr (String, [0xAB, 0xCD], [7])"
  using Split_Encode [of "VBytes [0xAB, 0xCD]" "Str [0xAB, 0xCD]" "[7]"] by (simp add: example_eval)

text \<open>C28. Two encodable values with the same encoding carry the same data, so that a signature or a
  hash over the encoding is one over the data.\<close>

theorem Encode_injective:
  assumes "rlpOK u" "rlpOK v" "Encode u = Encode v"
  shows "itemOf u = itemOf v"
proof -
  from assms(1,2) obtain x y where x: "itemOf u = Some x" "length (encItem x) < 2 ^ 64"
    and y: "itemOf v = Some y" by (auto simp: rlpOK_def split: option.splits)
  then have "encItem x = encItem y" using assms Encode_item by simp
  then show ?thesis using encItem_inj [of x "[]" y "[]"] x y by simp
qed

theorem Encode_injective_witness:
  "Encode (VUint 5) = Encode (VBytes [5]) \<and> itemOf (VUint 5) = itemOf (VBytes [5])"
proof -
  have ok: "rlpOK (VUint 5)" "rlpOK (VBytes [5])" by (simp_all add: example_eval)
  have "Encode (VUint 5) = Encode (VBytes [5])"
    by (simp add: Encode_def writeUint_def encodeString_def)
  with Encode_injective [OF ok] show ?thesis by blast
qed

text \<open>The encoding of a slice or struct splits as a list with nothing left over, its content is
  the encodings of the elements, and counting the values of the content gives their number.\<close>

lemma CountValues_Encode:
  assumes "rlpOK (VList vs)"
  shows "\<exists>b c. Encode (VList vs) = Inr b \<and> SplitList b = Inr (c, [])
     \<and> encElems vs = Inr c \<and> CountValues c = Inr (length vs)"
proof -
  from assms obtain xs where xs: "itemsOf vs = Some xs" "length (encItem (Lst xs)) < 2 ^ 64"
    by (auto simp: rlpOK_def split: option.splits)
  let ?c = "concat (map encItem xs)"
  have "Encode (VList vs) = Inr (encItem (Lst xs))" using assms xs(1) by (intro Encode_item) simp_all
  moreover have "SplitList (encItem (Lst xs)) = Inr (?c, [])"
    using Split_encItem [of "Lst xs" "[]"] xs(2) by (simp add: SplitList_def)
  moreover have "CountValues ?c = Inr (length vs)"
    using CountValues_items [of xs] xs encList_short [of ?c "2 ^ 64"] by (simp add: length_itemsOf)
  ultimately show ?thesis using encValue_item(2) [OF xs(1)] by blast
qed

end
