(* ===== verification/ChainTypes.thy ===== *)
theory ChainTypes
  imports McTypes Rlp
begin

text \<open>
  The chain data the consensus services read: block headers and the hashes computed over them
  (\<open>core/types/header.go\<close>, \<open>core/types/block.go\<close>), version numbers
  (\<open>params/manversion/version.go\<close>), signatures that carry a vote
  (\<open>crypto/signature_cgo.go\<close>), and the sign helper (\<open>accounts/signhelper\<close>).  The elliptic curve
  and Keccak-256 are parameters, the record \<open>Crypto\<close>; the key store and the readers of account
  delegations are parameters too.
\<close>

section \<open>Versions\<close>

definition VersionAlpha :: bytes where "VersionAlpha = stringBytes ''1.0.0.0''"
definition VersionBeta :: bytes where "VersionBeta = stringBytes ''1.0.0.1''"
definition VersionGamma :: bytes where "VersionGamma = stringBytes ''1.0.0.2''"
definition VersionDelta :: bytes where "VersionDelta = stringBytes ''1.0.0.3''"
definition VersionAIMine :: bytes where "VersionAIMine = stringBytes ''1.0.0.4''"

text \<open>Strings are compared byte by byte, in the order of the list type.\<close>

definition VersionCmp :: "bytes \<Rightarrow> bytes \<Rightarrow> int" where
  "VersionCmp version1 version2 =
     (if version1 = version2 then 0 else if version1 > version2 then 1 else -1)"

definition VersionList :: "bytes list" where
  "VersionList = [VersionAlpha, VersionBeta, VersionGamma, VersionDelta, VersionAIMine]"

definition IsCorrectVersion :: "bytes \<Rightarrow> bool" where
  "IsCorrectVersion version \<longleftrightarrow> length version \<noteq> 0 \<and> (\<exists>item \<in> set VersionList. version = item)"

section \<open>Headers\<close>

record CoinRoot =
  cr_Cointyp :: bytes
  cr_Root :: hash
  cr_TxHash :: hash
  cr_ReceiptHash :: hash
  cr_Bloom :: "2048 word"

record Coinbyte =
  cb_Root :: hash
  cb_Byte256 :: "hash list"

text \<open>\<open>Difficulty\<close>, \<open>Number\<close> and \<open>Time\<close> are pointers to big integers that every decoder sets.\<close>

record Header =
  h_ParentHash :: hash
  h_UncleHash :: hash
  h_Leader :: address
  h_Coinbase :: address
  h_Roots :: "CoinRoot list"
  h_Sharding :: "Coinbyte list"
  h_Difficulty :: int
  h_Number :: int
  h_GasLimit :: u64
  h_GasUsed :: u64
  h_Time :: int
  h_Elect :: "Elect list"
  h_NetTopology :: NetTopology
  h_Signatures :: "signature list"
  h_AIHash :: hash
  h_Extra :: bytes
  h_MixDigest :: hash
  h_Nonce :: u64
  h_Version :: bytes
  h_VersionSignatures :: "signature list"
  h_VrfValue :: bytes

text \<open>\<open>big.Int.Uint64\<close>: the low 64 bits.\<close>

definition Uint64 :: "int \<Rightarrow> u64" where
  "Uint64 n = of_int n"

definition IsSuperHeader :: "Header \<Rightarrow> bool" where
  "IsSuperHeader h \<longleftrightarrow> h_Leader h = 0x8111111111111111111111111111111111111111"

definition SuperBlockSeq :: "Header \<Rightarrow> u64" where
  "SuperBlockSeq h =
     (if Uint64 (h_Number h) = 0 then 0
      else if length (h_Extra h) < 8 then 0
      else bytesToWord (take 8 (h_Extra h)) 0)"

section \<open>Header hashes\<close>

text \<open>The bytes of an array, as the encoder sees them.\<close>

definition wordBytes :: "nat \<Rightarrow> 'a :: len word \<Rightarrow> bytes" where
  "wordBytes n w = map (\<lambda>j. ucast (drop_bit (8 * j) w)) (rev [0..<n])"

abbreviation VHash :: "hash \<Rightarrow> rlpValue" where "VHash w \<equiv> VBytes (wordBytes 32 w)"
abbreviation VAddr :: "address \<Rightarrow> rlpValue" where "VAddr w \<equiv> VBytes (wordBytes 20 w)"

definition VSign :: "signature \<Rightarrow> rlpValue" where
  "VSign s = VBytes (wordBytes 64 (fst s) @ [snd s])"

definition VCoinRoot :: "CoinRoot \<Rightarrow> rlpValue" where
  "VCoinRoot c = VList [VString (cr_Cointyp c), VHash (cr_Root c), VHash (cr_TxHash c),
                        VHash (cr_ReceiptHash c), VBytes (wordBytes 256 (cr_Bloom c))]"

definition VCoinbyte :: "Coinbyte \<Rightarrow> rlpValue" where
  "VCoinbyte c = VList [VHash (cb_Root c), VList (map VHash (cb_Byte256 c))]"

definition VElect :: "Elect \<Rightarrow> rlpValue" where
  "VElect e = VList [VAddr (el_Account e), VUint (ucast (el_Stock e)), VUint (ucast (el_Type e)),
                     VUint (ucast (el_VIP e))]"

definition VNetTopology :: "NetTopology \<Rightarrow> rlpValue" where
  "VNetTopology t =
     VList [VUint (ucast (nt_Type t)),
            VList (map (\<lambda>d. VList [VAddr (td_Account d), VUint (ucast (td_Position d))])
                     (nt_Data t))]"

abbreviation VBig :: "int \<Rightarrow> rlpValue" where "VBig i \<equiv> VBigInt (Some i)"
abbreviation VSigns :: "signature list \<Rightarrow> rlpValue" where "VSigns s \<equiv> VList (map VSign s)"

definition isAIMine :: "Header \<Rightarrow> bool" where
  "isAIMine h \<longleftrightarrow> VersionCmp (h_Version h) VersionAIMine \<ge> 0"

definition noNonceFields :: "Header \<Rightarrow> rlpValue list" where
  "noNonceFields h =
     [VHash (h_ParentHash h), VHash (h_UncleHash h), VAddr (h_Leader h),
      VList (map VCoinRoot (h_Roots h)), VList (map VCoinbyte (h_Sharding h)), VBig (h_Difficulty h),
      VBig (h_Number h), VUint (h_GasLimit h), VUint (h_GasUsed h), VBig (h_Time h),
      VList (map VElect (h_Elect h)), VNetTopology (h_NetTopology h), VSigns (h_Signatures h),
      VBytes (h_Extra h), VBytes (h_Version h), VSigns (h_VersionSignatures h)]
     @ (if isAIMine h then [VBytes (h_VrfValue h)] else [])"

definition noSignsFields :: "Header \<Rightarrow> rlpValue list" where
  "noSignsFields h =
     [VHash (h_ParentHash h), VHash (h_UncleHash h), VAddr (h_Leader h), VAddr (h_Coinbase h),
      VList (map VCoinRoot (h_Roots h)), VList (map VCoinbyte (h_Sharding h)), VBig (h_Difficulty h),
      VBig (h_Number h), VUint (h_GasLimit h), VUint (h_GasUsed h), VBig (h_Time h),
      VList (map VElect (h_Elect h)), VNetTopology (h_NetTopology h),
      VBytes (h_Extra h), VHash (h_MixDigest h), VBytes (wordBytes 8 (h_Nonce h)),
      VBytes (h_Version h), VSigns (h_VersionSignatures h)]
     @ (if isAIMine h then [VBytes (h_VrfValue h), VHash (h_AIHash h)] else [])"

definition noSignsAndNonceFields :: "Header \<Rightarrow> rlpValue list" where
  "noSignsAndNonceFields h =
     [VHash (h_ParentHash h), VHash (h_UncleHash h), VAddr (h_Leader h),
      VList (map VCoinRoot (h_Roots h)), VList (map VCoinbyte (h_Sharding h)), VBig (h_Difficulty h),
      VBig (h_Number h), VUint (h_GasLimit h), VUint (h_GasUsed h), VBig (h_Time h),
      VList (map VElect (h_Elect h)), VNetTopology (h_NetTopology h),
      VBytes (h_Extra h), VBytes (h_Version h), VSigns (h_VersionSignatures h)]
     @ (if isAIMine h then [VBytes (h_VrfValue h)] else [])"

text \<open>\<open>Header.EncodeRLP\<close>: from the AI-mine version on the header with \<open>AIHash\<close>, before that \<open>OldHeader\<close>.\<close>

definition headerFields :: "Header \<Rightarrow> rlpValue list" where
  "headerFields h =
     [VHash (h_ParentHash h), VHash (h_UncleHash h), VAddr (h_Leader h), VAddr (h_Coinbase h),
      VList (map VCoinRoot (h_Roots h)), VList (map VCoinbyte (h_Sharding h)), VBig (h_Difficulty h),
      VBig (h_Number h), VUint (h_GasLimit h), VUint (h_GasUsed h), VBig (h_Time h),
      VList (map VElect (h_Elect h)), VNetTopology (h_NetTopology h), VSigns (h_Signatures h)]
     @ (if isAIMine h then [VHash (h_AIHash h)] else [])
     @ [VBytes (h_Extra h), VHash (h_MixDigest h), VBytes (wordBytes 8 (h_Nonce h)),
        VBytes (h_Version h), VSigns (h_VersionSignatures h), VBytes (h_VrfValue h)]"

text \<open>The curve and the hash function.  \<open>cr_Sign\<close> takes the secret key as 32 bytes.\<close>

record Crypto =
  cr_Keccak256 :: "bytes \<Rightarrow> hash"
  cr_Ecrecover :: "hash \<Rightarrow> signature \<Rightarrow> error + bytes"
  cr_Sign :: "hash \<Rightarrow> hash \<Rightarrow> error + signature"

text \<open>\<open>rlpHash\<close> drops the error of \<open>Encode\<close>, which then has written nothing.\<close>

definition rlpHash :: "Crypto \<Rightarrow> rlpValue \<Rightarrow> hash" where
  "rlpHash cr v = cr_Keccak256 cr (case Encode v of Inl e \<Rightarrow> [] | Inr b \<Rightarrow> b)"

definition Hash :: "Crypto \<Rightarrow> Header \<Rightarrow> hash" where
  "Hash cr h = rlpHash cr (VList (headerFields h))"

definition HashNoNonce :: "Crypto \<Rightarrow> Header \<Rightarrow> hash" where
  "HashNoNonce cr h = rlpHash cr (VList (noNonceFields h))"

definition HashNoSigns :: "Crypto \<Rightarrow> Header \<Rightarrow> hash" where
  "HashNoSigns cr h = rlpHash cr (VList (noSignsFields h))"

definition HashNoSignsAndNonce :: "Crypto \<Rightarrow> Header \<Rightarrow> hash" where
  "HashNoSignsAndNonce cr h = rlpHash cr (VList (noSignsAndNonceFields h))"

section \<open>Signatures that carry a vote\<close>

text \<open>
  A vote is a signature: an approval signs the hash, a rejection signs the hash plus one and adds
  two to the recovery byte.  The result is the address, the vote and the error, and both values
  are returned with the error.
\<close>

definition SignWithValidate :: "Crypto \<Rightarrow> hash \<Rightarrow> bool \<Rightarrow> hash \<Rightarrow> error + signature" where
  "SignWithValidate cr h validate seckey =
     (let h' = (if validate then h else h + 1)
      in case cr_Sign cr h' seckey of
           Inl e \<Rightarrow> Inl e
         | Inr (rs, v) \<Rightarrow> Inr (rs, if validate then v else v + 2))"

definition VerifySignWithValidate :: "Crypto \<Rightarrow> hash \<Rightarrow> signature \<Rightarrow> address \<times> bool \<times> error option" where
  "VerifySignWithValidate cr sighash sig =
     (let validate = snd sig < 2;
          sig' = (if validate then sig else (fst sig, snd sig - 2));
          h = (if validate then sighash else sighash + 1)
      in case cr_Ecrecover cr h sig' of
           Inl e \<Rightarrow> (0, validate, Some e)
         | Inr pub \<Rightarrow>
             (if length pub = 0 \<or> pub ! 0 \<noteq> 4 then (0, validate, Some (Errorf ''invalid public key''))
              else (ucast (cr_Keccak256 cr (tl pub)), validate, None)))"

record VerifiedSign =
  vs_Sign :: signature
  vs_Account :: address
  vs_Validate :: bool
  vs_Stock :: u16

fun SignAccountsLoop :: "Crypto \<Rightarrow> hash \<Rightarrow> signature list \<Rightarrow> VerifiedSign list" where
  "SignAccountsLoop cr h [] = []"
| "SignAccountsLoop cr h (sign # signs) =
     (case VerifySignWithValidate cr h sign of
        (signAccount, validate, err) \<Rightarrow>
          (if err \<noteq> None \<or> \<not> validate then []
           else [\<lparr>vs_Sign = sign, vs_Account = signAccount, vs_Validate = validate, vs_Stock = 0\<rparr>]))
     @ SignAccountsLoop cr h signs"

definition SignAccounts :: "Crypto \<Rightarrow> Header \<Rightarrow> VerifiedSign list" where
  "SignAccounts cr h = SignAccountsLoop cr (HashNoSignsAndNonce cr h) (h_Signatures h)"

section \<open>The sign helper\<close>

record AuthReader =
  ar_GetSignAccountPassword :: "address list \<Rightarrow> error + (address \<times> string)"
  ar_GetA2AccountsFromA0Account :: "address \<Rightarrow> hash \<Rightarrow> error + address list"
  ar_GetA0AccountFromAnyAccount :: "address \<Rightarrow> hash \<Rightarrow> error + (address \<times> address)"
  ar_GetA2AccountsFromA0AccountAtSignHeight :: "address \<Rightarrow> hash \<Rightarrow> u64 \<Rightarrow> error + address list"
  ar_GetA0AccountFromAnyAccountAtSignHeight :: "address \<Rightarrow> hash \<Rightarrow> u64 \<Rightarrow> error + (address \<times> address)"

text \<open>
  The key store signs with an account and its password; \<open>depositAddress\<close> and \<open>signAddress\<close> are
  what package \<open>ca\<close> returns for this node.
\<close>

record SignHelper =
  sh_keyStore :: "(address \<Rightarrow> string \<Rightarrow> hash \<Rightarrow> bool \<Rightarrow> error + signature) option"
  sh_depositAddress :: address
  sh_signAddress :: address

definition getSignAccountAndPassword ::
  "SignHelper \<Rightarrow> AuthReader \<Rightarrow> hash \<Rightarrow> error + (address \<times> string)" where
  "getSignAccountAndPassword sh reader blkHash =
     (case ar_GetA2AccountsFromA0Account reader (sh_depositAddress sh) blkHash of
        Inl e \<Rightarrow> Inl e
      | Inr addrs \<Rightarrow> ar_GetSignAccountPassword reader addrs)"

definition getSignAccountAndPasswordAtSignHeight ::
  "SignHelper \<Rightarrow> AuthReader \<Rightarrow> hash \<Rightarrow> u64 \<Rightarrow> bool \<Rightarrow> error + (address \<times> string)" where
  "getSignAccountAndPasswordAtSignHeight sh reader blkHash signHeight usingEntrust =
     (case (if usingEntrust
            then ar_GetA2AccountsFromA0AccountAtSignHeight reader (sh_depositAddress sh) blkHash signHeight
            else Inr [sh_signAddress sh]) of
        Inl e \<Rightarrow> Inl e
      | Inr addrs \<Rightarrow> ar_GetSignAccountPassword reader addrs)"

definition SignHashWithValidateByReader ::
  "SignHelper \<Rightarrow> AuthReader \<Rightarrow> hash \<Rightarrow> bool \<Rightarrow> hash \<Rightarrow> error + signature" where
  "SignHashWithValidateByReader sh reader h validate blkHash =
     (case getSignAccountAndPassword sh reader blkHash of
        Inl e \<Rightarrow> Inl ErrGetAccountAndPassword
      | Inr (signAccount, signPassword) \<Rightarrow>
          (if signAccount = 0 then Inl ErrIllegalSignAccount
           else (case sh_keyStore sh of
                   None \<Rightarrow> Inl ErrNilKeyStore
                 | Some sign \<Rightarrow> sign signAccount signPassword h validate)))"

definition SignHashWithValidateByAccount ::
  "SignHelper \<Rightarrow> AuthReader \<Rightarrow> hash \<Rightarrow> bool \<Rightarrow> address \<Rightarrow> error + signature" where
  "SignHashWithValidateByAccount sh reader h validate account =
     (case ar_GetSignAccountPassword reader [account] of
        Inl e \<Rightarrow> Inl (Errorf ''get sign account password err!'')
      | Inr (signAccount, password) \<Rightarrow>
          (case sh_keyStore sh of
             None \<Rightarrow> Inl ErrNilKeyStore
           | Some sign \<Rightarrow> sign signAccount password h validate))"

text \<open>The error of the signature check is overwritten by that of the reader.\<close>

definition VerifySignWithValidateByReader ::
  "Crypto \<Rightarrow> AuthReader option \<Rightarrow> hash \<Rightarrow> signature \<Rightarrow> hash \<Rightarrow> error + (address \<times> address \<times> bool)" where
  "VerifySignWithValidateByReader cr reader signHash sig blkHash =
     (case reader of
        None \<Rightarrow> Inl ErrReader
      | Some rd \<Rightarrow>
          (case VerifySignWithValidate cr signHash sig of
             (addr, flag, err) \<Rightarrow>
               (case ar_GetA0AccountFromAnyAccount rd addr blkHash of
                  Inl e \<Rightarrow> Inl e
                | Inr (accountA0, accountA1) \<Rightarrow> Inr (accountA0, accountA1, flag))))"

section \<open>A vote survives the round trip\<close>

text \<open>
  What the documentation of the curve promises: the recovery byte of a signature is 0 or 1, and
  recovering from the signed hash gives the uncompressed public key of the secret key.
\<close>

definition signRecovers :: "Crypto \<Rightarrow> hash \<Rightarrow> bytes \<Rightarrow> bool" where
  "signRecovers cr seckey pub \<longleftrightarrow>
     (\<forall>h rs v. cr_Sign cr h seckey = Inr (rs, v) \<longrightarrow> v < 2 \<and> cr_Ecrecover cr h (rs, v) = Inr pub)
     \<and> pub \<noteq> [] \<and> hd pub = 4"

text \<open>C30. A vote, once signed, is read back as the vote of the signer: verifying the signature that
  \<open>SignWithValidate\<close> makes gives the address of the signer's public key, the vote that was signed
  (approval or rejection) and no error.\<close>

theorem VerifySign_SignWithValidate:
  assumes "signRecovers cr seckey pub" "SignWithValidate cr h validate seckey = Inr sig"
  shows "VerifySignWithValidate cr h sig = (ucast (cr_Keccak256 cr (tl pub)), validate, None)"
proof -
  from assms(2) obtain rs v where s: "cr_Sign cr (if validate then h else h + 1) seckey = Inr (rs, v)"
    "sig = (rs, if validate then v else v + 2)"
    by (auto simp: SignWithValidate_def Let_def split: sum.splits if_splits)
  have v: "v < 2" "cr_Ecrecover cr (if validate then h else h + 1) (rs, v) = Inr pub"
    and p: "pub \<noteq> []" "pub ! 0 = 4"
    using assms(1) s(1) by (auto simp: signRecovers_def hd_conv_nth)
  then have "unat v < 2" by (simp add: word_less_nat_alt)
  then have "unat (v + 2) = unat v + 2" by (simp add: unat_word_ariths)
  then have "\<not> v + 2 < 2" by (simp add: word_less_nat_alt)
  then show ?thesis using s(2) v p by (auto simp: VerifySignWithValidate_def Let_def)
qed

definition exampleCrypto :: Crypto where
  "exampleCrypto =
     \<lparr>cr_Keccak256 = (\<lambda>b. bytesToWord b 0),
      cr_Ecrecover = (\<lambda>h (rs, v). if v < 2 then Inr [4, ucast rs] else Inl (Errorf ''recovery id'')),
      cr_Sign = (\<lambda>h k. Inr (ucast k, 1))\<rparr>"

theorem VerifySign_SignWithValidate_witness:
  "SignWithValidate exampleCrypto 77 False 9 = Inr (9, 3)
   \<and> VerifySignWithValidate exampleCrypto 77 (9, 3) = (9, False, None)"
proof -
  have r: "signRecovers exampleCrypto 9 [4, 9]"
    by (simp add: signRecovers_def exampleCrypto_def word_less_nat_alt)
  have s: "SignWithValidate exampleCrypto 77 False 9 = Inr (9, 3)"
    by (simp add: SignWithValidate_def exampleCrypto_def)
  from VerifySign_SignWithValidate [OF r s] s show ?thesis by (simp add: exampleCrypto_def)
qed

section \<open>What a header signature covers\<close>

lemma natBytes_inj: "natBytes m = natBytes n \<Longrightarrow> m = n"
proof (induction m arbitrary: n rule: natBytes.induct)
  case (1 m)
  show ?case
  proof (cases "m = 0 \<or> n = 0")
    case True
    then show ?thesis using "1.prems" hd_natBytes [of n] hd_natBytes [of m]
      by (cases "m = 0"; cases "n = 0") auto
  next
    case False
    then have "natBytes (m div 256) = natBytes (n div 256)" "(of_nat (m mod 256) :: u8) = of_nat (n mod 256)"
      using "1.prems" by (simp_all add: natBytes_pos)
    then have "m div 256 = n div 256" "m mod 256 = n mod 256"
      using "1.IH" False by (auto simp: word_unat_eq_iff unat_of_nat)
    then show ?thesis by (metis div_mult_mod_eq)
  qed
qed

lemma wordBytes_inj:
  fixes v w :: "'a :: len word"
  assumes "LENGTH('a) \<le> 8 * n" "wordBytes n v = wordBytes n w"
  shows "v = w"
proof (rule bit_word_eqI)
  fix k assume k: "k < LENGTH('a)"
  then have "k div 8 < n" using assms(1) by (simp add: div_less_iff_less_mult mult.commute)
  then have "(ucast (drop_bit (8 * (k div 8)) v) :: u8) = ucast (drop_bit (8 * (k div 8)) w)"
    using assms(2) by (simp add: wordBytes_def)
  then have "bit (ucast (drop_bit (8 * (k div 8)) v) :: u8) (k mod 8)
      = bit (ucast (drop_bit (8 * (k div 8)) w) :: u8) (k mod 8)" by simp
  then show "bit v k = bit w k" by (simp add: bit_simps)
qed

lemma bytesToWord_wordBytes_acc: "bytesToWord (wordBytes n w) acc = acc * 256 ^ n + take_bit (8 * n) (w :: 'a :: len word)"
proof (induction n arbitrary: acc)
  case 0
  then show ?case by (simp add: wordBytes_def)
next
  case (Suc n)
  have w: "wordBytes (Suc n) w = ucast (drop_bit (8 * n) w) # wordBytes n w" by (simp add: wordBytes_def)
  have b: "(ucast (ucast (drop_bit (8 * n) w) :: u8) :: 'a word) = take_bit 8 (drop_bit (8 * n) w)"
    by (rule bit_word_eqI) (auto simp: bit_simps)
  have "take_bit (8 * n + 8) w
      = push_bit (8 * n) (drop_bit (8 * n) (take_bit (8 * n + 8) w)) + take_bit (8 * n) (take_bit (8 * n + 8) w)"
    by (simp only: bits_ident)
  then have "take_bit (8 * Suc n) w = take_bit 8 (drop_bit (8 * n) w) * 256 ^ n + take_bit (8 * n) w"
    using power_mult [of "2 :: 'a word" 8 n] by (simp add: drop_bit_take_bit push_bit_eq_mult mult.commute add.commute)
  then show ?case unfolding w bytesToWord.simps Suc.IH b by (simp add: algebra_simps)
qed

lemma bytesToWord_wordBytes:
  "bytesToWord (wordBytes 32 h) 0 = (h :: hash)" "bytesToWord (wordBytes 20 a) 0 = (a :: address)"
  by (simp_all add: bytesToWord_wordBytes_acc take_bit_word_eq_self)

lemma unat_ucast_u64:
  assumes "LENGTH('a :: len) \<le> 64"
  shows "unat (ucast (x :: 'a word) :: u64) = unat x"
proof -
  have "unat x < 2 ^ LENGTH('a)" using unsigned_less [of x, where ?'a = nat] by simp
  also have "\<dots> \<le> 2 ^ 64" using assms by (intro power_increasing) simp_all
  finally show ?thesis by (simp add: unsigned_ucast_eq take_bit_nat_eq_self)
qed

lemma itemsOf_Cons_eq:
  "itemOf v \<noteq> None \<Longrightarrow> itemsOf vs \<noteq> None \<Longrightarrow> itemsOf (v # vs) = itemsOf (v' # vs')
   \<longleftrightarrow> itemOf v = itemOf v' \<and> itemsOf vs = itemsOf vs'"
  by (cases "itemOf v'"; cases "itemsOf vs'") auto

lemma itemsOf_not_None: "itemsOf vs \<noteq> None \<longleftrightarrow> (\<forall>v \<in> set vs. itemOf v \<noteq> None)"
  by (induction vs) (auto split: Option.bind_splits)

lemma itemsOf_map_inj:
  assumes "\<And>x. itemOf (f x) \<noteq> None" "\<And>x y. itemOf (f x) = itemOf (f y) \<Longrightarrow> x = y"
  shows "itemsOf (map f xs) = itemsOf (map f ys) \<longleftrightarrow> xs = ys"
proof (induction xs arbitrary: ys)
  case Nil
  show ?case by (cases ys) (auto split: Option.bind_splits)
next
  case (Cons x xs)
  have n: "itemsOf (map f zs) \<noteq> None" for zs using assms(1) by (simp only: itemsOf_not_None) simp
  show ?case
  proof (cases ys)
    case Nil
    then show ?thesis by (auto split: Option.bind_splits)
  next
    case (Cons y ys')
    have "itemsOf (map f (x # xs)) = itemsOf (map f (y # ys'))
        \<longleftrightarrow> itemOf (f x) = itemOf (f y) \<and> itemsOf (map f xs) = itemsOf (map f ys')"
      unfolding list.map by (rule itemsOf_Cons_eq [OF assms(1) n])
    then show ?thesis using Cons.IH assms(2) \<open>ys = y # ys'\<close> by auto
  qed
qed

lemma itemsOf_all2:
  "itemsOf vs = Some xs \<Longrightarrow> itemsOf vs' = Some xs
   \<Longrightarrow> list_all2 (\<lambda>v v'. itemOf v = itemOf v' \<and> itemOf v \<noteq> None) vs vs'"
proof (induction vs arbitrary: vs' xs)
  case Nil
  then show ?case by (cases vs') (auto split: Option.bind_splits)
next
  case (Cons v vs)
  then show ?case by (cases vs') (auto split: Option.bind_splits)
qed

lemma wordBytes_eq [simp]:
  "wordBytes 32 (h :: hash) = wordBytes 32 h' \<longleftrightarrow> h = h'"
  "wordBytes 20 (a :: address) = wordBytes 20 a' \<longleftrightarrow> a = a'"
  "wordBytes 8 (n :: u64) = wordBytes 8 n' \<longleftrightarrow> n = n'"
  "wordBytes 64 (r :: 512 word) = wordBytes 64 r' \<longleftrightarrow> r = r'"
  "wordBytes 256 (b :: 2048 word) = wordBytes 256 b' \<longleftrightarrow> b = b'"
  by (auto intro: wordBytes_inj [rotated])

lemma natBytes_eq [simp]: "natBytes m = natBytes n \<longleftrightarrow> m = n"
  by (auto dest: natBytes_inj)

lemma VSign_inj: "itemOf (VSign s) = itemOf (VSign s') \<longleftrightarrow> s = s'"
  by (auto simp: VSign_def prod_eq_iff)

lemma VHashes_inj: "itemsOf (map (\<lambda>w. VHash w) xs) = itemsOf (map (\<lambda>w. VHash w) ys) \<longleftrightarrow> xs = ys"
  by (rule itemsOf_map_inj) simp_all

lemma VCoinRoot_inj: "itemOf (VCoinRoot c) = itemOf (VCoinRoot c') \<longleftrightarrow> c = c'"
  by (cases c; cases c') (auto simp: VCoinRoot_def)

lemma VElect_inj: "itemOf (VElect e) = itemOf (VElect e') \<longleftrightarrow> e = e'"
  by (cases e; cases e') (auto simp: VElect_def unat_ucast_u64 simp flip: word_unat_eq_iff)

lemma itemOf_VList_eq: "itemOf (VList vs) = itemOf (VList vs') \<longleftrightarrow> itemsOf vs = itemsOf vs'"
  by (cases "itemsOf vs"; cases "itemsOf vs'") auto

lemma VHashes_Some: "itemsOf (map (\<lambda>w. VHash w) xs) \<noteq> None"
  by (simp only: itemsOf_not_None) simp

lemma VCoinbyte_inj: "itemOf (VCoinbyte b) = itemOf (VCoinbyte b') \<longleftrightarrow> b = b'"
  using VHashes_inj [of "cb_Byte256 b" "cb_Byte256 b'"] VHashes_Some [of "cb_Byte256 b"] VHashes_Some [of "cb_Byte256 b'"]
  by (cases b; cases b') (auto simp: VCoinbyte_def)

lemma VNode_inj:
  fixes xs ys :: "NetTopologyData list"
  shows "itemsOf (map (\<lambda>d. VList [VAddr (td_Account d), VUint (ucast (td_Position d))]) xs)
   = itemsOf (map (\<lambda>d. VList [VAddr (td_Account d), VUint (ucast (td_Position d))]) ys) \<longleftrightarrow> xs = ys"
proof (rule itemsOf_map_inj)
  fix d e :: NetTopologyData
  assume "itemOf (VList [VAddr (td_Account d), VUint (ucast (td_Position d))])
    = itemOf (VList [VAddr (td_Account e), VUint (ucast (td_Position e))])"
  then show "d = e" by (cases d; cases e) (auto simp: unat_ucast_u64 simp flip: word_unat_eq_iff)
qed simp

lemma VNode_Some:
  fixes xs :: "NetTopologyData list"
  shows "itemsOf (map (\<lambda>d. VList [VAddr (td_Account d), VUint (ucast (td_Position d))]) xs) \<noteq> None"
  by (simp only: itemsOf_not_None) simp

lemma VNetTopology_inj: "itemOf (VNetTopology t) = itemOf (VNetTopology t') \<longleftrightarrow> t = t'"
  using VNode_inj [of "nt_Data t" "nt_Data t'"] VNode_Some [of "nt_Data t"] VNode_Some [of "nt_Data t'"]
  by (cases t; cases t') (auto simp: VNetTopology_def unat_ucast_u64 simp flip: word_unat_eq_iff)

lemma VLists_inj:
  "itemsOf (map VSign xs) = itemsOf (map VSign ys) \<longleftrightarrow> xs = ys"
  "itemsOf (map VCoinRoot cs) = itemsOf (map VCoinRoot ds) \<longleftrightarrow> cs = ds"
  "itemsOf (map VElect es) = itemsOf (map VElect fs) \<longleftrightarrow> es = fs"
  "itemsOf (map VCoinbyte bs) = itemsOf (map VCoinbyte gs) \<longleftrightarrow> bs = gs"
proof -
  have "itemOf (VCoinbyte b) \<noteq> None" for b
    using VHashes_Some [of "cb_Byte256 b"] by (auto simp: VCoinbyte_def)
  then show "itemsOf (map VCoinbyte bs) = itemsOf (map VCoinbyte gs) \<longleftrightarrow> bs = gs"
    by (rule itemsOf_map_inj) (simp add: VCoinbyte_inj)
  show "itemsOf (map VSign xs) = itemsOf (map VSign ys) \<longleftrightarrow> xs = ys"
    by (rule itemsOf_map_inj) (simp add: VSign_def, simp add: VSign_inj)
  show "itemsOf (map VCoinRoot cs) = itemsOf (map VCoinRoot ds) \<longleftrightarrow> cs = ds"
    by (rule itemsOf_map_inj) (simp add: VCoinRoot_def, simp add: VCoinRoot_inj)
  show "itemsOf (map VElect es) = itemsOf (map VElect fs) \<longleftrightarrow> es = fs"
    by (rule itemsOf_map_inj) (simp add: VElect_def, simp add: VElect_inj)
qed

lemmas field_injs = VLists_inj VNetTopology_inj itemOf_VList_eq

lemma VBig_inj: "itemOf (VBig i) = itemOf (VBig j) \<and> itemOf (VBig i) \<noteq> None \<Longrightarrow> i = j"
  by (auto split: if_splits)

lemma Encode_fields:
  assumes "rlpOK (VList vs)" "rlpOK (VList vs')" "Encode (VList vs) = Encode (VList vs')"
  shows "list_all2 (\<lambda>v v'. itemOf v = itemOf v' \<and> itemOf v \<noteq> None) vs vs'"
proof -
  from assms(1,2) obtain xs ys where x: "itemsOf vs = Some xs" "length (encItem (Lst xs)) < 2 ^ 64"
    and y: "itemsOf vs' = Some ys" by (auto simp: rlpOK_def split: option.splits)
  have "Encode (VList vs) = Inr (encItem (Lst xs))" "Encode (VList vs') = Inr (encItem (Lst ys))"
    using assms(1,2) x y by (intro Encode_item; simp)+
  then have "encItem (Lst xs) @ [] = encItem (Lst ys) @ []" using assms(3) by simp
  then have "xs = ys" using x(2) encItem_inj [of "Lst xs" "[]" "Lst ys" "[]"] by simp
  with x y show ?thesis by (intro itemsOf_all2) simp_all
qed

text \<open>The hash function does not confuse the encodings of these two values.\<close>

definition noCollision :: "Crypto \<Rightarrow> rlpValue \<Rightarrow> rlpValue \<Rightarrow> bool" where
  "noCollision cr u v \<longleftrightarrow> (rlpHash cr u = rlpHash cr v \<longrightarrow> Encode u = Encode v)"

text \<open>The part of a header validators sign before mining.\<close>

definition signedPart :: "Header \<Rightarrow> Header" where
  "signedPart h =
     h\<lparr>h_Coinbase := 0, h_Signatures := [], h_AIHash := 0, h_MixDigest := 0, h_Nonce := 0,
       h_VrfValue := (if isAIMine h then h_VrfValue h else [])\<rparr>"

lemma signedFields:
  assumes "list_all2 (\<lambda>v v'. itemOf v = itemOf v' \<and> itemOf v \<noteq> None)
    (noSignsAndNonceFields h1) (noSignsAndNonceFields h2)"
  shows "signedPart h1 = signedPart h2"
proof -
  have v: "h_Version h1 = h_Version h2"
    using assms by (simp add: noSignsAndNonceFields_def)
  then have ai: "isAIMine h1 = isAIMine h2" by (simp add: isAIMine_def)
  show ?thesis
    using assms v ai VBig_inj [of "h_Difficulty h1" "h_Difficulty h2"] VBig_inj [of "h_Number h1" "h_Number h2"]
      VBig_inj [of "h_Time h1" "h_Time h2"]
    by (cases h1; cases h2)
      (auto simp: noSignsAndNonceFields_def signedPart_def field_injs simp flip: word_unat_eq_iff
        simp del: itemOf.simps(4,8) split: if_splits)
qed

text \<open>C29. A validator's signature on a header covers everything but the fields filled in later: if two
  headers have the same \<open>HashNoSignsAndNonce\<close>, and the hash function does not confuse their
  encodings, then they agree on every field except the miner, the signatures, the AI hash, the mix
  digest, the nonce and, before the AI-mine version, the VRF value.\<close>

theorem HashNoSignsAndNonce_covers:
  assumes "HashNoSignsAndNonce cr h1 = HashNoSignsAndNonce cr h2"
    and "noCollision cr (VList (noSignsAndNonceFields h1)) (VList (noSignsAndNonceFields h2))"
    and "rlpOK (VList (noSignsAndNonceFields h1))" "rlpOK (VList (noSignsAndNonceFields h2))"
  shows "signedPart h1 = signedPart h2"
  using assms by (intro signedFields Encode_fields) (simp_all add: HashNoSignsAndNonce_def noCollision_def)

definition exampleHeader :: Header where
  "exampleHeader =
     \<lparr>h_ParentHash = 7, h_UncleHash = 0, h_Leader = 3, h_Coinbase = 0, h_Roots = [], h_Sharding = [],
      h_Difficulty = 100, h_Number = 42, h_GasLimit = 0, h_GasUsed = 0, h_Time = 1000, h_Elect = [],
      h_NetTopology = \<lparr>nt_Type = 0, nt_Data = []\<rparr>, h_Signatures = [], h_AIHash = 0, h_Extra = [],
      h_MixDigest = 0, h_Nonce = 0, h_Version = VersionGamma, h_VersionSignatures = [], h_VrfValue = []\<rparr>"

lemma exampleHeader_fields: "noSignsAndNonceFields (exampleHeader\<lparr>h_Nonce := n, h_Signatures := ss\<rparr>) = noSignsAndNonceFields exampleHeader"
  by (simp add: noSignsAndNonceFields_def isAIMine_def)

theorem HashNoSignsAndNonce_covers_witness:
  "signedPart exampleHeader = signedPart (exampleHeader\<lparr>h_Nonce := 5, h_Signatures := [(1, 0)]\<rparr>)"
proof -
  have "rlpOK (VList (noSignsAndNonceFields exampleHeader))"
    by (simp add: noSignsAndNonceFields_def exampleHeader_def isAIMine_def VersionCmp_def VersionGamma_def
        VersionAIMine_def stringBytes_def VNetTopology_def example_eval wordBytes_def upt_conv_Cons)
  then show ?thesis
    by (intro HashNoSignsAndNonce_covers [of exampleCrypto])
      (simp_all add: exampleHeader_fields noCollision_def HashNoSignsAndNonce_def)
qed

end
