(* ===== verification/Base58.thy ===== *)
theory Base58
  imports ChainTypes
begin

text \<open>
  MAN addresses: the CRC-8 checksum of \<open>crc8/crc8.go\<close>, the base-58 coding of \<open>base58/base58.go\<close>
  and the currency check of \<open>common/types.go\<close>.  A Go string is the list of its bytes.

  The lemmas show that decoding inverts encoding on every byte slice, that the checksum of a string
  changes when one byte does, and that the address read back from the text of an address is that
  address.
\<close>

section \<open>CRC-8\<close>

record Params =
  pa_Poly :: u8
  pa_Init :: u8
  pa_RefIn :: bool
  pa_RefOut :: bool
  pa_XorOut :: u8
  pa_Check :: u8
  pa_Name :: string

definition CRC8 :: Params where
  "CRC8 = \<lparr>pa_Poly = 0x07, pa_Init = 0x00, pa_RefIn = False, pa_RefOut = False, pa_XorOut = 0x00,
           pa_Check = 0xF4, pa_Name = ''CRC-8''\<rparr>"

record Table =
  ta_params :: Params
  ta_data :: "u8 list"

definition ReverseByte :: "u8 \<Rightarrow> u8" where
  "ReverseByte val =
     fold (\<lambda>i rval. if val AND push_bit i 1 \<noteq> 0 then rval OR drop_bit i 0x80 else rval) [0..<8] 0"

definition crcStep :: "u8 \<Rightarrow> u8 \<Rightarrow> u8" where
  "crcStep poly crc = (let crc' = push_bit 1 crc in if crc AND 0x80 \<noteq> 0 then crc' XOR poly else crc')"

definition MakeTable :: "Params \<Rightarrow> Table" where
  "MakeTable params =
     \<lparr>ta_params = params, ta_data = map (\<lambda>n. (crcStep (pa_Poly params) ^^ 8) (of_nat n)) [0..<256]\<rparr>"

definition Init :: "Table \<Rightarrow> u8" where
  "Init table = pa_Init (ta_params table)"

fun Update :: "u8 \<Rightarrow> bytes \<Rightarrow> Table \<Rightarrow> u8" where
  "Update crc [] table = crc"
| "Update crc (d # data) table =
     (let d' = (if pa_RefIn (ta_params table) then ReverseByte d else d)
      in Update (ta_data table ! unat (crc XOR d')) data table)"

definition Complete :: "u8 \<Rightarrow> Table \<Rightarrow> u8" where
  "Complete crc table =
     (let crc' = (if pa_RefOut (ta_params table) then ReverseByte crc else crc)
      in crc' XOR pa_XorOut (ta_params table))"

definition Checksum :: "bytes \<Rightarrow> Table \<Rightarrow> u8" where
  "Checksum data table = Complete (Update (Init table) data table) table"

definition CalCRC8 :: "bytes \<Rightarrow> u8" where
  "CalCRC8 data = Checksum data (MakeTable CRC8)"

section \<open>Base 58\<close>

definition alphabet :: bytes where
  "alphabet = stringBytes ''123456789ABCDEFGHJKLMNPQRSTUVWXYZabcdefghijkmnopqrstuvwxyz''"

abbreviation (input) alphabetIdx0 :: u8 where "alphabetIdx0 \<equiv> 0x31"

definition b58 :: "u8 list" where
  "b58 =
    [255, 255, 255, 255, 255, 255, 255, 255, 255, 255, 255, 255, 255, 255, 255, 255,
     255, 255, 255, 255, 255, 255, 255, 255, 255, 255, 255, 255, 255, 255, 255, 255,
     255, 255, 255, 255, 255, 255, 255, 255, 255, 255, 255, 255, 255, 255, 255, 255,
     255, 0, 1, 2, 3, 4, 5, 6, 7, 8, 255, 255, 255, 255, 255, 255,
     255, 9, 10, 11, 12, 13, 14, 15, 16, 255, 17, 18, 19, 20, 21, 255,
     22, 23, 24, 25, 26, 27, 28, 29, 30, 31, 32, 255, 255, 255, 255, 255,
     255, 33, 34, 35, 36, 37, 38, 39, 40, 41, 42, 43, 255, 44, 45, 46,
     47, 48, 49, 50, 51, 52, 53, 54, 55, 56, 57, 255, 255, 255, 255, 255,
     255, 255, 255, 255, 255, 255, 255, 255, 255, 255, 255, 255, 255, 255, 255, 255,
     255, 255, 255, 255, 255, 255, 255, 255, 255, 255, 255, 255, 255, 255, 255, 255,
     255, 255, 255, 255, 255, 255, 255, 255, 255, 255, 255, 255, 255, 255, 255, 255,
     255, 255, 255, 255, 255, 255, 255, 255, 255, 255, 255, 255, 255, 255, 255, 255,
     255, 255, 255, 255, 255, 255, 255, 255, 255, 255, 255, 255, 255, 255, 255, 255,
     255, 255, 255, 255, 255, 255, 255, 255, 255, 255, 255, 255, 255, 255, 255, 255,
     255, 255, 255, 255, 255, 255, 255, 255, 255, 255, 255, 255, 255, 255, 255, 255,
     255, 255, 255, 255, 255, 255, 255, 255, 255, 255, 255, 255, 255, 255, 255, 255]"

text \<open>The loop of \<open>Decode\<close> runs from the last byte; \<open>None\<close> is a byte outside of the alphabet.\<close>

fun decodeLoop :: "bytes \<Rightarrow> nat \<Rightarrow> nat \<Rightarrow> nat option" where
  "decodeLoop [] answer j = Some answer"
| "decodeLoop (c # cs) answer j =
     (let tmp = b58 ! unat c
      in if tmp = 255 then None else decodeLoop cs (answer + j * unat tmp) (j * 58))"

definition Decode58 :: "bytes \<Rightarrow> bytes" where
  "Decode58 b =
     (case decodeLoop (rev b) 0 1 of
        None \<Rightarrow> []
      | Some answer \<Rightarrow>
          (let numZeros = length (takeWhile (\<lambda>c. c = alphabetIdx0) b)
           in replicate numZeros 0 @ natBytes answer))"

text \<open>\<open>big.Int.SetBytes\<close>.\<close>

definition bytesNat :: "bytes \<Rightarrow> nat" where
  "bytesNat b = foldl (\<lambda>acc x. acc * 256 + unat x) 0 b"

function encodeLoop :: "nat \<Rightarrow> bytes" where
  "encodeLoop x = (if x > 0 then (alphabet ! (x mod 58)) # encodeLoop (x div 58) else [])"
  by auto
termination by (relation "measure id") simp_all

declare encodeLoop.simps [simp del]

definition Encode58 :: "bytes \<Rightarrow> bytes" where
  "Encode58 b =
     rev (encodeLoop (bytesNat b) @ replicate (length (takeWhile (\<lambda>i. i = 0) b)) alphabetIdx0)"

definition EncodeInt :: "u8 \<Rightarrow> bytes" where
  "EncodeInt data = (if int (length alphabet) - 1 < uint data then [] else [alphabet ! unat data])"

section \<open>Addresses\<close>

text \<open>
  \<open>unicode.IsLetter\<close> and \<open>unicode.IsUpper\<close> of a byte read as a code point, which is then a
  Latin-1 character.
\<close>

definition IsLetter :: "u8 \<Rightarrow> bool" where
  "IsLetter ch \<longleftrightarrow> 0x41 \<le> ch \<and> ch \<le> 0x5A \<or> 0x61 \<le> ch \<and> ch \<le> 0x7A \<or> ch = 0xAA \<or> ch = 0xB5 \<or> ch = 0xBA
     \<or> 0xC0 \<le> ch \<and> ch \<le> 0xD6 \<or> 0xD8 \<le> ch \<and> ch \<le> 0xF6 \<or> 0xF8 \<le> ch"

definition IsUpper :: "u8 \<Rightarrow> bool" where
  "IsUpper ch \<longleftrightarrow> 0x41 \<le> ch \<and> ch \<le> 0x5A \<or> 0xC0 \<le> ch \<and> ch \<le> 0xD6 \<or> 0xD8 \<le> ch \<and> ch \<le> 0xDE"

definition IsValidityManCurrency :: "bytes \<Rightarrow> bool" where
  "IsValidityManCurrency s \<longleftrightarrow>
     \<not> (length s < 3 \<or> length s > 8) \<and> (\<forall>ch \<in> set s. IsLetter ch \<and> IsUpper ch)"

text \<open>
  \<open>strings.TrimSpace\<close>: the white space of Unicode in UTF-8, removed from both ends.
\<close>

definition spaces :: "bytes list" where
  "spaces = [[0x09], [0x0A], [0x0B], [0x0C], [0x0D], [0x20], [0xC2, 0x85], [0xC2, 0xA0],
     [0xE1, 0x9A, 0x80], [0xE2, 0x80, 0x80], [0xE2, 0x80, 0x81], [0xE2, 0x80, 0x82],
     [0xE2, 0x80, 0x83], [0xE2, 0x80, 0x84], [0xE2, 0x80, 0x85], [0xE2, 0x80, 0x86],
     [0xE2, 0x80, 0x87], [0xE2, 0x80, 0x88], [0xE2, 0x80, 0x89], [0xE2, 0x80, 0x8A],
     [0xE2, 0x80, 0xA8], [0xE2, 0x80, 0xA9], [0xE2, 0x80, 0xAF], [0xE2, 0x81, 0x9F],
     [0xE3, 0x80, 0x80]]"

definition startsWith :: "bytes \<Rightarrow> bytes \<Rightarrow> bool" where
  "startsWith p s \<longleftrightarrow> take (length p) s = p"

function trimLeft :: "bytes list \<Rightarrow> bytes \<Rightarrow> bytes" where
  "trimLeft sp s =
     (case find (\<lambda>p. p \<noteq> [] \<and> startsWith p s) sp of
        None \<Rightarrow> s
      | Some p \<Rightarrow> trimLeft sp (drop (length p) s))"
  by auto
termination
proof (relation "measure (\<lambda>(sp, s). length s)")
  fix sp :: "bytes list" and s p :: bytes
  assume "find (\<lambda>p. p \<noteq> [] \<and> startsWith p s) sp = Some p"
  then have "p \<noteq> []" "take (length p) s = p" by (auto simp: find_Some_iff startsWith_def)
  then show "((sp, drop (length p) s), (sp, s)) \<in> measure (\<lambda>(sp, s). length s)" by (cases s) auto
qed simp

declare trimLeft.simps [simp del]

definition TrimSpace :: "bytes \<Rightarrow> bytes" where
  "TrimSpace s = rev (trimLeft (map rev spaces) (rev (trimLeft spaces s)))"

text \<open>\<open>strings.Split\<close> at the byte for a full stop.\<close>

fun splitDot :: "bytes \<Rightarrow> bytes list" where
  "splitDot [] = [[]]"
| "splitDot (c # cs) =
     (if c = 0x2E then [] # splitDot cs
      else (case splitDot cs of [] \<Rightarrow> [[c]] | f # fs \<Rightarrow> (c # f) # fs))"

definition Base58EncodeToString :: "bytes \<Rightarrow> address \<Rightarrow> bytes" where
  "Base58EncodeToString currency b =
     (let str = Encode58 (wordBytes 20 b);
          strAddr = currency @ [0x2E] @ str;
          crc = CalCRC8 strAddr
      in strAddr @ EncodeInt (crc mod 58))"

text \<open>\<open>None\<close> is the slice bound out of range of an empty address part.\<close>

definition Base58DecodeToAddress :: "bytes \<Rightarrow> (error + address) option" where
  "Base58DecodeToAddress strData0 =
     (let strData = TrimSpace strData0
      in if strData = [] then Some (Inl (Errorf ''input address invalid''))
         else if 0x2E \<notin> set strData then Some (Inl (Errorf ''input address invalid''))
         else
           (let currency = splitDot strData ! 0
            in if \<not> IsValidityManCurrency currency then Some (Inl (Errorf ''input address invalid''))
               else
                 (let crc = last strData;
                      crc1 = CalCRC8 (butlast strData);
                      strCrc = EncodeInt (crc1 mod 58)
                  in if strCrc \<noteq> [crc] then Some (Inl (Errorf ''input address invalid''))
                     else
                       (let tmpaddres = splitDot strData ! 1
                        in if tmpaddres = [] then None
                           else Some (Inr (bytesToWord (Decode58 (butlast tmpaddres)) 0))))))"

section \<open>The checksum sees every change of one byte\<close>

text \<open>One step of the register is undone by a step in the other direction, as the polynomial is odd.\<close>

definition crcBack :: "u8 \<Rightarrow> u8" where
  "crcBack crc = (if crc AND 1 \<noteq> 0 then drop_bit 1 (crc XOR 7) OR 0x80 else drop_bit 1 crc)"

lemma crcBack_crcStep: "crcBack (crcStep 7 crc) = crc"
  by (rule all_bytes [where P = "\<lambda>c. crcBack (crcStep 7 c) = c"]) code_simp

lemma inj_crcStep: "inj (crcStep 7 ^^ n)"
  by (rule inj_fn) (metis crcBack_crcStep injI)

lemma CRC8_sel [simp]:
  "pa_Poly CRC8 = 7" "pa_Init CRC8 = 0" "\<not> pa_RefIn CRC8" "\<not> pa_RefOut CRC8" "pa_XorOut CRC8 = 0"
  by (simp_all add: CRC8_def)

lemma table_CRC8: "ta_data (MakeTable CRC8) ! unat crc = (crcStep 7 ^^ 8) crc"
  using unsigned_less [of crc, where ?'a = nat] by (simp add: MakeTable_def)

lemma Update_CRC8:
  "Update crc [] (MakeTable CRC8) = crc"
  "Update crc (d # data) (MakeTable CRC8) = Update ((crcStep 7 ^^ 8) (crc XOR d)) data (MakeTable CRC8)"
  by (simp_all add: table_CRC8 Let_def) (simp_all add: MakeTable_def)

lemma Update_append: "Update crc (xs @ ys) t = Update (Update crc xs t) ys t"
  by (induction xs arbitrary: crc) (simp_all add: Let_def)

lemma xor_cancel: "(a :: u8) XOR c = b XOR c \<longleftrightarrow> a = b"
  by (metis (no_types) bit.xor_cancel_right xor.assoc xor.right_neutral xor_self_eq)

lemma Update_inj: "Update a ys (MakeTable CRC8) = Update b ys (MakeTable CRC8) \<longleftrightarrow> a = b"
proof (induction ys arbitrary: a b)
  case (Cons y ys)
  have "(crcStep 7 ^^ 8) (a XOR y) = (crcStep 7 ^^ 8) (b XOR y) \<longleftrightarrow> a = b"
    using inj_crcStep [of 8] by (simp add: inj_eq xor_cancel del: funpow.simps)
  with Cons show ?case by (simp only: Update_CRC8)
qed (simp add: Update_CRC8)

lemma CalCRC8_Update: "CalCRC8 data = Update 0 data (MakeTable CRC8)"
  by (simp add: CalCRC8_def Checksum_def Complete_def Init_def) (simp add: MakeTable_def)

section \<open>Decoding inverts encoding\<close>

lemma b58_alphabet: "i < 58 \<Longrightarrow> b58 ! unat (alphabet ! i) = of_nat i"
proof -
  have "\<forall>i \<in> set [0..<58]. b58 ! unat (alphabet ! i) = of_nat i"
    by code_simp
  then show "i < 58 \<Longrightarrow> b58 ! unat (alphabet ! i) = of_nat i" by simp
qed

lemma alphabet_0: "i < 58 \<Longrightarrow> alphabet ! i = 0x31 \<longleftrightarrow> i = 0"
proof -
  have "\<forall>i \<in> set [0..<58]. alphabet ! i = 0x31 \<longleftrightarrow> i = 0"
    by code_simp
  then show "i < 58 \<Longrightarrow> alphabet ! i = 0x31 \<longleftrightarrow> i = 0" by simp
qed

lemma of_nat_byte: "i < 58 \<Longrightarrow> unat (of_nat i :: u8) = i \<and> (of_nat i :: u8) \<noteq> 255"
  by (auto simp: unat_of_nat word_unat_eq_iff)

lemma decodeLoop_zeros: "decodeLoop (replicate n 0x31) answer j = Some answer"
proof (induction n arbitrary: j)
  case (Suc n)
  then show ?case using b58_alphabet [of 0] alphabet_0 [of 0] by (simp add: Let_def)
qed simp

lemma decodeLoop_encodeLoop:
  "decodeLoop (encodeLoop x @ replicate n 0x31) answer j = Some (answer + j * x)"
proof (induction x arbitrary: answer j rule: encodeLoop.induct)
  case (1 x)
  show ?case
  proof (cases "x > 0")
    case True
    have "decodeLoop (encodeLoop x @ replicate n 0x31) answer j
        = Some (answer + j * (x mod 58) + j * 58 * (x div 58))"
      using True "1.IH" b58_alphabet [of "x mod 58"] of_nat_byte [of "x mod 58"]
      by (simp add: encodeLoop.simps [of x] Let_def)
    moreover have "j * (x mod 58) + j * 58 * (x div 58) = j * x"
      by (metis distrib_left mod_mult_div_eq mult.assoc)
    ultimately show ?thesis by (simp add: add.assoc)
  qed (simp add: encodeLoop.simps [of 0] decodeLoop_zeros)
qed

lemma last_encodeLoop: "x > 0 \<Longrightarrow> encodeLoop x \<noteq> [] \<and> last (encodeLoop x) \<noteq> 0x31"
proof (induction x rule: encodeLoop.induct)
  case (1 x)
  show ?case
  proof (cases "x div 58 > 0")
    case True
    with "1.IH" "1.prems" show ?thesis by (simp add: encodeLoop.simps [of x])
  next
    case False
    then have "x < 58" by (simp add: div_eq_0_iff)
    then show ?thesis using "1.prems" False alphabet_0 [of x] encodeLoop.simps [of 0]
      by (simp add: encodeLoop.simps [of x])
  qed
qed

lemma leading_ones: "length (takeWhile (\<lambda>c. c = 0x31) (rev (encodeLoop x @ replicate n 0x31))) = n"
proof -
  have "takeWhile (\<lambda>c. c = (0x31 :: u8)) (rev (encodeLoop x)) = []"
    using last_encodeLoop [of x] encodeLoop.simps [of 0]
    by (cases "x > 0"; cases "rev (encodeLoop x)") (auto simp: hd_rev [symmetric])
  then show ?thesis by (simp add: takeWhile_append)
qed

lemma bytesNat_append: "bytesNat (xs @ [x]) = bytesNat xs * 256 + unat x"
  by (simp add: bytesNat_def)

lemma unat_byte: "unat (x :: u8) < 256"
  using unsigned_less [of x, where ?'a = nat] by simp

lemma natBytes_bytesNat: "natBytes (bytesNat b) = dropWhile (\<lambda>x. x = 0) b"
proof (induction b rule: rev_induct)
  case Nil
  then show ?case by (simp add: bytesNat_def)
next
  case (snoc x xs)
  have d: "(bytesNat xs * 256 + unat x) div 256 = bytesNat xs" "(bytesNat xs * 256 + unat x) mod 256 = unat x"
    using unat_byte [of x] by simp_all
  show ?case
  proof (cases "bytesNat xs * 256 + unat x = 0")
    case True
    then have "bytesNat xs = 0" "x = 0" by (simp_all add: unat_eq_zero)
    with snoc show ?thesis by (simp add: bytesNat_append dropWhile_append eq_commute [of "[]"] flip: dropWhile_eq_Nil_conv)
  next
    case False
    then have *: "natBytes (bytesNat (xs @ [x])) = dropWhile (\<lambda>x. x = 0) xs @ [x]"
      using snoc d by (simp add: bytesNat_append natBytes_pos)
    show ?thesis
    proof (cases "dropWhile (\<lambda>x. x = 0) xs = []")
      case True
      with snoc have "natBytes (bytesNat xs) = []" by simp
      then have "bytesNat xs = 0" using hd_natBytes [of "bytesNat xs"] by blast
      with False have "x \<noteq> 0" by auto
      with * True show ?thesis by (simp add: dropWhile_append)
    qed (simp add: * dropWhile_append)
  qed
qed

lemma replicate_takeWhile: "replicate (length (takeWhile (\<lambda>x. x = c) b)) c = takeWhile (\<lambda>x. x = c) b"
  by (induction b) simp_all

lemma Decode58_Encode58: "Decode58 (Encode58 b) = b"
proof -
  let ?n = "length (takeWhile (\<lambda>i. i = 0) b)"
  have "Decode58 (Encode58 b) = replicate ?n 0 @ natBytes (bytesNat b)"
    using decodeLoop_encodeLoop [of "bytesNat b" ?n 0 1] leading_ones [of "bytesNat b" ?n]
    by (simp add: Decode58_def Encode58_def)
  then show ?thesis by (simp add: natBytes_bytesNat replicate_takeWhile)
qed

section \<open>The text of an address\<close>

lemma alphabet_plain: "c \<in> set alphabet \<Longrightarrow> c \<noteq> 0x2E \<and> 0x31 \<le> c \<and> c \<le> 0x7A"
proof -
  have "\<forall>c \<in> set alphabet. c \<noteq> 0x2E \<and> 0x31 \<le> c \<and> c \<le> 0x7A"
    by code_simp
  then show "c \<in> set alphabet \<Longrightarrow> c \<noteq> 0x2E \<and> 0x31 \<le> c \<and> c \<le> 0x7A" by blast
qed

lemma length_alphabet: "length alphabet = 58"
  by (simp add: alphabet_def stringBytes_def)

lemma set_encodeLoop: "set (encodeLoop x) \<subseteq> set alphabet"
proof (induction x rule: encodeLoop.induct)
  case (1 x)
  then show ?case using nth_mem [of "x mod 58" alphabet]
    by (cases "x > 0") (simp_all add: encodeLoop.simps [of x] encodeLoop.simps [of 0] length_alphabet)
qed

lemma set_Encode58: "set (Encode58 b) \<subseteq> set alphabet"
proof -
  have "(0x31 :: u8) \<in> set alphabet" using alphabet_0 [of 0] nth_mem [of 0 alphabet] by (simp add: length_alphabet)
  then show ?thesis using set_encodeLoop [of "bytesNat b"] by (auto simp: Encode58_def)
qed

lemma EncodeInt_char: "\<exists>c \<in> set alphabet. EncodeInt (x mod 58) = [c]"
proof -
  have u: "unat (x mod 58) < 58" by (simp add: unat_mod)
  then have "alphabet ! unat (x mod 58) \<in> set alphabet" by (simp add: length_alphabet)
  moreover have "EncodeInt (x mod 58) = [alphabet ! unat (x mod 58)]"
    using u unfolding EncodeInt_def length_alphabet uint_nat by (intro if_not_P) linarith
  ultimately show ?thesis by blast
qed

text \<open>A white-space sequence is one ASCII byte, or begins and continues with bytes above 127.\<close>

lemma spaces_form:
  "p \<in> set spaces \<Longrightarrow> (\<exists>c. p = [c] \<and> c \<le> 0x20) \<or> (\<exists>c d r. p = c # d # r \<and> 0x80 \<le> d \<and> d \<le> 0xA0 \<and> 0x80 \<le> last p)"
proof -
  have "\<forall>p \<in> set spaces. (length p = 1 \<and> hd p \<le> 0x20)
      \<or> (length p \<ge> 2 \<and> 0x80 \<le> p ! 1 \<and> p ! 1 \<le> 0xA0 \<and> 0x80 \<le> last p)"
    by code_simp
  moreover assume "p \<in> set spaces"
  ultimately show ?thesis by (cases p; cases "tl p") auto
qed

lemma trimLeft_none: "(\<And>p. p \<in> set sp \<Longrightarrow> p \<noteq> [] \<Longrightarrow> \<not> startsWith p s) \<Longrightarrow> trimLeft sp s = s"
proof -
  assume "\<And>p. p \<in> set sp \<Longrightarrow> p \<noteq> [] \<Longrightarrow> \<not> startsWith p s"
  then have "find (\<lambda>p. p \<noteq> [] \<and> startsWith p s) sp = None" by (auto simp: find_None_iff)
  then show ?thesis by (simp add: trimLeft.simps)
qed

lemma IsUpper_range: "IsUpper c \<Longrightarrow> 0x41 \<le> c \<and> c \<noteq> 0x2E \<and> \<not> (0x80 \<le> c \<and> c \<le> 0xA0)"
  by (auto simp: IsUpper_def word_le_nat_alt)

lemma TrimSpace_plain:
  assumes "s = a # b # r" "0x20 < a" "\<not> (0x80 \<le> b \<and> b \<le> 0xA0)" "s = q @ [z]" "0x20 < z" "z < 0x80"
  shows "TrimSpace s = s"
proof -
  have l: "trimLeft spaces s = s"
    by (rule trimLeft_none) (use assms(1-3) in \<open>auto simp: startsWith_def dest!: spaces_form\<close>)
  have "trimLeft (map rev spaces) (z # rev q) = z # rev q"
  proof (rule trimLeft_none)
    fix p assume "p \<in> set (map rev spaces)" "p \<noteq> []"
    then obtain t where t: "t \<in> set spaces" "p = rev t" by auto
    then have "last t \<noteq> z" using spaces_form [of t] assms(5,6) by auto
    moreover have "hd p = last t" using t(2) by (simp add: hd_rev)
    ultimately show "\<not> startsWith p (z # rev q)"
      using \<open>p \<noteq> []\<close> by (cases p) (auto simp: startsWith_def)
  qed
  with l show ?thesis by (simp add: TrimSpace_def assms(4))
qed

lemma splitDot_plain: "0x2E \<notin> set s \<Longrightarrow> splitDot s = [s]"
  by (induction s) auto

lemma splitDot_append: "0x2E \<notin> set s \<Longrightarrow> splitDot (s @ 0x2E # t) = s # splitDot t"
  by (induction s) auto

text \<open>The decoder on a text with a valid currency and a valid checksum.\<close>

lemma Base58DecodeToAddress_checked:
  assumes "IsValidityManCurrency currency" "EncodeInt (CalCRC8 (currency @ 0x2E # t) mod 58) = [x]"
  shows "Base58DecodeToAddress (currency @ 0x2E # t @ [x])
    = (let tmpaddres = splitDot (t @ [x]) ! 0
       in if tmpaddres = [] then None else Some (Inr (bytesToWord (Decode58 (butlast tmpaddres)) 0)))"
proof -
  let ?s = "currency @ 0x2E # t @ [x]"
  have x: "x \<in> set alphabet" using EncodeInt_char [of "CalCRC8 (currency @ 0x2E # t)"] assms(2) by auto
  from assms(1) obtain c d r where c: "currency = c # d # r"
    by (cases currency; cases "tl currency") (auto simp: IsValidityManCurrency_def)
  have up: "\<And>ch. ch \<in> set currency \<Longrightarrow> IsUpper ch" using assms(1) by (simp add: IsValidityManCurrency_def)
  have "0x2E \<notin> set currency" using up IsUpper_range by blast
  then have "splitDot ?s = currency # splitDot (t @ [x])" by (simp add: splitDot_append)
  moreover have "TrimSpace ?s = ?s"
  proof (rule TrimSpace_plain)
    show "?s = c # d # (r @ 0x2E # t @ [x])" by (simp add: c)
    show "?s = (currency @ 0x2E # t) @ [x]" by simp
    show "0x20 < c" "\<not> (0x80 \<le> d \<and> d \<le> 0xA0)"
      using IsUpper_range [of c] IsUpper_range [of d] up c by (auto simp: word_less_nat_alt word_le_nat_alt)
    show "0x20 < x" "x < 0x80" using alphabet_plain [OF x] by (auto simp: word_less_nat_alt word_le_nat_alt)
  qed
  moreover have "butlast ?s = currency @ 0x2E # t" "last ?s = x" by (simp_all add: butlast_append)
  ultimately show ?thesis using assms by (simp add: Base58DecodeToAddress_def Let_def)
qed

section \<open>Properties\<close>

text \<open>C37. Decoding inverts encoding: the base-58 text of every byte slice, leading zeroes
  included, decodes to that slice.\<close>

theorem Decode_Encode: "Decode58 (Encode58 b) = b"
  by (rule Decode58_Encode58)

text \<open>C39. The checksum detects every substitution of one byte: two strings that differ in exactly
  one position have different checksums.\<close>

theorem CalCRC8_detects: "CalCRC8 (xs @ a # ys) = CalCRC8 (xs @ b # ys) \<longleftrightarrow> a = b"
proof -
  let ?c = "Update 0 xs (MakeTable CRC8)"
  have "(crcStep 7 ^^ 8) (?c XOR a) = (crcStep 7 ^^ 8) (?c XOR b) \<longleftrightarrow> a = b"
    using inj_crcStep [of 8] xor_cancel [of a ?c b] by (simp add: inj_eq xor.commute del: funpow.simps)
  then show ?thesis
    by (simp add: CalCRC8_Update Update_append Update_CRC8 Update_inj del: funpow.simps Update.simps)
qed

text \<open>C38. The text of an address reads back as that address: for every currency name the decoder
  accepts, \<open>Base58DecodeToAddress\<close> returns without a panic the address that
  \<open>Base58EncodeToString\<close> wrote.\<close>

theorem Base58DecodeToAddress_Encode:
  assumes "IsValidityManCurrency currency"
  shows "Base58DecodeToAddress (Base58EncodeToString currency a) = Some (Inr a)"
proof -
  let ?e = "Encode58 (wordBytes 20 a)"
  obtain x where x: "x \<in> set alphabet" "EncodeInt (CalCRC8 (currency @ 0x2E # ?e) mod 58) = [x]"
    using EncodeInt_char by blast
  then have "Base58EncodeToString currency a = currency @ 0x2E # ?e @ [x]"
    by (simp add: Base58EncodeToString_def Let_def)
  moreover have "0x2E \<notin> set (?e @ [x])" using set_Encode58 x(1) alphabet_plain by auto
  ultimately show ?thesis
    using Base58DecodeToAddress_checked [OF assms x(2)] splitDot_plain [of "?e @ [x]"]
    by (simp add: Let_def Decode58_Encode58 bytesToWord_wordBytes(2))
qed

theorem Base58DecodeToAddress_Encode_witness:
  "IsValidityManCurrency (stringBytes ''MAN'')
   \<and> Base58DecodeToAddress (Base58EncodeToString (stringBytes ''MAN'') 0x1234) = Some (Inr 0x1234)"
proof -
  have c: "IsValidityManCurrency (stringBytes ''MAN'')"
    by (simp add: IsValidityManCurrency_def stringBytes_def IsLetter_def IsUpper_def)
  then show ?thesis using Base58DecodeToAddress_Encode [where a = "0x1234", OF c] by simp
qed

text \<open>C40. The decoder panics on a text with a valid currency, a valid checksum and an empty address
  part: after the currency, two full stops and the checksum character the slice
  \<open>tmpaddres[0 : len(tmpaddres)-1]\<close> of the empty part is out of range.\<close>

theorem Base58DecodeToAddress_empty_part:
  assumes "IsValidityManCurrency currency"
  shows "Base58DecodeToAddress
    (currency @ [0x2E, 0x2E] @ EncodeInt (CalCRC8 (currency @ [0x2E, 0x2E]) mod 58)) = None"
proof -
  obtain x where "EncodeInt (CalCRC8 (currency @ [0x2E, 0x2E]) mod 58) = [x]" using EncodeInt_char by blast
  with Base58DecodeToAddress_checked [OF assms, of "[0x2E]" x] show ?thesis by (simp add: Let_def)
qed

theorem Base58DecodeToAddress_empty_part_witness:
  "IsValidityManCurrency (stringBytes ''MAN'')
   \<and> Base58DecodeToAddress (stringBytes ''MAN'' @ [0x2E, 0x2E]
       @ EncodeInt (CalCRC8 (stringBytes ''MAN'' @ [0x2E, 0x2E]) mod 58)) = None"
proof -
  have c: "IsValidityManCurrency (stringBytes ''MAN'')"
    by (simp add: IsValidityManCurrency_def stringBytes_def IsLetter_def IsUpper_def)
  with Base58DecodeToAddress_empty_part [OF c] show ?thesis by blast
qed

end
