(* ===== verification/MtxDpos.thy ===== *)
theory MtxDpos
  imports ChainTypes
begin

text \<open>
  The DPOS engine (\<open>consensus/mtxdpos/mtxdpos.go\<close>): how many approvals of validators make a hash,
  a block, a version or a super block accepted.  The reader of the chain state is the record
  \<open>StateReader\<close>, the interface of the same name in \<open>consensus/consensus.go\<close>.  Maps that the code
  ranges over are association lists; the order of the list is the order of the iteration, and the
  lemmas show that the verdict does not depend on it.

  The ratio 0.66667 is a \<open>float64\<close>: its significand is \<open>6004829527158177\<close> at scale \<open>2 ^ 53\<close>, and a
  product is rounded to 53 bits, ties to even, as IEEE 754 does.
\<close>

section \<open>Configuration\<close>

record Config =
  c_TargetSignCountRatio :: nat
  c_TargetStockRatio :: nat
  c_MinStockCount :: int
  c_FullSignThreshold :: int
  c_SuperNodeFullSignThreshold :: int

definition DPOSDefStock :: u16 where
  "DPOSDefStock = 1"

definition defaultConfig :: Config where
  "defaultConfig = \<lparr>c_TargetSignCountRatio = 6004829527158177, c_TargetStockRatio = 0, c_MinStockCount = 3,
     c_FullSignThreshold = 7, c_SuperNodeFullSignThreshold = 3\<rparr>"

definition simpleConfig :: Config where
  "simpleConfig = \<lparr>c_TargetSignCountRatio = 6004829527158177, c_TargetStockRatio = 0, c_MinStockCount = 1,
     c_FullSignThreshold = 7, c_SuperNodeFullSignThreshold = 3\<rparr>"

definition NewMtxDPOS :: "bool \<Rightarrow> Config" where
  "NewMtxDPOS simpleMode = (if simpleMode then simpleConfig else defaultConfig)"

section \<open>Rounding of \<open>float64\<close> products\<close>

fun bitLength :: "nat \<Rightarrow> nat" where
  "bitLength n = (if n = 0 then 0 else Suc (bitLength (n div 2)))"

declare bitLength.simps [simp del]

definition round53 :: "nat \<Rightarrow> nat" where
  "round53 n =
     (let s = bitLength n - 53; q = n div 2 ^ s; r = n mod 2 ^ s
      in if s = 0 then n
         else if 2 * r > 2 ^ s \<or> 2 * r = 2 ^ s \<and> odd q then (q + 1) * 2 ^ s
         else q * 2 ^ s)"

text \<open>\<open>math.Ceil(float64(n) * ratio)\<close> for a ratio given at scale \<open>2 ^ 53\<close>.\<close>

definition ceilMul :: "nat \<Rightarrow> nat \<Rightarrow> nat" where
  "ceilMul n ratio = (round53 (round53 n * ratio) + (2 ^ 53 - 1)) div 2 ^ 53"

section \<open>The reader\<close>

record StateReader =
  sr_GetCurrentHash :: hash
  sr_GetGraphByHash :: "hash \<Rightarrow> error + (TopologyGraph \<times> ElectGraph)"
  sr_GetBroadcastAccounts :: "hash \<Rightarrow> error + address list"
  sr_GetVersionSuperAccounts :: "hash \<Rightarrow> error + address list option"
  sr_GetBlockSuperAccounts :: "hash \<Rightarrow> error + address list option"
  sr_GetBroadcastIntervalByHash :: "hash \<Rightarrow> error + BCIntervalInfo"
  sr_GetA0AccountFromAnyAccount :: "address \<Rightarrow> hash \<Rightarrow> error + (address \<times> address)"

section \<open>Targets\<close>

record dposTarget =
  t_totalCount :: int
  t_totalStock :: u64
  t_targetCount :: int
  t_targetStock :: u64
  t_maxDisagreeCount :: int
  t_maxDisagreeStock :: u64

type_synonym stocks = "(address, u16) gomap"

definition calcSuperNodeTarget :: "Config \<Rightarrow> nat \<Rightarrow> int" where
  "calcSuperNodeTarget md totalCount =
     (if int totalCount \<le> c_SuperNodeFullSignThreshold md then int totalCount
      else int (ceilMul totalCount (c_TargetSignCountRatio md)))"

definition calculateDPOSTarget :: "Config \<Rightarrow> stocks \<Rightarrow> error + dposTarget" where
  "calculateDPOSTarget md stocks =
     (let totalCount = mapLen stocks;
          totalStock = sum_list (map (\<lambda>(a, stock). ucast stock) stocks) :: u64;
          targetCount = (if int totalCount \<le> c_FullSignThreshold md then int totalCount
                         else int (ceilMul totalCount (c_TargetSignCountRatio md)));
          targetStock = (if int totalCount \<le> c_FullSignThreshold md then totalStock
                         else of_nat (ceilMul (unat totalStock) (c_TargetStockRatio md)))
      in if int totalCount < c_MinStockCount md then Inl errStockCountErr
         else Inr \<lparr>t_totalCount = int totalCount, t_totalStock = totalStock, t_targetCount = targetCount,
                   t_targetStock = targetStock, t_maxDisagreeCount = int totalCount - targetCount,
                   t_maxDisagreeStock = totalStock - targetStock\<rparr>)"

definition findStockInElect :: "address \<Rightarrow> ElectGraph \<Rightarrow> u16" where
  "findStockInElect node electInfo =
     (case find (\<lambda>elect. en_Account elect = node) (ElectList electInfo) of
        Some elect \<Rightarrow> en_Stock elect
      | None \<Rightarrow> DPOSDefStock)"

fun graph2StocksLoop :: "TopologyNodeInfo list \<Rightarrow> ElectGraph \<Rightarrow> stocks \<Rightarrow> stocks" where
  "graph2StocksLoop [] electInfo stocks = stocks"
| "graph2StocksLoop (node # nodes) electInfo stocks =
     graph2StocksLoop nodes electInfo
       (if tn_Type node \<noteq> RoleValidator then stocks
        else if mapGet stocks (tn_Account node) \<noteq> None then stocks
        else mapSet (tn_Account node) (findStockInElect (tn_Account node) electInfo) stocks)"

definition graph2ValidatorStocks :: "TopologyGraph \<Rightarrow> ElectGraph \<Rightarrow> stocks" where
  "graph2ValidatorStocks topologyInfo electInfo = graph2StocksLoop (NodeList topologyInfo) electInfo mapMake"

definition getValidatorStocks :: "StateReader \<Rightarrow> hash \<Rightarrow> error + stocks" where
  "getValidatorStocks reader h =
     (case sr_GetGraphByHash reader h of
        Inl e \<Rightarrow> Inl e
      | Inr (topologyInfo, electInfo) \<Rightarrow> Inr (graph2ValidatorStocks topologyInfo electInfo))"

section \<open>Collecting votes\<close>

text \<open>
  One vote enters the map of votes: the first vote of an account is kept, and a later approval
  replaces a rejection.
\<close>

definition recordVote ::
  "signature \<Rightarrow> address \<Rightarrow> bool \<Rightarrow> u16 \<Rightarrow> (address, VerifiedSign) gomap \<Rightarrow> (address, VerifiedSign) gomap" where
  "recordVote sign account validate stock verifiedSign =
     (case mapGet verifiedSign account of
        Some existData \<Rightarrow>
          (if \<not> vs_Validate existData \<and> validate
           then mapSet account \<lparr>vs_Sign = sign, vs_Account = account, vs_Validate = validate, vs_Stock = stock\<rparr> verifiedSign
           else verifiedSign)
      | None \<Rightarrow>
          mapSet account \<lparr>vs_Sign = sign, vs_Account = account, vs_Validate = validate, vs_Stock = stock\<rparr> verifiedSign)"

fun parseVerifiedSigns ::
  "VerifiedSign list \<Rightarrow> stocks \<Rightarrow> (address, VerifiedSign) gomap \<Rightarrow> (address, VerifiedSign) gomap" where
  "parseVerifiedSigns [] stocks acc = acc"
| "parseVerifiedSigns (sign # signs) stocks acc =
     parseVerifiedSigns signs stocks
       (case mapGet stocks (vs_Account sign) of
          None \<Rightarrow> acc
        | Some stock \<Rightarrow> recordVote (vs_Sign sign) (vs_Account sign) (vs_Validate sign) stock acc)"

text \<open>A signature whose signer cannot be recovered, is not delegated by a validator, or cannot be looked
  up, is skipped.\<close>

fun verifySigns ::
  "Crypto \<Rightarrow> StateReader \<Rightarrow> hash \<Rightarrow> signature list \<Rightarrow> stocks \<Rightarrow> hash \<Rightarrow> (address, VerifiedSign) gomap
   \<Rightarrow> (address, VerifiedSign) gomap" where
  "verifySigns cr reader signHash [] stocks blockHash acc = acc"
| "verifySigns cr reader signHash (sign # signs) stocks blockHash acc =
     verifySigns cr reader signHash signs stocks blockHash
       (case VerifySignWithValidate cr signHash sign of
          (signAccount, signValidate, err) \<Rightarrow>
            (if err \<noteq> None then acc
             else (case sr_GetA0AccountFromAnyAccount reader signAccount blockHash of
                     Inl e \<Rightarrow> acc
                   | Inr (accountA0, a1) \<Rightarrow>
                       (case mapGet stocks accountA0 of
                          None \<Rightarrow> acc
                        | Some stock \<Rightarrow> recordVote sign accountA0 signValidate stock acc))))"

section \<open>Counting votes\<close>

fun verifyDPOSLoop ::
  "VerifiedSign list \<Rightarrow> dposTarget \<Rightarrow> int \<Rightarrow> int \<Rightarrow> u64 \<Rightarrow> u64 \<Rightarrow> signature list
   \<Rightarrow> error + (int \<times> u64 \<times> signature list)" where
  "verifyDPOSLoop [] target agreeCount disagreeCount agreeStock disagreeStock rightSigns =
     Inr (agreeCount, agreeStock, rightSigns)"
| "verifyDPOSLoop (signInfo # rest) target agreeCount disagreeCount agreeStock disagreeStock rightSigns =
     (if vs_Validate signInfo then
        verifyDPOSLoop rest target (agreeCount + 1) disagreeCount (agreeStock + ucast (vs_Stock signInfo))
          disagreeStock (rightSigns @ [vs_Sign signInfo])
      else
        (let disagreeCount' = disagreeCount + 1; disagreeStock' = disagreeStock + ucast (vs_Stock signInfo)
         in if disagreeCount' > t_maxDisagreeCount target then Inl errDisagreeCountErr
            else if disagreeStock' > t_maxDisagreeStock target then Inl errDisagreeStockErr
            else verifyDPOSLoop rest target agreeCount disagreeCount' agreeStock disagreeStock' rightSigns))"

definition verifyDPOS :: "(address, VerifiedSign) gomap \<Rightarrow> dposTarget \<Rightarrow> error + signature list" where
  "verifyDPOS verifiedSigns target =
     (case verifyDPOSLoop (map snd verifiedSigns) target 0 0 0 0 [] of
        Inl e \<Rightarrow> Inl e
      | Inr (agreeCount, agreeStock, rightSigns) \<Rightarrow>
          (if agreeCount < t_targetCount target then Inl errSignCountErr
           else if agreeStock < t_targetStock target then Inl errSignStockErr
           else Inr rightSigns))"

text \<open>The length of the hash is 32 by its type.\<close>

definition VerifyHashWithStocks ::
  "Config \<Rightarrow> Crypto \<Rightarrow> StateReader \<Rightarrow> hash \<Rightarrow> signature list \<Rightarrow> stocks \<Rightarrow> hash \<Rightarrow> error + signature list" where
  "VerifyHashWithStocks md cr reader signHash signs stocks blockHash =
     (case calculateDPOSTarget md stocks of
        Inl e \<Rightarrow> Inl e
      | Inr target \<Rightarrow>
          (if int (length signs) < t_targetCount target then Inl errSignCountErr
           else
             (let verifiedSigns = verifySigns cr reader signHash signs stocks blockHash mapMake
              in if int (mapLen verifiedSigns) < t_targetCount target then Inl errSignCountErr
                 else verifyDPOS verifiedSigns target)))"

definition VerifyHashWithBlock ::
  "Config \<Rightarrow> Crypto \<Rightarrow> StateReader \<Rightarrow> hash \<Rightarrow> signature list \<Rightarrow> hash \<Rightarrow> error + signature list" where
  "VerifyHashWithBlock md cr reader signHash signs blockHash =
     (case getValidatorStocks reader blockHash of
        Inl e \<Rightarrow> Inl e
      | Inr stocks \<Rightarrow> VerifyHashWithStocks md cr reader signHash signs stocks blockHash)"

definition VerifyHash :: "Config \<Rightarrow> Crypto \<Rightarrow> StateReader \<Rightarrow> hash \<Rightarrow> signature list \<Rightarrow> error + signature list" where
  "VerifyHash md cr reader signHash signs =
     VerifyHashWithBlock md cr reader signHash signs (sr_GetCurrentHash reader)"

definition VerifyHashWithVerifiedSignsAndBlock ::
  "Config \<Rightarrow> StateReader \<Rightarrow> VerifiedSign list \<Rightarrow> hash \<Rightarrow> error + signature list" where
  "VerifyHashWithVerifiedSignsAndBlock md reader signs blockHash =
     (case getValidatorStocks reader blockHash of
        Inl e \<Rightarrow> Inl e
      | Inr stocks \<Rightarrow>
          (case calculateDPOSTarget md stocks of
             Inl e \<Rightarrow> Inl e
           | Inr target \<Rightarrow>
               (if int (length signs) < t_targetCount target then Inl errSignCountErr
                else
                  (let verifiedSigns = parseVerifiedSigns signs stocks mapMake
                   in if int (mapLen verifiedSigns) < t_targetCount target then Inl errSignCountErr
                      else verifyDPOS verifiedSigns target))))"

definition VerifyHashWithVerifiedSigns ::
  "Config \<Rightarrow> StateReader \<Rightarrow> VerifiedSign list \<Rightarrow> error + signature list" where
  "VerifyHashWithVerifiedSigns md reader signs =
     VerifyHashWithVerifiedSignsAndBlock md reader signs (sr_GetCurrentHash reader)"

section \<open>Blocks\<close>

fun verifyHashWithSuperNodes ::
  "Crypto \<Rightarrow> hash \<Rightarrow> signature list \<Rightarrow> address list \<Rightarrow> (address, u8) gomap \<Rightarrow> (address, u8) gomap" where
  "verifyHashWithSuperNodes cr h [] superNodes verifiedSigh = verifiedSigh"
| "verifyHashWithSuperNodes cr h (sigh # signatures) superNodes verifiedSigh =
     verifyHashWithSuperNodes cr h signatures superNodes
       (case VerifySignWithValidate cr h sigh of
          (account, validate, err) \<Rightarrow>
            (if err \<noteq> None then verifiedSigh
             else if account \<notin> set superNodes then verifiedSigh
             else if mapGet verifiedSigh account = None then mapSet account 0 verifiedSigh
             else verifiedSigh))"

definition VerifyVersionSigns :: "Config \<Rightarrow> Crypto \<Rightarrow> StateReader \<Rightarrow> Header \<Rightarrow> error + unit" where
  "VerifyVersionSigns md cr reader header =
     (let blockHash = (if Uint64 (h_Number header) = 0 then Hash cr header else h_ParentHash header)
      in case sr_GetVersionSuperAccounts reader blockHash of
           Inr (Some accounts) \<Rightarrow>
             (let targetCount = calcSuperNodeTarget md (length accounts)
              in if int (length (h_VersionSignatures header)) < targetCount then Inl errVersionSignCount
                 else
                   (let verifiedVersion = verifyHashWithSuperNodes cr (bytesToWord (h_Version header) 0)
                          (h_VersionSignatures header) accounts mapMake
                    in if int (mapLen verifiedVersion) < targetCount then Inl errVersionVerifySign else Inr ()))
         | _ \<Rightarrow> Inl (Errorf ''get super version account from state err''))"

definition CheckSuperBlock :: "Config \<Rightarrow> Crypto \<Rightarrow> StateReader \<Rightarrow> Header \<Rightarrow> error + unit" where
  "CheckSuperBlock md cr reader header =
     (case sr_GetBlockSuperAccounts reader (sr_GetCurrentHash reader) of
        Inr (Some accounts) \<Rightarrow>
          (let targetCount = calcSuperNodeTarget md (length accounts)
           in if int (length (h_Signatures header)) < targetCount then Inl errSuperBlockSignCount
              else
                (let verifiedSigh = verifyHashWithSuperNodes cr (HashNoSigns cr header)
                       (h_Signatures header) accounts mapMake
                 in if int (mapLen verifiedSigh) < targetCount then Inl errSuperBlockVerifySign else Inr ()))
      | _ \<Rightarrow> Inl (Errorf ''get super block account from state err''))"

definition verifyBroadcastBlock :: "Crypto \<Rightarrow> StateReader \<Rightarrow> Header \<Rightarrow> error + unit" where
  "verifyBroadcastBlock cr reader header =
     (if length (h_Signatures header) \<noteq> 1 then Inl errBroadcastSignCount
      else (case VerifySignWithValidate cr (HashNoSignsAndNonce cr header) (h_Signatures header ! 0) of
              (from, result, err) \<Rightarrow>
                (case err of
                   Some e \<Rightarrow> Inl e
                 | None \<Rightarrow>
                     (if from \<noteq> h_Leader header then Inl (Errorf ''sign account is not block leader'')
                      else if \<not> result then Inl errBroadcastVerifySignFalse
                      else (case sr_GetBroadcastAccounts reader (h_ParentHash header) of
                              Inl e \<Rightarrow> Inl (Errorf ''get broadcast account from state err'')
                            | Inr broadcasts \<Rightarrow>
                                (if length broadcasts = 0 then Inl (Errorf ''get broadcast account from state err'')
                                 else if from \<in> set broadcasts then Inr ()
                                 else Inl errBroadcastVerifySign))))))"

text \<open>\<open>None\<close> is the division by zero of a broadcast interval of 0.\<close>

definition VerifyBlock :: "Config \<Rightarrow> Crypto \<Rightarrow> StateReader \<Rightarrow> Header option \<Rightarrow> (error + unit) option" where
  "VerifyBlock md cr reader hdr =
     (case hdr of
        None \<Rightarrow> Some (Inl (Errorf ''header is nil''))
      | Some header \<Rightarrow>
          (case VerifyVersionSigns md cr reader header of
             Inl e \<Rightarrow> Some (Inl e)
           | Inr _ \<Rightarrow>
               (if IsSuperHeader header then Some (CheckSuperBlock md cr reader header)
                else (case sr_GetBroadcastIntervalByHash reader (h_ParentHash header) of
                        Inl e \<Rightarrow> Some (Inl (Errorf ''get broadcast interval from reader err''))
                      | Inr bcInterval \<Rightarrow>
                          do { b \<leftarrow> IsBroadcastNumber bcInterval (Uint64 (h_Number header));
                               if b then Some (verifyBroadcastBlock cr reader header)
                               else (case getValidatorStocks reader (h_ParentHash header) of
                                       Inl e \<Rightarrow> Some (Inl e)
                                     | Inr stocks \<Rightarrow>
                                         Some (map_sum id (\<lambda>_. ())
                                           (VerifyHashWithStocks md cr reader (HashNoSignsAndNonce cr header)
                                              (h_Signatures header) stocks (h_ParentHash header)))) }))))"

section \<open>The target is more than two thirds\<close>

lemma bitLength_0 [simp]: "bitLength 0 = 0"
  by (simp add: bitLength.simps [of 0])

lemma bitLength_bounds: "n \<noteq> 0 \<Longrightarrow> 2 ^ (bitLength n - 1) \<le> n \<and> n < 2 ^ bitLength n"
proof (induction n rule: bitLength.induct)
  case (1 n)
  show ?case
  proof (cases "n div 2 = 0")
    case True
    then have "n = 1" using "1.prems" by auto
    then show ?thesis by (simp add: bitLength.simps [of "Suc 0"])
  next
    case False
    have l: "bitLength n = Suc (bitLength (n div 2))" using "1.prems" by (simp add: bitLength.simps [of n])
    have k: "bitLength (n div 2) = Suc (bitLength (n div 2 div 2))" using False by (simp add: bitLength.simps [of "n div 2"])
    from "1.IH" False "1.prems" have "2 ^ (bitLength (n div 2) - 1) \<le> n div 2" "n div 2 < 2 ^ bitLength (n div 2)" by auto
    moreover have "2 * (n div 2) \<le> n" "n < 2 * (n div 2) + 2" by simp_all
    ultimately show ?thesis unfolding l k by simp
  qed
qed

lemma round53_exact: "n < 2 ^ 53 \<Longrightarrow> round53 n = n"
proof (cases "n = 0")
  case False
  assume "n < 2 ^ 53"
  have "(2 :: nat) ^ (bitLength n - 1) < 2 ^ 53"
    using bitLength_bounds [OF False] \<open>n < 2 ^ 53\<close> by linarith
  then have "bitLength n - 1 < 53" by (rule power_less_imp_less_exp [rotated]) simp
  then show ?thesis by (simp add: round53_def)
qed (simp add: round53_def)

text \<open>The rounding error is at most half a unit in the last place.\<close>

lemma round53_error:
  "2 ^ 53 * round53 n \<le> 2 ^ 53 * n + n" "2 ^ 53 * n \<le> 2 ^ 53 * round53 n + n"
proof -
  define s where "s = bitLength n - 53"
  define q where "q = n div 2 ^ s"
  define r where "r = n mod 2 ^ s"
  have n: "n = q * 2 ^ s + r" "r < 2 ^ s" by (simp_all only: q_def r_def div_mult_mod_eq) simp
  have "2 ^ 53 * round53 n \<le> 2 ^ 53 * n + n \<and> 2 ^ 53 * n \<le> 2 ^ 53 * round53 n + n"
  proof (cases "s = 0")
    case True
    then show ?thesis by (simp add: round53_def s_def)
  next
    case False
    then have "n \<noteq> 0" by (cases "n = 0") (simp_all add: s_def)
    from bitLength_bounds [OF this] have "2 ^ (bitLength n - 1) \<le> n" by simp
    moreover have "bitLength n - 1 = 52 + s" using False by (simp add: s_def)
    ultimately have "2 ^ 52 * 2 ^ s \<le> n" by (simp add: power_add)
    moreover have "round53 n = (if 2 * r > 2 ^ s \<or> 2 * r = 2 ^ s \<and> odd q then q * 2 ^ s + 2 ^ s else q * 2 ^ s)"
      using False by (simp add: round53_def s_def [symmetric] q_def [symmetric] r_def [symmetric] Let_def)
    ultimately show ?thesis using n by (auto split: if_splits)
  qed
  then show "2 ^ 53 * round53 n \<le> 2 ^ 53 * n + n" and "2 ^ 53 * n \<le> 2 ^ 53 * round53 n + n" by simp_all
qed

lemma ceilMul_two_thirds:
  assumes "0 < n" "n < 2 ^ 53"
  shows "2 * n < 3 * ceilMul n 6004829527158177" and "ceilMul n 6004829527158177 \<le> n"
proof -
  define x where "x = round53 (n * 6004829527158177)"
  have c: "ceilMul n 6004829527158177 = (x + (2 ^ 53 - 1)) div 2 ^ 53"
    using round53_exact [OF assms(2)] by (simp add: ceilMul_def x_def)
  have e: "2 ^ 53 * x \<le> 2 ^ 53 * (n * 6004829527158177) + n * 6004829527158177"
    "2 ^ 53 * (n * 6004829527158177) \<le> 2 ^ 53 * x + n * 6004829527158177"
    unfolding x_def by (rule round53_error(1), rule round53_error(2))
  have "x \<le> ceilMul n 6004829527158177 * 2 ^ 53" unfolding c
    using div_mult_mod_eq [of "x + (2 ^ 53 - 1)" "2 ^ 53"] mod_less_divisor [of "2 ^ 53" "x + (2 ^ 53 - 1)"] by simp
  then show "2 * n < 3 * ceilMul n 6004829527158177" using e(2) assms(1) by simp
  have "x \<le> n * 2 ^ 53" using e(1) by simp
  then have "x + (2 ^ 53 - 1) < (n + 1) * 2 ^ 53" by simp
  then have "(x + (2 ^ 53 - 1)) div 2 ^ 53 < n + 1" by (intro less_mult_imp_div_less)
  then show "ceilMul n 6004829527158177 \<le> n" unfolding c by simp
qed

definition targetCount :: "nat \<Rightarrow> nat" where
  "targetCount n = (if n \<le> 7 then n else ceilMul n 6004829527158177)"

lemma targetCount_bounds:
  assumes "0 < n" "n < 2 ^ 53"
  shows "2 * n < 3 * targetCount n" and "targetCount n \<le> n"
  using ceilMul_two_thirds [OF assms] assms(1) by (simp_all add: targetCount_def)

section \<open>The votes of a list of signatures\<close>

text \<open>
  A vote: the signature, the validator it counts for, the verdict and the validator's stock.  The
  collecting loops record the votes of the list one after the other.
\<close>

type_synonym vote = "signature \<times> address \<times> bool \<times> u16"

fun castVote :: "Crypto \<Rightarrow> StateReader \<Rightarrow> hash \<Rightarrow> stocks \<Rightarrow> hash \<Rightarrow> signature \<Rightarrow> vote list" where
  "castVote cr reader signHash stocks blockHash sign =
     (case VerifySignWithValidate cr signHash sign of
        (signAccount, signValidate, Some e) \<Rightarrow> []
      | (signAccount, signValidate, None) \<Rightarrow>
          (case sr_GetA0AccountFromAnyAccount reader signAccount blockHash of
             Inl e \<Rightarrow> []
           | Inr (accountA0, a1) \<Rightarrow>
               (case mapGet stocks accountA0 of
                  None \<Rightarrow> []
                | Some stock \<Rightarrow> [(sign, accountA0, signValidate, stock)])))"

definition castVotes :: "Crypto \<Rightarrow> StateReader \<Rightarrow> hash \<Rightarrow> signature list \<Rightarrow> stocks \<Rightarrow> hash \<Rightarrow> vote list" where
  "castVotes cr reader signHash signs stocks blockHash =
     concat (map (castVote cr reader signHash stocks blockHash) signs)"

definition parsedVotes :: "VerifiedSign list \<Rightarrow> stocks \<Rightarrow> vote list" where
  "parsedVotes signs stocks =
     concat (map (\<lambda>s. case mapGet stocks (vs_Account s) of
                        None \<Rightarrow> []
                      | Some stock \<Rightarrow> [(vs_Sign s, vs_Account s, vs_Validate s, stock)]) signs)"

definition recordVotes :: "vote list \<Rightarrow> (address, VerifiedSign) gomap \<Rightarrow> (address, VerifiedSign) gomap" where
  "recordVotes = fold (\<lambda>(s, a, v, st). recordVote s a v st)"

lemma verifySigns_votes:
  "verifySigns cr reader h signs stocks bh acc = recordVotes (castVotes cr reader h signs stocks bh) acc"
  by (induction signs arbitrary: acc)
    (simp_all add: castVotes_def recordVotes_def split: prod.splits option.splits sum.splits)

lemma parseVerifiedSigns_votes:
  "parseVerifiedSigns signs stocks acc = recordVotes (parsedVotes signs stocks) acc"
  by (induction signs arbitrary: acc) (simp_all add: parsedVotes_def recordVotes_def split: option.splits)

definition approvers :: "vote list \<Rightarrow> address set" where
  "approvers votes = (\<lambda>(s, a, v, st). a) ` set (filter (\<lambda>(s, a, v, st). v) votes)"

lemma approvers_iff: "a \<in> approvers votes \<longleftrightarrow> (\<exists>s st. (s, a, True, st) \<in> set votes)"
  by (force simp: approvers_def)

lemma finite_approvers [simp]: "finite (approvers votes)"
  by (simp add: approvers_def)

text \<open>What the map of votes holds after a list of votes: one entry per voter, and an approval wherever
  the voter approved once.\<close>

definition tallies :: "vote list \<Rightarrow> (address, VerifiedSign) gomap \<Rightarrow> bool" where
  "tallies votes m \<longleftrightarrow> mapOK m
     \<and> (\<forall>a e. mapGet m a = Some e \<longrightarrow> vs_Account e = a
          \<and> (vs_Sign e, a, vs_Validate e, vs_Stock e) \<in> set votes)
     \<and> (\<forall>a \<in> approvers votes. \<exists>e. mapGet m a = Some e \<and> vs_Validate e)"

lemma tallies_recordVote:
  assumes "tallies votes m"
  shows "tallies (votes @ [(s, a, v, st)]) (recordVote s a v st m)"
proof -
  have ok: "mapOK m" using assms by (simp add: tallies_def)
  have ap: "b \<in> approvers (votes @ [(s, a, v, st)]) \<longleftrightarrow> b \<in> approvers votes \<or> b = a \<and> v" for b
    by (auto simp: approvers_def)
  show ?thesis
  proof (cases "mapGet m a")
    case None
    then have "a \<notin> approvers votes" using assms by (force simp: tallies_def)
    then show ?thesis using None assms ok ap by (auto simp: tallies_def recordVote_def map_specs)
  next
    case (Some e)
    then show ?thesis using assms ok ap by (auto simp: tallies_def recordVote_def map_specs)
  qed
qed

lemma tallies_recordVotes: "tallies votes0 m \<Longrightarrow> tallies (votes0 @ votes) (recordVotes votes m)"
proof (induction votes arbitrary: votes0 m)
  case (Cons x votes)
  obtain s a v st where x: "x = (s, a, v, st)" by (cases x)
  have "tallies ((votes0 @ [x]) @ votes) (recordVotes votes (recordVote s a v st m))"
    unfolding x using Cons.prems by (intro Cons.IH tallies_recordVote)
  then show ?case by (simp add: recordVotes_def x)
qed (simp add: recordVotes_def)

lemma tallies_all: "tallies votes (recordVotes votes mapMake)"
  using tallies_recordVotes [of "[]" mapMake votes] by (simp add: tallies_def map_specs approvers_def)

section \<open>The verdict depends on the totals only\<close>

abbreviation agreeing :: "VerifiedSign list \<Rightarrow> VerifiedSign list" where
  "agreeing xs \<equiv> filter vs_Validate xs"

abbreviation rejecting :: "VerifiedSign list \<Rightarrow> VerifiedSign list" where
  "rejecting xs \<equiv> filter (\<lambda>x. \<not> vs_Validate x) xs"

definition stockSum :: "VerifiedSign list \<Rightarrow> nat" where
  "stockSum xs = sum_list (map (\<lambda>x. unat (vs_Stock x)) xs)"

lemma stockSum_simps [simp]: "stockSum [] = 0" "stockSum (x # xs) = unat (vs_Stock x) + stockSum xs"
  by (simp_all add: stockSum_def)

lemma stockSum_split: "stockSum xs = stockSum (agreeing xs) + stockSum (rejecting xs)"
  by (induction xs) auto

lemma unat_add_stock: "unat s + unat (st :: u16) < 2 ^ 64 \<Longrightarrow> unat (s + ucast st :: u64) = unat s + unat st"
  by (simp add: unat_word_ariths unat_ucast_u64)

definition accepts :: "VerifiedSign list \<Rightarrow> dposTarget \<Rightarrow> bool" where
  "accepts xs target \<longleftrightarrow>
     (rejecting xs \<noteq> [] \<longrightarrow> int (length (rejecting xs)) \<le> t_maxDisagreeCount target
        \<and> stockSum (rejecting xs) \<le> unat (t_maxDisagreeStock target))
     \<and> t_targetCount target \<le> int (length (agreeing xs))
     \<and> unat (t_targetStock target) \<le> stockSum (agreeing xs)"

lemma verifyDPOSLoop_OK:
  assumes "unat as + stockSum (agreeing xs) < 2 ^ 64" "unat ds + stockSum (rejecting xs) < 2 ^ 64"
  shows "(case verifyDPOSLoop xs t ac dc as ds rs of
      Inl e \<Rightarrow> rejecting xs \<noteq> [] \<and> \<not> (dc + int (length (rejecting xs)) \<le> t_maxDisagreeCount t
        \<and> unat ds + stockSum (rejecting xs) \<le> unat (t_maxDisagreeStock t))
    | Inr (ac', as', rs') \<Rightarrow> ac' = ac + int (length (agreeing xs)) \<and> unat as' = unat as + stockSum (agreeing xs)
        \<and> rs' = rs @ map vs_Sign (agreeing xs)
        \<and> (rejecting xs \<noteq> [] \<longrightarrow> dc + int (length (rejecting xs)) \<le> t_maxDisagreeCount t
          \<and> unat ds + stockSum (rejecting xs) \<le> unat (t_maxDisagreeStock t)))"
  using assms
proof (induction xs arbitrary: ac dc as ds rs)
  case (Cons x xs)
  show ?case
  proof (cases "vs_Validate x")
    case True
    have u: "unat (as + ucast (vs_Stock x)) = unat as + unat (vs_Stock x)"
      using Cons.prems(1) True by (intro unat_add_stock) simp
    show ?thesis
      using Cons.IH [where as = "as + ucast (vs_Stock x)" and ds = ds and ac = "ac + 1" and dc = dc
        and rs = "rs @ [vs_Sign x]"] Cons.prems True
      by (auto simp: u add.assoc split: sum.splits prod.splits)
  next
    case False
    have u: "unat (ds + ucast (vs_Stock x)) = unat ds + unat (vs_Stock x)"
      using Cons.prems(2) False by (intro unat_add_stock) simp
    have l: "0 \<le> int (length (rejecting xs))" "0 \<le> stockSum (rejecting xs)" by simp_all
    show ?thesis
      using Cons.IH [where as = as and ds = "ds + ucast (vs_Stock x)" and ac = ac and dc = "dc + 1" and rs = rs] Cons.prems False l
      by (cases "rejecting xs = []") (auto simp: u word_less_nat_alt Let_def split: sum.splits)
  qed
qed simp

lemma verifyDPOS_accepts:
  assumes "stockSum (map snd m) < 2 ^ 64"
  shows "verifyDPOS m t = Inr rs \<longleftrightarrow> accepts (map snd m) t \<and> rs = map vs_Sign (agreeing (map snd m))"
  using assms verifyDPOSLoop_OK [where xs = "map snd m" and as = 0 and ds = 0 and t = t and ac = 0 and dc = 0 and rs = "[]"] stockSum_split [of "map snd m"]
  by (auto simp: verifyDPOS_def accepts_def word_less_nat_alt split: sum.splits if_splits)

section \<open>Counting approvers\<close>

lemma length_filter_map:
  assumes "mapOK m"
  shows "length (filter P (map snd m)) = card {a. \<exists>e. mapGet m a = Some e \<and> P e}"
proof -
  have "{a. \<exists>e. mapGet m a = Some e \<and> P e} = set (map fst (filter (P \<circ> snd) m))"
    using assms by (force simp: mapGet_def mapOK_def)
  moreover have "distinct (map fst (filter (P \<circ> snd) m))"
    using assms by (simp add: mapOK_def distinct_map_filter)
  ultimately have "card {a. \<exists>e. mapGet m a = Some e \<and> P e} = length (map fst (filter (P \<circ> snd) m))"
    by (simp only: distinct_card)
  then show ?thesis by (simp add: filter_map)
qed

lemma sum_map_values:
  assumes "mapOK m"
  shows "sum_list (map (\<lambda>p. f (fst p) (snd p)) m) = (\<Sum>a \<in> dom (mapGet m). f a (the (mapGet m a)))"
proof -
  have d: "distinct m" "inj_on fst (set m)" using assms by (auto simp: mapOK_def distinct_map)
  have "sum_list (map (\<lambda>p. f (fst p) (snd p)) m) = (\<Sum>p \<in> set m. f (fst p) (snd p))"
    using d by (simp add: sum_list_distinct_conv_sum_set)
  also have "\<dots> = (\<Sum>p \<in> set m. f (fst p) (the (mapGet m (fst p))))"
    using assms by (intro sum.cong) (auto simp: mapGet_def mapOK_def)
  also have "\<dots> = (\<Sum>a \<in> fst ` set m. f a (the (mapGet m a)))"
    using d by (simp add: sum.reindex)
  also have "fst ` set m = dom (mapGet m)"
    by (simp add: dom_map_of_conv_image_fst mapGet_def [abs_def])
  finally show ?thesis .
qed

lemma length_mapLen: "length m = mapLen m"
  by (simp add: mapLen_def)

text \<open>Votes of validators: the stock is the one of the stock map.\<close>

definition votesIn :: "stocks \<Rightarrow> vote list \<Rightarrow> bool" where
  "votesIn stocks votes \<longleftrightarrow> (\<forall>(s, a, v, st) \<in> set votes. mapGet stocks a = Some st)"

lemma castVotes_in: "votesIn stocks (castVotes cr reader h signs stocks bh)"
  by (auto simp: votesIn_def castVotes_def split: prod.splits option.splits sum.splits)

lemma parsedVotes_in: "votesIn stocks (parsedVotes signs stocks)"
  by (auto simp: votesIn_def parsedVotes_def split: option.splits)

definition tallyOK :: "stocks \<Rightarrow> vote list \<Rightarrow> (address, VerifiedSign) gomap \<Rightarrow> bool" where
  "tallyOK stocks votes m \<longleftrightarrow> mapOK stocks \<and> mapLen stocks < 2 ^ 48 \<and> tallies votes m \<and> votesIn stocks votes"

definition totalOf :: "stocks \<Rightarrow> nat" where
  "totalOf stocks = (\<Sum>a \<in> dom (mapGet stocks). unat (the (mapGet stocks a)))"

lemma tally_ok: "tallyOK stocks votes m \<Longrightarrow> mapOK m"
  by (simp add: tallyOK_def tallies_def)

lemma tallies_entry: "tallies votes m \<Longrightarrow> mapGet m a = Some e \<Longrightarrow> (vs_Sign e, a, vs_Validate e, vs_Stock e) \<in> set votes"
  by (simp add: tallies_def)

lemma votesIn_entry: "votesIn stocks votes \<Longrightarrow> (s, a, v, st) \<in> set votes \<Longrightarrow> mapGet stocks a = Some st"
  by (auto simp: votesIn_def)

lemma tally_stock: "tallyOK stocks votes m \<Longrightarrow> mapGet m a = Some e \<Longrightarrow> mapGet stocks a = Some (vs_Stock e)"
  unfolding tallyOK_def using tallies_entry votesIn_entry by blast

lemma tally_dom: "tallyOK stocks votes m \<Longrightarrow> dom (mapGet m) \<subseteq> dom (mapGet stocks)"
  using tally_stock by blast

lemma finite_stocks: "mapOK stocks \<Longrightarrow> finite (dom (mapGet stocks)) \<and> card (dom (mapGet stocks)) = mapLen stocks"
  using alist.len_keys [of stocks] by simp

lemma agreeing_approvers:
  assumes "tallyOK stocks votes m"
  shows "length (agreeing (map snd m)) = card (approvers votes)"
proof -
  have t: "tallies votes m" using assms by (simp add: tallyOK_def)
  have "a \<in> approvers votes" if "mapGet m a = Some e" "vs_Validate e" for a e
  proof -
    have "(vs_Sign e, a, True, vs_Stock e) \<in> set votes" using tallies_entry [OF t that(1)] that(2) by simp
    then show ?thesis unfolding approvers_iff by blast
  qed
  moreover have "\<exists>e. mapGet m a = Some e \<and> vs_Validate e" if "a \<in> approvers votes" for a
    using t that by (simp add: tallies_def)
  ultimately have "{a. \<exists>e. mapGet m a = Some e \<and> vs_Validate e} = approvers votes" by blast
  then show ?thesis using length_filter_map [OF tally_ok [OF assms]] by simp
qed

lemma votes_le:
  assumes "tallyOK stocks votes m"
  shows "length (agreeing (map snd m)) + length (rejecting (map snd m)) = mapLen m" "mapLen m \<le> mapLen stocks"
proof -
  show "length (agreeing (map snd m)) + length (rejecting (map snd m)) = mapLen m"
    using sum_length_filter_compl [of vs_Validate "map snd m"] by (simp add: mapLen_def)
  have "mapOK stocks" using assms by (simp add: tallyOK_def)
  from finite_stocks [OF this] alist.len_le_of_keys [OF tally_ok [OF assms] _ tally_dom [OF assms]]
  show "mapLen m \<le> mapLen stocks" by simp
qed

lemma totalOf_bound:
  assumes "mapOK stocks" "mapLen stocks < 2 ^ 48"
  shows "totalOf stocks < 2 ^ 64"
proof -
  have "totalOf stocks \<le> (\<Sum>a \<in> dom (mapGet stocks). 2 ^ 16)"
    unfolding totalOf_def
  proof (rule sum_mono)
    fix a show "unat (the (mapGet stocks a)) \<le> 2 ^ 16"
      using unsigned_less [of "the (mapGet stocks a)", where ?'a = nat] by simp
  qed
  also have "\<dots> < 2 ^ 64" using finite_stocks [OF assms(1)] assms(2) by simp
  finally show ?thesis .
qed

lemma stockSum_m:
  assumes "tallyOK stocks votes m"
  shows "stockSum (map snd m) = (\<Sum>a \<in> dom (mapGet m). unat (the (mapGet stocks a)))"
proof -
  have "stockSum (map snd m) = (\<Sum>a \<in> dom (mapGet m). unat (vs_Stock (the (mapGet m a))))"
    using sum_map_values [OF tally_ok [OF assms], of "\<lambda>a e. unat (vs_Stock e)"] by (simp add: stockSum_def comp_def)
  also have "\<dots> = (\<Sum>a \<in> dom (mapGet m). unat (the (mapGet stocks a)))"
    using tally_stock [OF assms] by (intro sum.cong) auto
  finally show ?thesis .
qed

lemma stockSum_le:
  assumes "tallyOK stocks votes m"
  shows "stockSum (map snd m) \<le> totalOf stocks"
  unfolding stockSum_m [OF assms] totalOf_def
  using finite_stocks [of stocks] tally_dom [OF assms] assms by (intro sum_mono2) (auto simp: tallyOK_def)

lemma stockSum_all:
  assumes "tallyOK stocks votes m" "mapLen m = mapLen stocks"
  shows "stockSum (map snd m) = totalOf stocks"
proof -
  have "mapOK stocks" using assms by (simp add: tallyOK_def)
  then have "dom (mapGet m) = dom (mapGet stocks)"
    using card_subset_eq [OF _ tally_dom [OF assms(1)]] finite_stocks [of stocks]
      alist.len_keys [OF tally_ok [OF assms(1)]] assms(2) by simp
  then show ?thesis unfolding stockSum_m [OF assms(1)] totalOf_def by simp
qed

lemma unat_sum_list:
  "sum_list (map (\<lambda>p. unat (snd p :: u16)) xs) < 2 ^ 64
   \<Longrightarrow> unat (sum_list (map (\<lambda>(a, st). ucast st) xs) :: u64) = sum_list (map (\<lambda>p. unat (snd p)) xs)"
  by (induction xs) (auto simp: unat_word_ariths unat_ucast_u64)

lemma totalStock_exact:
  assumes "mapOK stocks" "mapLen stocks < 2 ^ 48"
  shows "unat (sum_list (map (\<lambda>(a, st). ucast st) stocks) :: u64) = totalOf stocks"
  using totalOf_bound [OF assms] sum_map_values [OF assms(1), of "\<lambda>a st. unat st"] unat_sum_list [of stocks]
  by (simp add: totalOf_def)

section \<open>The verdict is the count of approvers\<close>

lemma round53_0 [simp]: "round53 0 = 0"
  by (simp add: round53_def)

lemma NewMtxDPOS_config [simp]:
  "c_TargetSignCountRatio (NewMtxDPOS b) = 6004829527158177" "c_TargetStockRatio (NewMtxDPOS b) = 0"
  "c_FullSignThreshold (NewMtxDPOS b) = 7" "c_SuperNodeFullSignThreshold (NewMtxDPOS b) = 3"
  by (simp_all add: NewMtxDPOS_def defaultConfig_def simpleConfig_def)

lemma calculateDPOSTarget_cases:
  "calculateDPOSTarget (NewMtxDPOS b) stocks =
     (if int (mapLen stocks) < c_MinStockCount (NewMtxDPOS b) then Inl errStockCountErr
      else (let total = sum_list (map (\<lambda>(a, stock). ucast stock) stocks) :: u64;
                ts = (if mapLen stocks \<le> 7 then total else 0)
            in Inr \<lparr>t_totalCount = int (mapLen stocks), t_totalStock = total,
                    t_targetCount = int (targetCount (mapLen stocks)), t_targetStock = ts,
                    t_maxDisagreeCount = int (mapLen stocks) - int (targetCount (mapLen stocks)),
                    t_maxDisagreeStock = total - ts\<rparr>))"
  by (simp add: calculateDPOSTarget_def targetCount_def ceilMul_def Let_def)

lemma accepts_approvers:
  assumes "tallyOK stocks votes m" "calculateDPOSTarget (NewMtxDPOS b) stocks = Inr t"
  shows "accepts (map snd m) t \<longleftrightarrow> targetCount (mapLen stocks) \<le> card (approvers votes)"
proof -
  define xs where "xs = map snd m"
  have ok: "mapOK stocks" "mapLen stocks < 2 ^ 48" using assms(1) by (simp_all add: tallyOK_def)
  note ag = agreeing_approvers [OF assms(1), folded xs_def] and vl = votes_le [OF assms(1), folded xs_def]
  note ts = totalStock_exact [OF ok] and sl = stockSum_le [OF assms(1), folded xs_def]
  note sp = stockSum_split [of xs] and sa = stockSum_all [OF assms(1), folded xs_def]
  note td = assms(2) [unfolded calculateDPOSTarget_cases Let_def]
  have t: "t_targetCount t = int (targetCount (mapLen stocks))"
    "t_maxDisagreeCount t = int (mapLen stocks) - int (targetCount (mapLen stocks))"
    "unat (t_targetStock t) = (if mapLen stocks \<le> 7 then totalOf stocks else 0)"
    "unat (t_maxDisagreeStock t) = (if mapLen stocks \<le> 7 then 0 else totalOf stocks)"
    using td ts by (auto split: if_splits)
  have "accepts xs t \<longleftrightarrow> targetCount (mapLen stocks) \<le> length (agreeing xs)"
  proof
    assume k: "targetCount (mapLen stocks) \<le> length (agreeing xs)"
    show "accepts xs t"
    proof (cases "mapLen stocks \<le> 7")
      case True
      then have "targetCount (mapLen stocks) = mapLen stocks" by (simp add: targetCount_def)
      then have "length (rejecting xs) = 0" "mapLen m = mapLen stocks" using k vl by linarith+
      then show ?thesis using True k sa sp t by (simp add: accepts_def)
    next
      case False
      then show ?thesis using k vl sl sp t by (auto simp: accepts_def)
    qed
  qed (use t in \<open>simp add: accepts_def\<close>)
  then have "accepts xs t \<longleftrightarrow> targetCount (mapLen stocks) \<le> card (approvers votes)" by (simp only: ag)
  then show ?thesis by (simp only: xs_def)
qed

lemma verifyDPOS_approvers:
  assumes "tallyOK stocks votes m" "calculateDPOSTarget (NewMtxDPOS b) stocks = Inr t"
  shows "(\<exists>rs. verifyDPOS m t = Inr rs) \<longleftrightarrow> targetCount (mapLen stocks) \<le> card (approvers votes)"
proof -
  have "stockSum (map snd m) < 2 ^ 64"
    using stockSum_le [OF assms(1)] totalOf_bound [of stocks] assms(1) by (simp add: tallyOK_def)
  then show ?thesis using verifyDPOS_accepts [of m t] accepts_approvers [OF assms] by auto
qed

lemma approvers_le_votes: "card (approvers votes) \<le> length votes"
  unfolding approvers_def
  by (rule order_trans [OF card_image_le order_trans [OF card_length length_filter_le]]) simp

lemma castVotes_le: "length (castVotes cr reader h signs stocks bh) \<le> length signs"
  by (induction signs) (auto simp: castVotes_def split: prod.splits option.splits sum.splits)

lemma parsedVotes_le: "length (parsedVotes signs stocks) \<le> length signs"
  by (induction signs) (auto simp: parsedVotes_def split: option.splits)

text \<open>The engine after the votes are collected: the two size checks and the count.\<close>

definition verdict :: "Config \<Rightarrow> stocks \<Rightarrow> nat \<Rightarrow> vote list \<Rightarrow> error + signature list" where
  "verdict md stocks n votes =
     (case calculateDPOSTarget md stocks of
        Inl e \<Rightarrow> Inl e
      | Inr target \<Rightarrow>
          (if int n < t_targetCount target then Inl errSignCountErr
           else (let verifiedSigns = recordVotes votes mapMake
                 in if int (mapLen verifiedSigns) < t_targetCount target then Inl errSignCountErr
                    else verifyDPOS verifiedSigns target)))"

lemma VerifyHashWithStocks_verdict:
  "VerifyHashWithStocks md cr reader h signs stocks bh
   = verdict md stocks (length signs) (castVotes cr reader h signs stocks bh)"
  unfolding VerifyHashWithStocks_def verdict_def verifySigns_votes ..

lemma VerifyHashWithVerifiedSignsAndBlock_verdict:
  "getValidatorStocks reader bh = Inr stocks \<Longrightarrow> VerifyHashWithVerifiedSignsAndBlock md reader signs bh
   = verdict md stocks (length signs) (parsedVotes signs stocks)"
  unfolding VerifyHashWithVerifiedSignsAndBlock_def verdict_def parseVerifiedSigns_votes by simp

lemma verdict_approvers:
  assumes "mapOK stocks" "mapLen stocks < 2 ^ 48" "votesIn stocks votes" "length votes \<le> n"
  shows "(\<exists>rs. verdict (NewMtxDPOS b) stocks n votes = Inr rs)
    \<longleftrightarrow> c_MinStockCount (NewMtxDPOS b) \<le> int (mapLen stocks)
        \<and> targetCount (mapLen stocks) \<le> card (approvers votes)"
proof (cases "calculateDPOSTarget (NewMtxDPOS b) stocks")
  case (Inl e)
  then show ?thesis by (auto simp: verdict_def calculateDPOSTarget_cases Let_def split: if_splits)
next
  case (Inr t)
  have tal: "tallyOK stocks votes (recordVotes votes mapMake)"
    using assms tallies_all by (simp add: tallyOK_def)
  have t: "t_targetCount t = int (targetCount (mapLen stocks))" "c_MinStockCount (NewMtxDPOS b) \<le> int (mapLen stocks)"
    using Inr by (auto simp: calculateDPOSTarget_cases Let_def split: if_splits)
  have le: "card (approvers votes) \<le> n" "card (approvers votes) \<le> mapLen (recordVotes votes mapMake)"
    using approvers_le_votes [of votes] assms(4) agreeing_approvers [OF tal] votes_le(1) [OF tal] by linarith+
  show ?thesis using verifyDPOS_approvers [OF tal Inr] Inr t le by (auto simp: verdict_def Let_def)
qed

text \<open>The signatures an accepted vote returns: one of each approver, all of them approvals.\<close>

lemma verdict_signs:
  assumes "mapOK stocks" "mapLen stocks < 2 ^ 48" "votesIn stocks votes" "verdict (NewMtxDPOS b) stocks n votes = Inr rs"
  shows "length rs = card (approvers votes)" "\<forall>s \<in> set rs. \<exists>a st. (s, a, True, st) \<in> set votes"
proof -
  let ?m = "recordVotes votes mapMake"
  have tal: "tallyOK stocks votes ?m" using assms tallies_all by (simp add: tallyOK_def)
  have "stockSum (map snd ?m) < 2 ^ 64"
    using stockSum_le [OF tal] totalOf_bound [of stocks] assms(1,2) by simp
  moreover obtain t where "verifyDPOS ?m t = Inr rs"
    using assms(4) by (auto simp: verdict_def Let_def split: sum.splits if_splits)
  ultimately have rs: "rs = map vs_Sign (agreeing (map snd ?m))" using verifyDPOS_accepts by blast
  then show "length rs = card (approvers votes)" using agreeing_approvers [OF tal] by simp
  have "(vs_Sign e, a, True, vs_Stock e) \<in> set votes" if "(a, e) \<in> set ?m" "vs_Validate e" for a e
    using tallies_entry [of votes ?m a e] tallies_all [of votes] that tally_ok [OF tal]
    by (simp add: mapGet_def mapOK_def)
  then show "\<forall>s \<in> set rs. \<exists>a st. (s, a, True, st) \<in> set votes" unfolding rs by fastforce
qed

lemma verdict_signs_of:
  assumes "mapOK stocks" "mapLen stocks < 2 ^ 48" "votesIn stocks votes" "verdict (NewMtxDPOS b) stocks n votes = Inr rs"
    and "a \<in> approvers votes"
  shows "\<exists>s \<in> set rs. \<exists>st. (s, a, True, st) \<in> set votes"
proof -
  let ?m = "recordVotes votes mapMake"
  have tal: "tallyOK stocks votes ?m" using assms tallies_all by (simp add: tallyOK_def)
  have "stockSum (map snd ?m) < 2 ^ 64"
    using stockSum_le [OF tal] totalOf_bound [of stocks] assms(1,2) by simp
  moreover obtain t where "verifyDPOS ?m t = Inr rs"
    using assms(4) by (auto simp: verdict_def Let_def split: sum.splits if_splits)
  ultimately have rs: "rs = map vs_Sign (agreeing (map snd ?m))" using verifyDPOS_accepts by blast
  obtain e where e: "mapGet ?m a = Some e" "vs_Validate e"
    using tallies_all [of votes] assms(5) by (auto simp: tallies_def)
  then have "(a, e) \<in> set ?m" by (simp add: mapGet_def map_of_SomeD)
  then have "e \<in> set (agreeing (map snd ?m))" using e(2) by force
  then have "vs_Sign e \<in> set rs" unfolding rs by simp
  moreover have "(vs_Sign e, a, True, vs_Stock e) \<in> set votes"
    using tallies_entry [OF tallies_all e(1)] e(2) by simp
  ultimately show ?thesis by blast
qed

section \<open>Two quorums meet\<close>

text \<open>
  What makes votes safe: a threshold above two thirds of the group.  Then any two groups of
  approvers that reach it share more than a third of the validators, and a set of faulty validators
  of at most a third cannot make both.
\<close>

locale quorum_rule =
  fixes threshold :: "nat \<Rightarrow> nat"
    and sizeOK :: "nat \<Rightarrow> bool"
  assumes two_thirds: "sizeOK n \<Longrightarrow> 2 * n < 3 * threshold n"
    and reachable: "sizeOK n \<Longrightarrow> threshold n \<le> n"
begin

lemma quorums_meet:
  assumes "finite V" "sizeOK (card V)" "A \<subseteq> V" "B \<subseteq> V"
    and "threshold (card V) \<le> card A" "threshold (card V) \<le> card B"
  shows "card V < 3 * card (A \<inter> B)"
proof -
  have f: "finite A" "finite B" using assms finite_subset by blast+
  have "card (A \<union> B) \<le> card V" using assms by (intro card_mono) auto
  moreover have "card A + card B = card (A \<union> B) + card (A \<inter> B)" using f by (rule card_Un_Int)
  ultimately show ?thesis using two_thirds [OF assms(2)] assms(5,6) by linarith
qed

lemma honest_approver:
  assumes "finite V" "sizeOK (card V)" "A \<subseteq> V" "B \<subseteq> V" "F \<subseteq> V"
    and "threshold (card V) \<le> card A" "threshold (card V) \<le> card B" "3 * card F \<le> card V"
  shows "\<exists>a \<in> A \<inter> B. a \<notin> F"
proof (rule ccontr)
  assume "\<not> (\<exists>a \<in> A \<inter> B. a \<notin> F)"
  then have "card (A \<inter> B) \<le> card F"
    using assms(1,5) by (intro card_mono) (auto intro: finite_subset)
  with quorums_meet [OF assms(1-4,6,7)] assms(8) show False by linarith
qed

end

interpretation dpos: quorum_rule targetCount "\<lambda>n. 0 < n \<and> n < 2 ^ 48"
  using targetCount_bounds by unfold_locales simp_all

section \<open>Validators and approvals\<close>

lemma graph2StocksLoop_dom:
  "mapOK stocks \<Longrightarrow> mapOK (graph2StocksLoop nodes eg stocks)
   \<and> dom (mapGet (graph2StocksLoop nodes eg stocks))
     = dom (mapGet stocks) \<union> tn_Account ` set (filter (\<lambda>n. tn_Type n = RoleValidator) nodes)"
proof (induction nodes arbitrary: stocks)
  case (Cons n nodes)
  then show ?case by (auto simp: map_specs alist.keys_put)
qed simp

lemma stocks_of_graph:
  "mapOK (graph2ValidatorStocks g eg)"
  "dom (mapGet (graph2ValidatorStocks g eg)) = set (validatorAccounts g)"
  "mapLen (graph2ValidatorStocks g eg) = card (set (validatorAccounts g))"
proof -
  have "mapOK (graph2ValidatorStocks g eg) \<and> dom (mapGet (graph2ValidatorStocks g eg)) = set (validatorAccounts g)"
    using graph2StocksLoop_dom [of mapMake "NodeList g" eg]
    by (auto simp: graph2ValidatorStocks_def validatorAccounts_def map_specs)
  then show "mapOK (graph2ValidatorStocks g eg)" "dom (mapGet (graph2ValidatorStocks g eg)) = set (validatorAccounts g)"
    "mapLen (graph2ValidatorStocks g eg) = card (set (validatorAccounts g))"
    using alist.len_keys [of "graph2ValidatorStocks g eg"] by auto
qed

text \<open>A signature approves for a validator: it verifies, it is an approval, and its signer is the
  validator's deposit account or delegated by it.\<close>

definition approves :: "Crypto \<Rightarrow> StateReader \<Rightarrow> hash \<Rightarrow> hash \<Rightarrow> signature \<Rightarrow> address \<Rightarrow> bool" where
  "approves cr reader blockHash h sign a =
     (case VerifySignWithValidate cr h sign of
        (account, validate, err) \<Rightarrow>
          err = None \<and> validate
          \<and> (case sr_GetA0AccountFromAnyAccount reader account blockHash of Inl e \<Rightarrow> False | Inr (a0, a1) \<Rightarrow> a0 = a))"

definition approvedBy ::
  "Crypto \<Rightarrow> StateReader \<Rightarrow> hash \<Rightarrow> hash \<Rightarrow> signature list \<Rightarrow> TopologyGraph \<Rightarrow> address set" where
  "approvedBy cr reader blockHash h signs g =
     set (filter (\<lambda>a. \<exists>sign \<in> set signs. approves cr reader blockHash h sign a) (validatorAccounts g))"

lemma approvers_castVotes:
  assumes "dom (mapGet stocks) = set (validatorAccounts g)"
  shows "approvers (castVotes cr reader h signs stocks bh) = approvedBy cr reader bh h signs g"
proof -
  have "(\<exists>st. (s, a, True, st) \<in> set (castVote cr reader h stocks bh sign)) \<longleftrightarrow>
      s = sign \<and> approves cr reader bh h sign a \<and> a \<in> set (validatorAccounts g)" for s a sign
    unfolding assms [symmetric]
    by (auto simp: approves_def split: prod.splits option.splits sum.splits) metis
  then show ?thesis
    by (auto simp: set_eq_iff approvers_iff castVotes_def approvedBy_def simp del: castVote.simps) blast+
qed

lemma VerifyHashWithBlock_approved:
  assumes "sr_GetGraphByHash reader bh = Inr (g, eg)" "length (NodeList g) < 2 ^ 48"
  defines "n \<equiv> card (set (validatorAccounts g))"
  shows "(\<exists>rs. VerifyHashWithBlock (NewMtxDPOS b) cr reader h signs bh = Inr rs)
    \<longleftrightarrow> c_MinStockCount (NewMtxDPOS b) \<le> int n \<and> targetCount n \<le> card (approvedBy cr reader bh h signs g)"
proof -
  let ?stocks = "graph2ValidatorStocks g eg"
  have "n \<le> length (NodeList g)"
    unfolding n_def validatorAccounts_def
    by (rule order_trans [OF card_length]) simp
  then have sm: "mapLen ?stocks < 2 ^ 48" using assms(2) by (simp add: stocks_of_graph n_def)
  have "VerifyHashWithBlock (NewMtxDPOS b) cr reader h signs bh
      = verdict (NewMtxDPOS b) ?stocks (length signs) (castVotes cr reader h signs ?stocks bh)"
    using assms(1) by (simp add: VerifyHashWithBlock_def getValidatorStocks_def VerifyHashWithStocks_verdict)
  then show ?thesis
    using verdict_approvers [OF stocks_of_graph(1) sm castVotes_in castVotes_le]
    by (simp only: approvers_castVotes [OF stocks_of_graph(2)] stocks_of_graph(3) n_def)
qed

section \<open>Properties\<close>

text \<open>C14. The number of approvals the engine asks for: with at least one and fewer than \<open>2 ^ 48\<close> validators
  the target exceeds two thirds of them, is not above their number (so that it can be reached), and
  the tolerated rejections are the rest.  This includes the rounding of the \<open>float64\<close> product.\<close>

theorem calculateDPOSTarget_two_thirds:
  assumes "calculateDPOSTarget (NewMtxDPOS b) stocks = Inr t" "0 < mapLen stocks" "mapLen stocks < 2 ^ 48"
  shows "t_totalCount t = int (mapLen stocks) \<and> 2 * t_totalCount t < 3 * t_targetCount t
    \<and> t_targetCount t \<le> t_totalCount t \<and> t_maxDisagreeCount t = t_totalCount t - t_targetCount t"
  using assms targetCount_bounds [of "mapLen stocks"]
  by (auto simp: calculateDPOSTarget_cases Let_def split: if_splits)

definition exampleStocks :: stocks where
  "exampleStocks = map (\<lambda>a. (a, 1)) [1, 2, 3, 4, 5, 6, 7, 8, 9]"

lemma NewMtxDPOS_min [simp]: "c_MinStockCount (NewMtxDPOS b) = (if b then 1 else 3)"
  by (simp add: NewMtxDPOS_def defaultConfig_def simpleConfig_def)

theorem calculateDPOSTarget_two_thirds_witness:
  "\<exists>t. calculateDPOSTarget (NewMtxDPOS False) exampleStocks = Inr t \<and> 2 * 9 < 3 * t_targetCount t
    \<and> t_targetCount t \<le> 9"
proof -
  have l: "mapLen exampleStocks = 9" by (simp add: exampleStocks_def mapLen_def)
  then obtain t where t: "calculateDPOSTarget (NewMtxDPOS False) exampleStocks = Inr t"
    by (simp add: calculateDPOSTarget_cases Let_def)
  from calculateDPOSTarget_two_thirds [OF t] l t show ?thesis by auto
qed

text \<open>C10. The verdict on a hash is exactly a count: a list of signatures makes the engine accept if and
  only if the block has the minimal number of validators and the validators with an approving
  signature in the list are at least the target.  Order, repetition, rejections by others, foreign
  and broken signatures, and the iteration order of the maps do not matter.\<close>

theorem VerifyHashWithBlock_iff:
  assumes "sr_GetGraphByHash reader bh = Inr (g, eg)" "length (NodeList g) < 2 ^ 48"
  shows "(\<exists>rs. VerifyHashWithBlock (NewMtxDPOS b) cr reader h signs bh = Inr rs)
    \<longleftrightarrow> c_MinStockCount (NewMtxDPOS b) \<le> int (card (set (validatorAccounts g)))
        \<and> targetCount (card (set (validatorAccounts g))) \<le> card (approvedBy cr reader bh h signs g)"
  using assms by (rule VerifyHashWithBlock_approved)

text \<open>A group of four validators; the accounts sign for themselves and signature \<open>(a, v)\<close> is account \<open>a\<close>'s.\<close>

definition exampleGraph :: TopologyGraph where
  "exampleGraph =
     \<lparr>NodeList = map (\<lambda>a. \<lparr>tn_Account = a, tn_Position = 0x2000, tn_Type = RoleValidator, tn_NodeNumber = 0\<rparr>)
        [10, 11, 12, 13],
      CurNodeNumber = 0\<rparr>"

definition exampleReader :: StateReader where
  "exampleReader =
     \<lparr>sr_GetCurrentHash = 7,
      sr_GetGraphByHash = (\<lambda>h. Inr (exampleGraph, \<lparr>eg_Number = 0, ElectList = [], NextMinerElect = [], NextValidatorElect = []\<rparr>)),
      sr_GetBroadcastAccounts = (\<lambda>h. Inr [3]),
      sr_GetVersionSuperAccounts = (\<lambda>h. Inr (Some [])),
      sr_GetBlockSuperAccounts = (\<lambda>h. Inr (Some [])),
      sr_GetBroadcastIntervalByHash = (\<lambda>h. Inr \<lparr>LastBCNumber = 0, LastReelectNumber = 0, BCInterval = 2,
         BackupEnableNumber = 0, BackupBCInterval = 0\<rparr>),
      sr_GetA0AccountFromAnyAccount = (\<lambda>a h. Inr (a, a))\<rparr>"

lemma exampleReader_graph:
  "sr_GetGraphByHash exampleReader h = Inr (exampleGraph, \<lparr>eg_Number = 0, ElectList = [], NextMinerElect = [], NextValidatorElect = []\<rparr>)"
  "length (NodeList exampleGraph) = 4" "validatorAccounts exampleGraph = [10, 11, 12, 13]"
  by (simp_all add: exampleReader_def exampleGraph_def validatorAccounts_def)

lemmas dpos_eval = approvedBy_def approves_def exampleReader_graph exampleReader_def VerifySignWithValidate_def
  exampleCrypto_def targetCount_def

theorem VerifyHashWithBlock_iff_witness:
  "(\<exists>rs. VerifyHashWithBlock (NewMtxDPOS False) exampleCrypto exampleReader 5 [(13, 0), (12, 1), (11, 0), (12, 3), (10, 0)] 7 = Inr rs)
   \<and> \<not> (\<exists>rs. VerifyHashWithBlock (NewMtxDPOS False) exampleCrypto exampleReader 5 [(13, 0), (12, 1), (11, 0), (10, 2)] 7 = Inr rs)"
proof -
  note i = VerifyHashWithBlock_iff [OF exampleReader_graph(1), of False exampleCrypto 5 _ 7]
  have "approvedBy exampleCrypto exampleReader 7 5 [(13, 0), (12, 1), (11, 0), (12, 3), (10, 0)] exampleGraph = {10, 11, 12, 13}"
    "approvedBy exampleCrypto exampleReader 7 5 [(13, 0), (12, 1), (11, 0), (10, 2)] exampleGraph = {11, 12, 13}"
    by (auto simp: dpos_eval)
  then show ?thesis
    using i [of "[(13, 0), (12, 1), (11, 0), (12, 3), (10, 0)]"] i [of "[(13, 0), (12, 1), (11, 0), (10, 2)]"]
    by (simp add: exampleReader_graph targetCount_def)
qed

lemma castVotes_approve:
  assumes "(s, a, True, st) \<in> set (castVotes cr reader h signs stocks bh)"
  shows "s \<in> set signs \<and> approves cr reader bh h s a \<and> mapGet stocks a = Some st"
proof -
  from assms obtain sign where "sign \<in> set signs" "(s, a, True, st) \<in> set (castVote cr reader h stocks bh sign)"
    by (auto simp: castVotes_def simp del: castVote.simps)
  then show ?thesis by (auto simp: approves_def split: prod.splits option.splits sum.splits)
qed

lemma approvedBy_subset: "approvedBy cr reader bh h signs g \<subseteq> set (validatorAccounts g)"
  by (auto simp: approvedBy_def)

text \<open>Two accepted hashes share honest voters: if the engine accepts two hashes at the same block, the
  validators that approved both are more than a third of all, so that at least one of them is not
  among any set of at most a third of the validators.\<close>

lemma VerifyHashWithBlock_quorums_meet:
  assumes "sr_GetGraphByHash reader bh = Inr (g, eg)" "length (NodeList g) < 2 ^ 48"
    and "VerifyHashWithBlock (NewMtxDPOS b) cr reader h1 signs1 bh = Inr rs1"
    and "VerifyHashWithBlock (NewMtxDPOS b) cr reader h2 signs2 bh = Inr rs2"
    and "F \<subseteq> set (validatorAccounts g)" "3 * card F \<le> card (set (validatorAccounts g))"
  shows "\<exists>a \<in> approvedBy cr reader bh h1 signs1 g \<inter> approvedBy cr reader bh h2 signs2 g. a \<notin> F"
proof -
  let ?n = "card (set (validatorAccounts g))"
  note iff = VerifyHashWithBlock_approved [OF assms(1,2), of b cr]
  have q: "targetCount ?n \<le> card (approvedBy cr reader bh h1 signs1 g)"
    "targetCount ?n \<le> card (approvedBy cr reader bh h2 signs2 g)" "c_MinStockCount (NewMtxDPOS b) \<le> int ?n"
    using iff [of h1 signs1] iff [of h2 signs2] assms(3,4) by blast+
  have "?n \<le> length (NodeList g)"
    unfolding validatorAccounts_def by (rule order_trans [OF card_length]) simp
  then have "0 < ?n \<and> ?n < 2 ^ 48" using q(3) assms(2) by (auto split: if_splits)
  then show ?thesis
    using dpos.honest_approver [OF _ _ approvedBy_subset approvedBy_subset assms(5) q(1,2) assms(6)] by simp
qed



lemma parsedVotes_iff:
  "(s, a, v, st) \<in> set (parsedVotes signs stocks)
   \<longleftrightarrow> mapGet stocks a = Some st \<and> (\<exists>x \<in> set signs. s = vs_Sign x \<and> a = vs_Account x \<and> v = vs_Validate x)"
  by (induction signs) (auto simp: parsedVotes_def split: option.splits)

lemma approvers_parsedVotes:
  "approvers (parsedVotes signs (graph2ValidatorStocks g eg))
   = {a \<in> set (validatorAccounts g). \<exists>s \<in> set signs. vs_Account s = a \<and> vs_Validate s}"
  unfolding stocks_of_graph(2) [symmetric, of g eg] set_eq_iff approvers_iff parsedVotes_iff by blast

lemma stocks_small: "length (NodeList g) < 2 ^ 48 \<Longrightarrow> mapLen (graph2ValidatorStocks g eg) < 2 ^ 48"
proof -
  have "card (set (validatorAccounts g)) \<le> length (NodeList g)"
    unfolding validatorAccounts_def by (rule order_trans [OF card_length]) simp
  then show "length (NodeList g) < 2 ^ 48 \<Longrightarrow> mapLen (graph2ValidatorStocks g eg) < 2 ^ 48"
    by (simp add: stocks_of_graph)
qed

text \<open>
  Votes that were verified one at a time and then accepted are accepted again from their
  signatures alone.
\<close>

lemma VerifiedSigns_approved:
  assumes "sr_GetGraphByHash reader bh = Inr (g, eg)" "length (NodeList g) < 2 ^ 48"
    and "VerifyHashWithVerifiedSignsAndBlock (NewMtxDPOS b) reader signs bh = Inr rs"
    and "\<And>s. s \<in> set signs \<Longrightarrow> approves cr reader bh h (vs_Sign s) (vs_Account s)"
  shows "\<exists>rs'. VerifyHashWithBlock (NewMtxDPOS b) cr reader h rs bh = Inr rs'"
proof -
  let ?st = "graph2ValidatorStocks g eg" and ?A = "approvers (parsedVotes signs (graph2ValidatorStocks g eg))"
  note sm = stocks_small [OF assms(2)]
  have v: "verdict (NewMtxDPOS b) ?st (length signs) (parsedVotes signs ?st) = Inr rs"
    using assms(1,3) VerifyHashWithVerifiedSignsAndBlock_verdict [of reader bh ?st]
    by (simp add: getValidatorStocks_def)
  then have t: "c_MinStockCount (NewMtxDPOS b) \<le> int (mapLen ?st)" "targetCount (mapLen ?st) \<le> card ?A"
    using verdict_approvers [OF stocks_of_graph(1) sm parsedVotes_in parsedVotes_le, of b] by blast+
  have "?A \<subseteq> approvedBy cr reader bh h rs g"
  proof
    fix a assume a: "a \<in> ?A"
    from verdict_signs_of [OF stocks_of_graph(1) sm parsedVotes_in v a] obtain s st where
      s: "s \<in> set rs" "(s, a, True, st) \<in> set (parsedVotes signs ?st)" by blast
    then obtain x where "x \<in> set signs" "s = vs_Sign x" "a = vs_Account x" unfolding parsedVotes_iff by blast
    then have "approves cr reader bh h s a" using assms(4) by blast
    moreover have "a \<in> set (validatorAccounts g)" using a by (simp add: approvers_parsedVotes)
    ultimately show "a \<in> approvedBy cr reader bh h rs g" using s(1) by (auto simp: approvedBy_def)
  qed
  then have "card ?A \<le> card (approvedBy cr reader bh h rs g)" by (intro card_mono) (simp_all add: approvedBy_def)
  with t show ?thesis using VerifyHashWithBlock_approved [OF assms(1,2)] by (simp add: stocks_of_graph(3))
qed

lemma VerifiedSignsAndBlock_iff:
  assumes "sr_GetGraphByHash reader bh = Inr (g, eg)" "length (NodeList g) < 2 ^ 48"
  shows "(\<exists>rs. VerifyHashWithVerifiedSignsAndBlock (NewMtxDPOS b) reader signs bh = Inr rs)
    \<longleftrightarrow> c_MinStockCount (NewMtxDPOS b) \<le> int (card (set (validatorAccounts g)))
        \<and> targetCount (card (set (validatorAccounts g)))
          \<le> card {a \<in> set (validatorAccounts g). \<exists>s \<in> set signs. vs_Account s = a \<and> vs_Validate s}"
proof -
  let ?st = "graph2ValidatorStocks g eg"
  have "VerifyHashWithVerifiedSignsAndBlock (NewMtxDPOS b) reader signs bh
      = verdict (NewMtxDPOS b) ?st (length signs) (parsedVotes signs ?st)"
    by (rule VerifyHashWithVerifiedSignsAndBlock_verdict) (simp add: getValidatorStocks_def assms(1))
  then show ?thesis
    using verdict_approvers [OF stocks_of_graph(1) stocks_small [OF assms(2)] parsedVotes_in parsedVotes_le]
    by (simp only: stocks_of_graph(3) approvers_parsedVotes)
qed

text \<open>C13. Votes that were verified one at a time are counted by the same rule: \<open>VerifyHashWithVerifiedSigns\<close>
  accepts exactly when the minimal number of validators is met and the validators with an approving
  entry are at least the target.\<close>

theorem VerifyHashWithVerifiedSigns_iff:
  assumes "sr_GetGraphByHash reader (sr_GetCurrentHash reader) = Inr (g, eg)" "length (NodeList g) < 2 ^ 48"
  shows "(\<exists>rs. VerifyHashWithVerifiedSigns (NewMtxDPOS b) reader signs = Inr rs)
    \<longleftrightarrow> c_MinStockCount (NewMtxDPOS b) \<le> int (card (set (validatorAccounts g)))
        \<and> targetCount (card (set (validatorAccounts g)))
          \<le> card {a \<in> set (validatorAccounts g). \<exists>s \<in> set signs. vs_Account s = a \<and> vs_Validate s}"
  unfolding VerifyHashWithVerifiedSigns_def using assms by (rule VerifiedSignsAndBlock_iff)

theorem VerifyHashWithVerifiedSigns_iff_witness:
  "\<exists>rs. VerifyHashWithVerifiedSigns (NewMtxDPOS False) exampleReader
     (map (\<lambda>a. \<lparr>vs_Sign = (0, 0), vs_Account = a, vs_Validate = True, vs_Stock = 0\<rparr>) [10, 11, 12, 13]) = Inr rs"
proof -
  have c: "sr_GetCurrentHash exampleReader = 7" by (simp add: exampleReader_def)
  have "{a \<in> {10, 11, 12, 13 :: address}. \<exists>s \<in> set (map (\<lambda>a. \<lparr>vs_Sign = (0, 0), vs_Account = a, vs_Validate = True, vs_Stock = 0\<rparr>)
      [10, 11, 12, 13]). vs_Account s = a \<and> vs_Validate s} = {10, 11, 12, 13}" by auto
  then show ?thesis
    using VerifyHashWithVerifiedSigns_iff [of exampleReader exampleGraph _ False, OF exampleReader_graph(1)]
    by (simp add: exampleReader_graph targetCount_def c)
qed

text \<open>C12. The order in which the map of votes is iterated does not matter: with any other order of the same
  votes the count is accepted as well, and the returned signatures are the same up to their order.\<close>

theorem verifyDPOS_order:
  assumes "verifyDPOS m t = Inr rs" "mset m' = mset m" "stockSum (map snd m) < 2 ^ 64"
  shows "\<exists>rs'. verifyDPOS m' t = Inr rs' \<and> mset rs' = mset rs"
proof -
  let ?xs = "map snd m" and ?ys = "map snd m'"
  have p: "mset ?ys = mset ?xs" using assms(2) by (simp only: mset_map)
  have len: "length (filter P ?ys) = length (filter P ?xs)" for P using p by (rule length_filter_perm)
  have sum: "stockSum (filter P ?ys) = stockSum (filter P ?xs)" for P
    unfolding stockSum_def using p by (intro sum_list_perm) (simp only: mset_filter)
  have "accepts ?xs t" "rs = map vs_Sign (agreeing ?xs)" using assms(1,3) verifyDPOS_accepts by blast+
  moreover have "stockSum ?ys < 2 ^ 64"
    using assms(3) sum [of "\<lambda>x. True"] by simp
  moreover have "accepts ?ys t = accepts ?xs t"
    unfolding accepts_def using len sum by (metis length_0_conv)
  moreover have "mset (map vs_Sign (agreeing ?ys)) = mset (map vs_Sign (agreeing ?xs))"
    using p by (simp only: mset_map mset_filter)
  ultimately show ?thesis using verifyDPOS_accepts by blast
qed

theorem verifyDPOS_order_witness:
  "\<exists>rs'. verifyDPOS [(2, \<lparr>vs_Sign = (2, 0), vs_Account = 2, vs_Validate = True, vs_Stock = 1\<rparr>),
                    (1, \<lparr>vs_Sign = (1, 0), vs_Account = 1, vs_Validate = True, vs_Stock = 1\<rparr>)]
      \<lparr>t_totalCount = 3, t_totalStock = 3, t_targetCount = 2, t_targetStock = 2, t_maxDisagreeCount = 1,
       t_maxDisagreeStock = 1\<rparr> = Inr rs' \<and> mset rs' = {#(1, 0), (2, 0)#}"
  using verifyDPOS_order [of "[(1, \<lparr>vs_Sign = (1, 0), vs_Account = 1, vs_Validate = True, vs_Stock = 1\<rparr>),
                    (2, \<lparr>vs_Sign = (2, 0), vs_Account = 2, vs_Validate = True, vs_Stock = 1\<rparr>)]"
      "\<lparr>t_totalCount = 3, t_totalStock = 3, t_targetCount = 2, t_targetStock = 2, t_maxDisagreeCount = 1,
       t_maxDisagreeStock = 1\<rparr>" "[(1, 0), (2, 0)]"
      "[(2, \<lparr>vs_Sign = (2, 0), vs_Account = 2, vs_Validate = True, vs_Stock = 1\<rparr>),
                    (1, \<lparr>vs_Sign = (1, 0), vs_Account = 1, vs_Validate = True, vs_Stock = 1\<rparr>)]"]
  by (simp add: verifyDPOS_def)

text \<open>A broadcast block is accepted exactly when its version signatures are, it carries one signature,
  the signature is an approval by the block's leader, and the leader is a broadcast account of the
  parent block.\<close>

lemma VerifyBlock_broadcast:
  assumes "\<not> IsSuperHeader header" "sr_GetBroadcastIntervalByHash reader (h_ParentHash header) = Inr bc"
    and "IsBroadcastNumber bc (Uint64 (h_Number header)) = Some True"
  shows "VerifyBlock md cr reader (Some header) = Some (Inr ())
    \<longleftrightarrow> VerifyVersionSigns md cr reader header = Inr ()
      \<and> (\<exists>s accounts. h_Signatures header = [s]
          \<and> VerifySignWithValidate cr (HashNoSignsAndNonce cr header) s = (h_Leader header, True, None)
          \<and> sr_GetBroadcastAccounts reader (h_ParentHash header) = Inr accounts \<and> h_Leader header \<in> set accounts)"
  using assms
  by (cases "h_Signatures header")
    (auto simp: VerifyBlock_def verifyBroadcastBlock_def split: sum.splits prod.splits option.splits if_splits)

text \<open>The super nodes whose signature is in a list, whatever vote it carries.\<close>

definition signedBy :: "Crypto \<Rightarrow> hash \<Rightarrow> signature \<Rightarrow> address \<Rightarrow> bool" where
  "signedBy cr h s a = (case VerifySignWithValidate cr h s of (a', v, err) \<Rightarrow> err = None \<and> a' = a)"

definition superSigners :: "Crypto \<Rightarrow> hash \<Rightarrow> signature list \<Rightarrow> address list \<Rightarrow> address set" where
  "superSigners cr h signs superNodes =
     set (filter (\<lambda>a. \<exists>s \<in> set signs. signedBy cr h s a) superNodes)"

lemma verifyHashWithSuperNodes_dom:
  "mapOK m \<Longrightarrow> mapOK (verifyHashWithSuperNodes cr h signs nodes m)
   \<and> dom (mapGet (verifyHashWithSuperNodes cr h signs nodes m)) = dom (mapGet m) \<union> superSigners cr h signs nodes"
proof (induction signs arbitrary: m)
  case Nil
  then show ?case by (simp add: superSigners_def)
next
  case (Cons s signs)
  obtain a v err where v: "VerifySignWithValidate cr h s = (a, v, err)" by (cases "VerifySignWithValidate cr h s")
  have "signedBy cr h s x \<longleftrightarrow> err = None \<and> a = x" for x by (simp add: signedBy_def v)
  then have "superSigners cr h (s # signs) nodes
      = (if err = None \<and> a \<in> set nodes then insert a (superSigners cr h signs nodes) else superSigners cr h signs nodes)"
    by (auto simp: superSigners_def)
  with Cons v show ?case by (auto simp: map_specs alist.keys_put)
qed

lemma verifyHashWithSuperNodes_count:
  "mapLen (verifyHashWithSuperNodes cr h signs nodes mapMake) = card (superSigners cr h signs nodes)"
proof -
  let ?m = "verifyHashWithSuperNodes cr h signs nodes mapMake"
  have "dom (mapGet (mapMake :: (address, u8) gomap)) = {}" by (simp add: dom_def map_specs)
  then have "mapOK ?m" "dom (mapGet ?m) = superSigners cr h signs nodes"
    using verifyHashWithSuperNodes_dom [of mapMake cr h signs nodes] by (simp_all add: map_specs)
  then show ?thesis using alist.len_keys [of ?m] by simp
qed

lemma superSigners_le: "card (superSigners cr h signs nodes) \<le> length signs"
proof -
  have "superSigners cr h signs nodes \<subseteq> (\<lambda>s. fst (VerifySignWithValidate cr h s)) ` set signs"
  proof
    fix a assume "a \<in> superSigners cr h signs nodes"
    then obtain s where "s \<in> set signs" "signedBy cr h s a" by (auto simp: superSigners_def)
    then show "a \<in> (\<lambda>s. fst (VerifySignWithValidate cr h s)) ` set signs"
      by (intro image_eqI [of _ _ s]) (auto simp: signedBy_def)
  qed
  then show ?thesis by (meson card_mono card_image_le card_length finite_imageI finite_set order_trans)
qed


end
