(* ===== verification/TurnTimes.thy ===== *)
theory TurnTimes
  imports McTypes
begin

text \<open>
  The clock of the leader service (\<open>leaderelect2.0/turnTimes.go\<close>) and the small definitions of
  \<open>leaderelect2.0/commdef.go\<close>: which turn a wall-clock time belongs to, when a turn begins and
  ends, and which time stamps a request of a turn may carry.  Times are \<open>int64\<close> seconds, turns
  are \<open>uint32\<close>; every operation wraps as in Go, and the lemmas name the range in which nothing
  wraps.
\<close>

section \<open>States and turns\<close>

datatype stateDef = stIdle | stPos | stReelect | stMining | stWaiting

definition isFirstConsensusTurn :: "ConsensusTurnInfo \<Rightarrow> bool" where
  "isFirstConsensusTurn turnInfo \<longleftrightarrow> PreConsensusTurn turnInfo = 0 \<and> UsedReelectTurn turnInfo = 0"

definition calcNextConsensusTurn :: "ConsensusTurnInfo \<Rightarrow> u32 \<Rightarrow> ConsensusTurnInfo" where
  "calcNextConsensusTurn curConsensusTurn curReelectTurn =
     \<lparr>PreConsensusTurn = TotalTurns curConsensusTurn, UsedReelectTurn = curReelectTurn\<rparr>"

section \<open>Turn times\<close>

record LeaderConfig =
  cfg_ParentMiningTime :: u64
  cfg_PosOutTime :: u64
  cfg_ReelectOutTime :: u64
  cfg_ReelectHandleInterval :: u64

record turnTimes =
  tt_beginTime :: int
  tt_parentMiningTime :: int
  tt_turnOutTime :: int
  tt_reelectHandleInterval :: int

definition newTurnTimes :: turnTimes where
  "newTurnTimes = \<lparr>tt_beginTime = 0, tt_parentMiningTime = 0, tt_turnOutTime = 0,
                   tt_reelectHandleInterval = 0\<rparr>"

definition SetTimeConfig :: "LeaderConfig option \<Rightarrow> turnTimes \<Rightarrow> error + turnTimes" where
  "SetTimeConfig config tt =
     (case config of
        None \<Rightarrow> Inl ErrParamsIsNil
      | Some c \<Rightarrow> Inr (tt\<lparr>tt_parentMiningTime := sint (cfg_ParentMiningTime c),
                         tt_turnOutTime := sint (cfg_PosOutTime c),
                         tt_reelectHandleInterval := sint (cfg_ReelectHandleInterval c)\<rparr>))"

definition SetBeginTime :: "int \<Rightarrow> turnTimes \<Rightarrow> bool \<times> turnTimes" where
  "SetBeginTime time tt =
     (if time \<le> tt_beginTime tt then (False, tt) else (True, tt\<lparr>tt_beginTime := time\<rparr>))"

definition CalTurnTime :: "turnTimes \<Rightarrow> u32 \<Rightarrow> u32 \<Rightarrow> int \<times> int" where
  "CalTurnTime tt consensusTurn reelectTurn =
     (let totalTurn = consensusTurn + reelectTurn
      in if totalTurn = 0 then
           (tt_beginTime tt,
            i64 (i64 (tt_beginTime tt + tt_parentMiningTime tt) + tt_turnOutTime tt))
         else
           (let beginTime = i64 (i64 (tt_beginTime tt + tt_parentMiningTime tt)
                                 + i64 (tt_turnOutTime tt * uint totalTurn))
            in (beginTime, i64 (beginTime + tt_turnOutTime tt))))"

definition GetBeginTime :: "turnTimes \<Rightarrow> u32 \<Rightarrow> int" where
  "GetBeginTime tt consensusTurn = fst (CalTurnTime tt consensusTurn 0)"

definition GetPosEndTime :: "turnTimes \<Rightarrow> u32 \<Rightarrow> int" where
  "GetPosEndTime tt consensusTurn = snd (CalTurnTime tt consensusTurn 0)"

text \<open>The quotient truncates towards zero, and the conversion to \<open>uint32\<close> keeps the low 32 bits.\<close>

definition CalState :: "turnTimes \<Rightarrow> u32 \<Rightarrow> int \<Rightarrow> stateDef \<times> int \<times> u32" where
  "CalState tt consensusTurn time =
     (if tt_turnOutTime tt = 0 then (stReelect, 0, 0)
      else
        (let posTime = (if consensusTurn = 0 then i64 (tt_turnOutTime tt + tt_parentMiningTime tt)
                        else tt_turnOutTime tt);
             passTime = i64 (time - GetBeginTime tt consensusTurn)
         in if passTime < posTime then (stPos, i64 (posTime - passTime), 0)
            else
              (let reelectTurn = of_int (i64 (i64 (passTime - posTime) sdiv tt_turnOutTime tt)) + 1;
                   endTime = snd (CalTurnTime tt consensusTurn reelectTurn)
               in (stReelect, i64 (endTime - time), reelectTurn))))"

definition CheckTimeLegal :: "turnTimes \<Rightarrow> u32 \<Rightarrow> u32 \<Rightarrow> int \<Rightarrow> error + unit" where
  "CheckTimeLegal tt consensusTurn reelectTurn checkTime =
     (case CalTurnTime tt consensusTurn reelectTurn of
        (beginTime, endTime) \<Rightarrow>
          (if checkTime \<le> beginTime \<or> checkTime \<ge> endTime then Inl (Errorf ''illegal time'')
           else Inr ()))"

section \<open>A schedule of turns\<close>

text \<open>
  What the service needs of its clock: numbered turns that are not empty and follow each other
  without a gap, up to a last turn.  Then a time belongs to at most one turn.
\<close>

locale turn_schedule =
  fixes start :: "'t \<Rightarrow> nat \<Rightarrow> int"
    and stop :: "'t \<Rightarrow> nat \<Rightarrow> int"
    and ok :: "'t \<Rightarrow> nat \<Rightarrow> bool"
  assumes nonempty: "ok t k \<Longrightarrow> start t k < stop t k"
    and contiguous: "ok t (Suc k) \<Longrightarrow> start t (Suc k) = stop t k"
    and ok_down: "ok t (Suc k) \<Longrightarrow> ok t k"
begin

lemma stop_le_start: "ok t k \<Longrightarrow> j < k \<Longrightarrow> stop t j \<le> start t k"
proof (induction k)
  case (Suc k)
  show ?case
  proof (cases "j = k")
    case True
    with Suc contiguous show ?thesis by simp
  next
    case False
    with Suc ok_down have "stop t j \<le> start t k" by simp
    also have "start t k < stop t k" using Suc.prems ok_down nonempty by blast
    finally show ?thesis using contiguous Suc.prems by simp
  qed
qed simp

lemma turn_unique:
  assumes "ok t j" "ok t k" "start t j \<le> x" "x < stop t j" "start t k \<le> x" "x < stop t k"
  shows "j = k"
proof (rule ccontr)
  assume "j \<noteq> k"
  then have "j < k \<or> k < j" by linarith
  then show False using assms stop_le_start [of t k j] stop_le_start [of t j k] by linarith
qed

end

section \<open>The range in which the clock does not wrap\<close>

definition timesOK :: "turnTimes \<Rightarrow> bool" where
  "timesOK tt \<longleftrightarrow> 0 \<le> tt_beginTime tt \<and> tt_beginTime tt < 2 ^ 61
     \<and> 0 \<le> tt_parentMiningTime tt \<and> tt_parentMiningTime tt < 2 ^ 60
     \<and> 0 < tt_turnOutTime tt \<and> tt_turnOutTime tt < 2 ^ 28"

lemma turn_product:
  assumes "timesOK tt"
  shows "0 \<le> tt_turnOutTime tt * uint (k :: u32)"
    and "tt_turnOutTime tt * uint k < 2 ^ 60"
proof -
  have k: "0 \<le> uint k" "uint k < 2 ^ 32" using uint_bounded [of k] by simp_all
  have o: "0 < tt_turnOutTime tt" "tt_turnOutTime tt < 2 ^ 28" using assms by (simp_all add: timesOK_def)
  show "0 \<le> tt_turnOutTime tt * uint k" using k o by simp
  have "tt_turnOutTime tt * uint k \<le> 2 ^ 28 * uint k" using k o by (intro mult_right_mono) simp_all
  also have "\<dots> < 2 ^ 28 * 2 ^ 32" using k by (intro mult_strict_left_mono) simp_all
  finally show "tt_turnOutTime tt * uint k < 2 ^ 60" by simp
qed

lemma CalTurnTime_exact:
  assumes "timesOK tt"
  shows "CalTurnTime tt ct rt =
    (if ct + rt = 0 then (tt_beginTime tt, tt_beginTime tt + tt_parentMiningTime tt + tt_turnOutTime tt)
     else (tt_beginTime tt + tt_parentMiningTime tt + tt_turnOutTime tt * uint (ct + rt),
           tt_beginTime tt + tt_parentMiningTime tt + tt_turnOutTime tt * uint (ct + rt) + tt_turnOutTime tt))"
proof -
  define p where "p = tt_turnOutTime tt * uint (ct + rt)"
  have "0 \<le> p" "p < 2 ^ 60" using turn_product [OF assms] by (simp_all add: p_def)
  with assms show ?thesis
    unfolding CalTurnTime_def Let_def p_def [symmetric] by (simp add: timesOK_def i64_id)
qed

lemma CalTurnTime_total: "CalTurnTime tt ct rt = CalTurnTime tt (ct + rt) 0"
  by (simp add: CalTurnTime_def)

interpretation clock: turn_schedule
  "\<lambda>tt k. fst (CalTurnTime tt (of_nat k) 0)"
  "\<lambda>tt k. snd (CalTurnTime tt (of_nat k) 0)"
  "\<lambda>tt k. timesOK tt \<and> k < 2 ^ 32"
proof
  fix tt k
  have uk: "uint (of_nat k :: u32) = int k" if "k < 2 ^ 32"
    using that by (rule uint_of_nat_u32)
  show "fst (CalTurnTime tt (of_nat k) 0) < snd (CalTurnTime tt (of_nat k) 0)"
    if "timesOK tt \<and> k < 2 ^ 32"
    using that by (simp add: CalTurnTime_exact) (simp add: timesOK_def)
  show "fst (CalTurnTime tt (of_nat (Suc k)) 0) = snd (CalTurnTime tt (of_nat k) 0)"
    if "timesOK tt \<and> Suc k < 2 ^ 32"
  proof -
    have "uint (of_nat (Suc k) :: u32) = int k + 1"
      using that uint_of_nat_u32 [of "Suc k"] by simp
    moreover from this have "(of_nat (Suc k) :: u32) \<noteq> 0" by auto
    moreover have "(of_nat k :: u32) = 0 \<longleftrightarrow> k = 0" using uk that by (auto simp: word_uint_eq_iff)
    ultimately show ?thesis using that uk
      by (simp add: CalTurnTime_exact distrib_left del: of_nat_Suc)
  qed
qed simp

section \<open>The turn a time belongs to\<close>

text \<open>
  The specification of the clock: turn 0 lasts until the parent block's mining time and one
  time-out have passed, every later turn lasts one time-out.
\<close>

definition turnNumber :: "turnTimes \<Rightarrow> int \<Rightarrow> int" where
  "turnNumber tt time =
     (if time < tt_beginTime tt + tt_parentMiningTime tt + tt_turnOutTime tt then 0
      else (time - tt_beginTime tt - tt_parentMiningTime tt) div tt_turnOutTime tt)"

definition horizon :: "turnTimes \<Rightarrow> int" where
  "horizon tt = tt_beginTime tt + tt_parentMiningTime tt + tt_turnOutTime tt * 2 ^ 32"

lemma turnNumber_bounds:
  assumes "timesOK tt" "time < horizon tt"
  shows "0 \<le> turnNumber tt time" and "turnNumber tt time < 2 ^ 32"
proof -
  have o: "0 < tt_turnOutTime tt" using assms by (simp add: timesOK_def)
  show "0 \<le> turnNumber tt time"
    using o by (auto simp: turnNumber_def intro!: pos_imp_zdiv_nonneg_iff [THEN iffD2])
  have "time - tt_beginTime tt - tt_parentMiningTime tt < 2 ^ 32 * tt_turnOutTime tt"
    using assms(2) by (simp add: horizon_def)
  then show "turnNumber tt time < 2 ^ 32"
    using o by (auto simp: turnNumber_def intro: int_div_less)
qed

lemma u32_of_int_Suc:
  assumes "0 \<le> q" "q + 1 < 2 ^ 32"
  shows "uint (of_int q + 1 :: u32) = q + 1"
proof -
  have "(of_int q + 1 :: u32) = of_int (q + 1)" by simp
  then show ?thesis using assms by (simp only: uint_word_of_int) simp
qed

lemma CalState_pos:
  assumes "timesOK tt" "GetBeginTime tt ct \<le> time" "time < GetPosEndTime tt ct"
  shows "CalState tt ct time = (stPos, GetPosEndTime tt ct - time, 0)"
proof -
  define p where "p = tt_turnOutTime tt * uint ct"
  have "0 \<le> p" "p < 2 ^ 60" using turn_product [OF assms(1)] by (simp_all add: p_def)
  with assms show ?thesis
    unfolding CalState_def GetBeginTime_def GetPosEndTime_def CalTurnTime_exact [OF assms(1)]
    by (cases "ct = 0") (simp_all add: p_def [symmetric] timesOK_def i64_id Let_def)
qed

lemma CalState_reelect:
  assumes "timesOK tt" "GetPosEndTime tt ct \<le> time" "time < horizon tt"
  defines "q \<equiv> (time - GetPosEndTime tt ct) div tt_turnOutTime tt"
  shows "CalState tt ct time =
    (stReelect, snd (CalTurnTime tt ct (of_int q + 1)) - time, of_int q + 1)"
    and "0 \<le> q" and "uint ct + q + 1 = turnNumber tt time"
proof -
  define p where "p = tt_turnOutTime tt * uint ct"
  let ?b = "tt_beginTime tt" and ?m = "tt_parentMiningTime tt" and ?o = "tt_turnOutTime tt"
  have p: "0 \<le> p" "p < 2 ^ 60" using turn_product [OF assms(1)] by (simp_all add: p_def)
  have r: "0 \<le> ?b" "?b < 2 ^ 61" "0 \<le> ?m" "?m < 2 ^ 60" "0 < ?o" "?o < 2 ^ 28"
    using assms(1) by (simp_all add: timesOK_def)
  have e: "GetPosEndTime tt ct = ?b + ?m + p + ?o"
    by (simp add: GetPosEndTime_def CalTurnTime_exact [OF assms(1)] p_def)
  have bgn: "GetBeginTime tt ct = (if ct = 0 then ?b else ?b + ?m + p)"
    by (simp add: GetBeginTime_def CalTurnTime_exact [OF assms(1)] p_def)
  have t: "time < 2 ^ 62" using assms(3) r by (simp add: horizon_def)
  show q0: "0 \<le> q"
    using assms(2) r by (simp add: q_def pos_imp_zdiv_nonneg_iff)
  show tn: "uint ct + q + 1 = turnNumber tt time"
  proof -
    have "time - ?b - ?m = (time - GetPosEndTime tt ct) + (uint ct + 1) * ?o"
      by (simp add: e p_def algebra_simps)
    then have "(time - ?b - ?m) div ?o = uint ct + 1 + q"
      using r by (simp only: q_def) (rule div_mult_self1, simp)
    moreover have "\<not> time < ?b + ?m + ?o" using assms(2) p e by linarith
    ultimately show ?thesis by (simp add: turnNumber_def)
  qed
  have qb: "q \<le> time - GetPosEndTime tt ct"
  proof -
    have "q * 1 \<le> q * ?o" using q0 r by (intro mult_left_mono) simp_all
    also have "q * ?o \<le> time - GetPosEndTime tt ct" unfolding q_def using r by (intro int_div_bounds) simp
    finally show ?thesis by simp
  qed
  let ?e = "snd (CalTurnTime tt ct (of_int q + 1))"
  have eb: "0 \<le> ?e" "?e < 2 ^ 63"
    using turn_product [OF assms(1), of "ct + (of_int q + 1)"] r
    by (auto simp: CalTurnTime_exact [OF assms(1)])
  have i: "i64 (time - GetBeginTime tt ct) = time - GetBeginTime tt ct"
    "i64 (?o + ?m) = ?o + ?m"
    using assms(2) t r p by (auto simp: bgn e intro!: i64_id)
  have s: "time - GetBeginTime tt ct - (if ct = 0 then ?o + ?m else ?o) = time - GetPosEndTime tt ct"
    by (simp add: GetBeginTime_def GetPosEndTime_def CalTurnTime_exact [OF assms(1)])
  have d: "i64 (i64 (time - GetPosEndTime tt ct) sdiv ?o) = q"
    using assms(2) t r p qb q0 by (simp add: i64_id sdiv_nonneg e q_def)
  have "\<not> time - GetBeginTime tt ct < (if ct = 0 then ?o + ?m else ?o)"
    using s assms(2) by linarith
  then show "CalState tt ct time = (stReelect, ?e - time, of_int q + 1)"
    using r eb assms(2) t p unfolding CalState_def Let_def i s d
    by (simp add: s d i64_id e)
qed

lemma CheckTimeLegal_iff:
  "CheckTimeLegal tt ct rt time = Inr ()
   \<longleftrightarrow> fst (CalTurnTime tt (ct + rt) 0) < time \<and> time < snd (CalTurnTime tt (ct + rt) 0)"
  by (auto simp: CheckTimeLegal_def CalTurnTime_total [of tt ct rt] split: prod.splits if_splits)

lemma begin_le_GetBeginTime:
  assumes "timesOK tt"
  shows "tt_beginTime tt \<le> GetBeginTime tt ct"
  using turn_product(1) [OF assms, of ct] assms
  by (auto simp: GetBeginTime_def CalTurnTime_exact [OF assms] timesOK_def)

lemma turnNumber_contains:
  assumes "timesOK tt" "tt_beginTime tt \<le> time" "time < horizon tt" "uint k = turnNumber tt time"
  shows "fst (CalTurnTime tt k 0) \<le> time" and "time < snd (CalTurnTime tt k 0)"
proof -
  let ?d = "time - tt_beginTime tt - tt_parentMiningTime tt" and ?o = "tt_turnOutTime tt"
  have o: "0 < ?o" using assms(1) by (simp add: timesOK_def)
  have "fst (CalTurnTime tt k 0) \<le> time \<and> time < snd (CalTurnTime tt k 0)"
  proof (cases "time < tt_beginTime tt + tt_parentMiningTime tt + ?o")
    case True
    with assms(4) have "k = 0" by (simp add: turnNumber_def word_uint_eq_iff)
    with True assms(2) show ?thesis by (simp add: CalTurnTime_exact [OF assms(1)])
  next
    case False
    then have tn: "uint k = ?d div ?o" using assms(4) by (simp add: turnNumber_def)
    have "?o \<le> ?d" using False by simp
    then have "0 < ?d div ?o" using o by (simp add: pos_imp_zdiv_pos_iff)
    then have "k \<noteq> 0" using tn by auto
    then show ?thesis using int_div_bounds [OF o, of ?d] tn
      by (simp add: CalTurnTime_exact [OF assms(1)] mult.commute)
  qed
  then show "fst (CalTurnTime tt k 0) \<le> time" and "time < snd (CalTurnTime tt k 0)" by simp_all
qed

lemma CalState_in_turn:
  assumes "timesOK tt" "GetBeginTime tt ct \<le> time" "time < horizon tt"
    and "CalState tt ct time = (st, remain, rt)"
  shows "uint ct + uint rt = turnNumber tt time
    \<and> st = (if rt = 0 then stPos else stReelect)
    \<and> fst (CalTurnTime tt ct rt) \<le> time \<and> time < snd (CalTurnTime tt ct rt)
    \<and> remain = snd (CalTurnTime tt ct rt) - time"
proof -
  have b: "tt_beginTime tt \<le> time" using begin_le_GetBeginTime [OF assms(1), of ct] assms(2) by linarith
  note tb = turnNumber_bounds [OF assms(1,3)]
  have sum: "uint ct + uint rt = turnNumber tt time \<and> st = (if rt = 0 then stPos else stReelect)
    \<and> remain = snd (CalTurnTime tt ct rt) - time"
  proof (cases "time < GetPosEndTime tt ct")
    case True
    have "uint ct = turnNumber tt time"
    proof -
      obtain k :: u32 where k: "uint k = turnNumber tt time"
        using tb by (intro that [of "word_of_int (turnNumber tt time)"]) (simp add: uint_word_of_int)
      have "unat ct = unat k"
        using turnNumber_contains [OF assms(1) b assms(3) k] assms(1,2) True 
          unsigned_less [of ct, where ?'a = nat] unsigned_less [of k, where ?'a = nat]
        by (intro clock.turn_unique [of tt _ _ time]) (simp_all add: GetBeginTime_def GetPosEndTime_def)
      with k show ?thesis by (simp add: word_unat_eq_iff [symmetric])
    qed
    with CalState_pos [OF assms(1,2) True] assms(4) show ?thesis by (auto simp: GetPosEndTime_def)
  next
    case False
    let ?q = "(time - GetPosEndTime tt ct) div tt_turnOutTime tt"
    note r = CalState_reelect [OF assms(1) _ assms(3), of ct]
    have q: "0 \<le> ?q" "uint ct + ?q + 1 = turnNumber tt time" using r(2,3) False by simp_all
    then have "uint (of_int ?q + 1 :: u32) = ?q + 1"
      using tb uint_ge_0 [of ct] by (intro u32_of_int_Suc) linarith+
    moreover have "(stReelect, snd (CalTurnTime tt ct (of_int ?q + 1)) - time, of_int ?q + 1) = (st, remain, rt)"
      using r(1) False assms(4) by simp
    ultimately have "uint rt = ?q + 1" "st = stReelect" "remain = snd (CalTurnTime tt ct rt) - time" by auto
    moreover from this have "rt \<noteq> 0" using q by (auto simp: word_uint_eq_iff)
    ultimately show ?thesis using q by simp
  qed
  then have "uint (ct + rt) = turnNumber tt time"
    using tb by (simp add: uint_word_ariths)
  from turnNumber_contains [OF assms(1) b assms(3) this] sum show ?thesis
    by (simp add: CalTurnTime_total [of tt ct rt])
qed

definition exampleTimes :: turnTimes where
  "exampleTimes = \<lparr>tt_beginTime = 1000, tt_parentMiningTime = 20, tt_turnOutTime = 40,
                   tt_reelectHandleInterval = 3\<rparr>"

lemmas example_defs = exampleTimes_def timesOK_def horizon_def CalState_def GetBeginTime_def
  CalTurnTime_def CheckTimeLegal_def i64_def signed_divide_int_def Let_def

text \<open>C15. For every time from the begin of a consensus turn up to the horizon, the state, the
  re-election turn and the remaining time that \<open>CalState\<close> computes name the one turn the time
  belongs to: consensus turn plus re-election turn is the turn number of the specification
  (nothing wraps), the time lies between that turn's begin and end, the remaining time is what is
  left of it, and the state is POS exactly in re-election turn 0.\<close>

theorem CalState_turn:
  assumes "timesOK tt" "GetBeginTime tt ct \<le> time" "time < horizon tt"
    and "CalState tt ct time = (st, remain, rt)"
  shows "uint ct + uint rt = turnNumber tt time
    \<and> st = (if rt = 0 then stPos else stReelect)
    \<and> fst (CalTurnTime tt ct rt) \<le> time \<and> time < snd (CalTurnTime tt ct rt)
    \<and> remain = snd (CalTurnTime tt ct rt) - time"
  using assms by (rule CalState_in_turn)

theorem CalState_turn_witness:
  "CalState exampleTimes 0 1105 = (stReelect, 35, 2) \<and> turnNumber exampleTimes 1105 = 2"
proof -
  have ok: "timesOK exampleTimes" "GetBeginTime exampleTimes 0 \<le> 1105" "1105 < horizon exampleTimes"
    and c: "CalState exampleTimes 0 1105 = (stReelect, 35, 2)"
    by (simp_all add: example_defs)
  from CalState_turn [OF ok c] c show ?thesis by simp
qed



text \<open>The time stamp of a request is accepted for one turn only: two accepted pairs of consensus
  turn and re-election turn have the same sum.\<close>

lemma CheckTimeLegal_turn:
  assumes "timesOK tt" "CheckTimeLegal tt ct1 rt1 time = Inr ()" "CheckTimeLegal tt ct2 rt2 time = Inr ()"
  shows "ct1 + rt1 = ct2 + rt2"
proof -
  let ?a = "ct1 + rt1" and ?b = "ct2 + rt2"
  have "unat ?a = unat ?b"
    using assms unsigned_less [of ?a, where ?'a = nat] unsigned_less [of ?b, where ?'a = nat]
    by (intro clock.turn_unique [of tt _ _ time])
      (simp_all add: CheckTimeLegal_iff)
  then show ?thesis by (simp add: word_unat_eq_iff)
qed

end
