(* ===== verification/LeaderCal.thy ===== *)
theory LeaderCal
  imports TurnTimes ChainTypes
begin

text \<open>
  The leader calculator (\<open>leaderelect2.0/leaderCal.go\<close>): the list of leaders of a block height is
  the list of validators, rotated to start after the leader of the last ordinary block, and a turn
  selects one of them.  The chain's \<open>GetHeader\<close> is a parameter.

  The walk back over super blocks and broadcast blocks takes one step per block, so fuel of one
  more than the height is enough; \<open>getRealPreLeader_total\<close> shows that it never runs out.
\<close>

section \<open>State\<close>

record leaderData =
  ld_leader :: address
  ld_nextLeader :: address

definition copyData :: "leaderData \<Rightarrow> leaderData" where
  "copyData d = \<lparr>ld_leader = ld_leader d, ld_nextLeader = ld_nextLeader d\<rparr>"

text \<open>The account lists of the super nodes may be nil, which the consensus engine checks.\<close>

record specialAccounts =
  sa_broadcasts :: "address list"
  sa_versionSupers :: "address list option"
  sa_blockSupers :: "address list option"

record leaderCalculator =
  lc_number :: u64
  lc_preLeader :: address
  lc_preHash :: hash
  lc_leaderList :: "(u32, address) gomap"
  lc_validators :: "TopologyNodeInfo list"
  lc_specialAccounts :: specialAccounts

definition newLeaderCalculator :: "u64 \<Rightarrow> leaderCalculator" where
  "newLeaderCalculator number =
     \<lparr>lc_number = number, lc_preLeader = 0, lc_preHash = 0, lc_leaderList = mapMake, lc_validators = [],
      lc_specialAccounts = \<lparr>sa_broadcasts = [], sa_versionSupers = None, sa_blockSupers = None\<rparr>\<rparr>"

section \<open>The leader of the last ordinary block\<close>

type_synonym GetHeader = "hash \<Rightarrow> u64 \<Rightarrow> Header option"

text \<open>
  A missing header ends the process: the error message of that branch reads a field of the header
  that is nil.
\<close>

fun getRealPreLeaderLoop ::
  "nat \<Rightarrow> GetHeader \<Rightarrow> BCIntervalInfo \<Rightarrow> Header \<Rightarrow> u64 \<Rightarrow> bool \<Rightarrow> (error + (address \<times> bool)) option" where
  "getRealPreLeaderLoop 0 gh bcInterval header number preAppearSuper = Some (Inl ErrFuelExhausted)"
| "getRealPreLeaderLoop (Suc fuel) gh bcInterval header number preAppearSuper =
     do { cond \<leftarrow> (if IsSuperHeader header then Some True else IsBroadcastNumber bcInterval number);
          if \<not> cond then Some (Inr (h_Leader header, preAppearSuper))
          else
            (let preAppearSuper' = (if IsSuperHeader header then True else preAppearSuper)
             in if number = 0 then Some (Inr (h_Leader header, preAppearSuper'))
                else do { header' \<leftarrow> gh (h_ParentHash header) (number - 1);
                          getRealPreLeaderLoop fuel gh bcInterval header' (Uint64 (h_Number header'))
                            preAppearSuper' }) }"

definition getRealPreLeader ::
  "GetHeader \<Rightarrow> Header \<Rightarrow> BCIntervalInfo \<Rightarrow> (error + (address \<times> bool)) option" where
  "getRealPreLeader gh preHeader bcInterval =
     (let number = Uint64 (h_Number preHeader)
      in getRealPreLeaderLoop (Suc (unat number)) gh bcInterval preHeader number (IsSuperHeader preHeader))"

section \<open>The leader list\<close>

definition findLeaderIndex :: "address \<Rightarrow> TopologyNodeInfo list \<Rightarrow> error + nat" where
  "findLeaderIndex preLeader validators =
     (case indexOf (\<lambda>v. tn_Account v = preLeader) validators of
        Some i \<Rightarrow> Inr i
      | None \<Rightarrow> Inl ErrValidatorNotFound)"

definition fillLeaderList :: "TopologyNodeInfo list \<Rightarrow> nat \<Rightarrow> (u32, address) gomap" where
  "fillLeaderList validators startPos =
     fold (\<lambda>i. mapSet (of_nat i) (tn_Account (validators ! ((startPos + i) mod length validators))))
       [0..<length validators] mapMake"

definition leaderStartPos ::
  "address \<Rightarrow> u64 \<Rightarrow> bool \<Rightarrow> TopologyNodeInfo list \<Rightarrow> BCIntervalInfo \<Rightarrow> nat option" where
  "leaderStartPos preLeader curNumber preIsSupper validators bcInterval =
     do { c \<leftarrow> (if preIsSupper then Some True
                else do { c1 \<leftarrow> IsReElectionNumber bcInterval (curNumber - 1);
                          if c1 then Some True else IsReElectionNumber bcInterval curNumber });
          Some (if c then 0
                else (case findLeaderIndex preLeader validators of
                        Inl e \<Rightarrow> 0
                      | Inr preIndex \<Rightarrow> preIndex + 1)) }"

definition calLeaderList ::
  "address \<Rightarrow> u64 \<Rightarrow> bool \<Rightarrow> TopologyNodeInfo list \<Rightarrow> BCIntervalInfo \<Rightarrow> (u32, address) gomap option" where
  "calLeaderList preLeader curNumber preIsSupper validators bcInterval =
     do { startPos \<leftarrow> leaderStartPos preLeader curNumber preIsSupper validators bcInterval;
          Some (fillLeaderList validators startPos) }"

section \<open>Operations\<close>

definition SetValidatorsAndSpecials ::
  "Crypto \<Rightarrow> GetHeader \<Rightarrow> Header option \<Rightarrow> TopologyNodeInfo list option \<Rightarrow> specialAccounts option
   \<Rightarrow> BCIntervalInfo option \<Rightarrow> leaderCalculator \<Rightarrow> (error + leaderCalculator) option" where
  "SetValidatorsAndSpecials cr gh preHeader validators specials bcInterval lc =
     (case (preHeader, validators, specials, bcInterval) of
        (Some h, Some vs, Some sp, Some bc) \<Rightarrow>
          do { r \<leftarrow> getRealPreLeader gh h bc;
               case r of
                 Inl e \<Rightarrow> Some (Inl e)
               | Inr (realPreLeader, preAppearSuper) \<Rightarrow>
                   do { leaderList \<leftarrow> calLeaderList realPreLeader (lc_number lc) preAppearSuper vs bc;
                        Some (Inr (lc\<lparr>lc_leaderList := leaderList, lc_preLeader := h_Leader h,
                                      lc_preHash := Hash cr h, lc_validators := vs,
                                      lc_specialAccounts := sp\<rparr>)) } }
      | _ \<Rightarrow> Some (Inl ErrValidatorsIsNil))"

definition GetValidators :: "leaderCalculator \<Rightarrow> error + TopologyGraph" where
  "GetValidators lc =
     (if length (lc_validators lc) = 0 then Inl (Errorf ''validators is empty'')
      else Inr \<lparr>NodeList = lc_validators lc, CurNodeNumber = 0\<rparr>)"

text \<open>Reading a key that is not in the map gives the zero address.\<close>

definition leaderAt :: "leaderCalculator \<Rightarrow> u32 \<Rightarrow> address" where
  "leaderAt lc turn =
     (case mapGet (lc_leaderList lc) (turn mod of_nat (mapLen (lc_leaderList lc))) of
        Some a \<Rightarrow> a
      | None \<Rightarrow> 0)"

definition lcGetLeader :: "leaderCalculator \<Rightarrow> u32 \<Rightarrow> BCIntervalInfo option \<Rightarrow> (error + leaderData) option" where
  "lcGetLeader lc turn bcInterval =
     (case bcInterval of
        None \<Rightarrow> Some (Inl (Errorf ''param bcInterval is nil''))
      | Some bc \<Rightarrow>
          (let leaderCount = (of_nat (mapLen (lc_leaderList lc)) :: u32); number = lc_number lc
           in if leaderCount = 0 then Some (Inl ErrValidatorsIsNil)
              else do {
                re \<leftarrow> IsReElectionNumber bc number;
                if re then Some (Inr \<lparr>ld_leader = 0, ld_nextLeader = leaderAt lc turn\<rparr>)
                else do {
                  b \<leftarrow> IsBroadcastNumber bc number;
                  if b then Some (Inr \<lparr>ld_leader = 0, ld_nextLeader = leaderAt lc turn\<rparr>)
                  else do {
                    b' \<leftarrow> IsBroadcastNumber bc (number + 1);
                    Some (Inr \<lparr>ld_leader = leaderAt lc turn,
                               ld_nextLeader = (if b' then 0 else leaderAt lc (turn + 1))\<rparr>) } } }))"

section \<open>The walk back finds the last ordinary block\<close>

abbreviation blockNumber :: "Header \<Rightarrow> u64" where
  "blockNumber h \<equiv> Uint64 (h_Number h)"

text \<open>The chain returns, for a hash and a number, a header with that number.\<close>

definition headersNumbered :: "GetHeader \<Rightarrow> bool" where
  "headersNumbered gh \<longleftrightarrow> (\<forall>hash number h. gh hash number = Some h \<longrightarrow> blockNumber h = number)"

text \<open>
  The specification of the walk: from a header over super blocks and broadcast blocks to the first
  header that is neither, or to the genesis block, and whether a super block was met on the way.
\<close>

definition isSkipped :: "BCIntervalInfo \<Rightarrow> Header \<Rightarrow> bool" where
  "isSkipped bc h \<longleftrightarrow> IsSuperHeader h \<or> IsBroadcastNumber bc (blockNumber h) = Some True"

inductive preLeaderPath :: "GetHeader \<Rightarrow> BCIntervalInfo \<Rightarrow> Header \<Rightarrow> Header \<Rightarrow> bool \<Rightarrow> bool"
  for gh bc where
  ordinary: "\<not> IsSuperHeader h \<Longrightarrow> IsBroadcastNumber bc (blockNumber h) = Some False \<Longrightarrow> preLeaderPath gh bc h h False"
| genesis: "isSkipped bc h \<Longrightarrow> blockNumber h = 0 \<Longrightarrow> preLeaderPath gh bc h h (IsSuperHeader h)"
| skip: "isSkipped bc h \<Longrightarrow> blockNumber h \<noteq> 0 \<Longrightarrow> gh (h_ParentHash h) (blockNumber h - 1) = Some h'
    \<Longrightarrow> preLeaderPath gh bc h' f s \<Longrightarrow> preLeaderPath gh bc h f (IsSuperHeader h \<or> s)"

lemma preLeaderPath_super: "preLeaderPath gh bc h f s \<Longrightarrow> IsSuperHeader h \<Longrightarrow> s"
  by (induction rule: preLeaderPath.induct) auto

lemma unat_pred: "(n :: u64) \<noteq> 0 \<Longrightarrow> unat (n - 1) < unat n"
  using unat_eq_zero [of n] by (simp add: unat_minus_one)

lemma loop_complete:
  "preLeaderPath gh bc h f s \<Longrightarrow> headersNumbered gh \<Longrightarrow> unat (blockNumber h) < fuel
   \<Longrightarrow> getRealPreLeaderLoop fuel gh bc h (blockNumber h) pas = Some (Inr (h_Leader f, pas \<or> s))"
proof (induction arbitrary: fuel pas rule: preLeaderPath.induct)
  case (ordinary h)
  then show ?case by (cases fuel) auto
next
  case (genesis h)
  then show ?case by (cases fuel) (auto simp: isSkipped_def)
next
  case (skip h h' f s)
  then obtain k where k: "fuel = Suc k" by (cases fuel) auto
  have n: "blockNumber h' = blockNumber h - 1" using skip by (auto simp: headersNumbered_def)
  then have "unat (blockNumber h') < k" using unat_pred [OF skip.hyps(2)] skip.prems k by simp
  with skip k n show ?case by (auto simp: isSkipped_def)
qed

lemma loop_sound:
  "getRealPreLeaderLoop fuel gh bc h (blockNumber h) pas = Some r \<Longrightarrow> headersNumbered gh
   \<Longrightarrow> unat (blockNumber h) < fuel
   \<Longrightarrow> \<exists>f s. r = Inr (h_Leader f, pas \<or> s) \<and> preLeaderPath gh bc h f s"
proof (induction fuel arbitrary: h pas)
  case (Suc k)
  from Suc.prems(1) obtain cond where c: "(if IsSuperHeader h then Some True else IsBroadcastNumber bc (blockNumber h)) = Some cond"
    by (auto split: Option.bind_splits)
  show ?case
  proof (cases cond)
    case False
    with Suc.prems(1) c show ?thesis by (auto split: if_splits intro!: preLeaderPath.ordinary)
  next
    case True
    then have sk: "isSkipped bc h" using c by (auto simp: isSkipped_def split: if_splits)
    show ?thesis
    proof (cases "blockNumber h = 0")
      case True
      with Suc.prems(1) c sk \<open>cond\<close> show ?thesis
        by (intro exI [of _ h] exI [of _ "IsSuperHeader h"] conjI preLeaderPath.genesis) (auto split: if_splits)
    next
      case False
      with Suc.prems(1) c \<open>cond\<close> obtain h' where h': "gh (h_ParentHash h) (blockNumber h - 1) = Some h'"
        and r: "getRealPreLeaderLoop k gh bc h' (blockNumber h') (IsSuperHeader h \<or> pas) = Some r"
        by (auto split: Option.bind_splits if_splits)
      have n: "blockNumber h' = blockNumber h - 1" using Suc.prems(2) h' by (auto simp: headersNumbered_def)
      then have "unat (blockNumber h') < k" using unat_pred [OF False] Suc.prems(3) by simp
      from Suc.IH [OF r Suc.prems(2) this] obtain f s where
        "r = Inr (h_Leader f, (IsSuperHeader h \<or> pas) \<or> s)" "preLeaderPath gh bc h' f s" by blast
      with sk False h' show ?thesis
        by (intro exI [of _ f] exI [of _ "IsSuperHeader h \<or> s"]) (auto intro: preLeaderPath.skip)
    qed
  qed
qed simp

lemma getRealPreLeader_path:
  assumes "headersNumbered gh"
  shows "getRealPreLeader gh h bc = Some r
    \<longleftrightarrow> (\<exists>f s. r = Inr (h_Leader f, s) \<and> preLeaderPath gh bc h f s)"
proof
  assume "getRealPreLeader gh h bc = Some r"
  then obtain f s where r: "r = Inr (h_Leader f, IsSuperHeader h \<or> s)" and p: "preLeaderPath gh bc h f s"
    using loop_sound [of "Suc (unat (blockNumber h))" gh bc h "IsSuperHeader h" r] assms
    by (auto simp: getRealPreLeader_def Let_def simp del: getRealPreLeaderLoop.simps)
  have "(IsSuperHeader h \<or> s) = s" using preLeaderPath_super [OF p] by blast
  with r p show "\<exists>f s. r = Inr (h_Leader f, s) \<and> preLeaderPath gh bc h f s"
    by (intro exI [of _ f] exI [of _ s]) simp
next
  assume "\<exists>f s. r = Inr (h_Leader f, s) \<and> preLeaderPath gh bc h f s"
  then obtain f s where "r = Inr (h_Leader f, s)" and p: "preLeaderPath gh bc h f s" by blast
  moreover have "(IsSuperHeader h \<or> s) = s" using preLeaderPath_super [OF p] by blast
  ultimately show "getRealPreLeader gh h bc = Some r"
    using loop_complete [OF p assms, of "Suc (unat (blockNumber h))" "IsSuperHeader h"]
    by (simp add: getRealPreLeader_def Let_def del: getRealPreLeaderLoop.simps)
qed

section \<open>The leader list is a rotation of the validators\<close>

lemma fold_mapSet:
  assumes "n \<le> 2 ^ 32"
  shows "mapOK (fold (\<lambda>i. mapSet (of_nat i :: u32) (f i)) [0..<n] mapMake)
    \<and> mapLen (fold (\<lambda>i. mapSet (of_nat i :: u32) (f i)) [0..<n] mapMake) = n
    \<and> (\<forall>k. mapGet (fold (\<lambda>i. mapSet (of_nat i :: u32) (f i)) [0..<n] mapMake) k
           = (if unat k < n then Some (f (unat k)) else None))"
  using assms
proof (induction n)
  case 0
  show ?case by (simp add: map_specs)
next
  case (Suc n)
  let ?m = "fold (\<lambda>i. mapSet (of_nat i :: u32) (f i)) [0..<n] mapMake"
  have u: "unat (of_nat n :: u32) = n" using Suc.prems by (simp add: unat_of_nat)
  have "k = of_nat n \<longleftrightarrow> unat k = n" for k :: u32 using u by (metis word_of_unat)
  with Suc u show ?case by (auto simp: map_specs less_Suc_eq)
qed

lemma fillLeaderList_facts:
  assumes "length vs \<le> 2 ^ 32"
  shows "mapLen (fillLeaderList vs s) = length vs"
    and "mapGet (fillLeaderList vs s) k =
      (if unat k < length vs then Some (tn_Account (vs ! ((s + unat k) mod length vs))) else None)"
  using fold_mapSet [OF assms, of "\<lambda>i. tn_Account (vs ! ((s + i) mod length vs))"]
  by (simp_all add: fillLeaderList_def)

text \<open>What the calculator holds after it has been set.\<close>

definition lcOK :: "leaderCalculator \<Rightarrow> bool" where
  "lcOK lc \<longleftrightarrow> length (lc_validators lc) < 2 ^ 32
     \<and> (\<exists>s. lc_leaderList lc = fillLeaderList (lc_validators lc) s)"

lemma SetValidatorsAndSpecials_cases:
  assumes "SetValidatorsAndSpecials cr gh ph vs sp bc lc = Some (Inr lc')"
  obtains h v s b l pas ll where "ph = Some h" "vs = Some v" "sp = Some s" "bc = Some b"
    "getRealPreLeader gh h b = Some (Inr (l, pas))" "calLeaderList l (lc_number lc) pas v b = Some ll"
    "lc' = lc\<lparr>lc_leaderList := ll, lc_preLeader := h_Leader h, lc_preHash := Hash cr h,
              lc_validators := v, lc_specialAccounts := s\<rparr>"
  using assms
  by (auto simp: SetValidatorsAndSpecials_def split: option.splits Option.bind_splits sum.splits prod.splits)

lemma SetValidatorsAndSpecials_lcOK:
  assumes "SetValidatorsAndSpecials cr gh ph (Some v) sp bc lc = Some (Inr lc')" "length v < 2 ^ 32"
  shows "lcOK lc' \<and> lc_validators lc' = v \<and> lc_number lc' = lc_number lc"
  using assms(1)
proof (cases rule: SetValidatorsAndSpecials_cases)
  case (1 h w s b l pas ll)
  with assms(2) show ?thesis
    by (auto simp: lcOK_def calLeaderList_def split: Option.bind_splits)
qed

lemma leaderAt_rotation:
  assumes "lc_leaderList lc = fillLeaderList (lc_validators lc) s" "length (lc_validators lc) < 2 ^ 32"
    "lc_validators lc \<noteq> []"
  shows "leaderAt lc turn = tn_Account (lc_validators lc ! ((s + unat turn) mod length (lc_validators lc)))"
proof -
  let ?n = "length (lc_validators lc)"
  have "unat (of_nat ?n :: u32) = ?n" using assms(2) by (simp add: unat_of_nat)
  then have "unat (turn mod of_nat ?n) = unat turn mod ?n" by (simp add: unat_mod)
  moreover have "unat turn mod ?n < ?n" using assms(3) by simp
  ultimately show ?thesis
    using assms(2) by (simp add: leaderAt_def assms(1) fillLeaderList_facts mod_add_right_eq)
qed

section \<open>A fair schedule\<close>

text \<open>
  What the rest of the service needs of its leaders: a turn has one leader, a member of the group,
  and every member leads once in as many consecutive turns as the group has members, as long as
  the 32-bit turn number does not wrap.
\<close>

locale leader_schedule =
  fixes leader :: "'s \<Rightarrow> u32 \<Rightarrow> address"
    and members :: "'s \<Rightarrow> address list"
    and ok :: "'s \<Rightarrow> bool"
  assumes window: "ok s \<Longrightarrow> unat turn + length (members s) \<le> 2 ^ 32
    \<Longrightarrow> mset (map (\<lambda>i. leader s (turn + of_nat i)) [0..<length (members s)]) = mset (members s)"
    and member: "ok s \<Longrightarrow> leader s turn \<in> set (members s)"
begin

lemma leads_in_window:
  assumes "ok s" "unat turn + length (members s) \<le> 2 ^ 32" "a \<in> set (members s)"
  shows "\<exists>i < length (members s). leader s (turn + of_nat i) = a"
proof -
  have "a \<in> set (map (\<lambda>i. leader s (turn + of_nat i)) [0..<length (members s)])"
    using window [OF assms(1,2)] assms(3) by (metis set_mset_mset)
  then show ?thesis by auto
qed

end

lemma mset_rotation: "mset (map (\<lambda>i. xs ! ((k + i) mod length xs)) [0..<length xs]) = mset xs"
proof -
  have "map (\<lambda>i. xs ! ((k + i) mod length xs)) [0..<length xs] = rotate k xs"
    by (rule nth_equalityI) (simp_all add: nth_rotate)
  also have "mset (rotate k xs) = mset xs"
    by (metis append_take_drop_id mset_append rotate_drop_take union_commute)
  finally show ?thesis by (simp only:)
qed

interpretation schedule: leader_schedule leaderAt "\<lambda>lc. map tn_Account (lc_validators lc)"
  "\<lambda>lc. lcOK lc \<and> lc_validators lc \<noteq> []"
proof
  fix lc :: leaderCalculator and turn
  let ?vs = "lc_validators lc" and ?n = "length (map tn_Account (lc_validators lc))"
  assume ok: "lcOK lc \<and> ?vs \<noteq> []"
  then obtain s where s: "lc_leaderList lc = fillLeaderList ?vs s" "length ?vs < 2 ^ 32" "?vs \<noteq> []"
    by (auto simp: lcOK_def)
  note rot = leaderAt_rotation [OF s]
  show "leaderAt lc turn \<in> set (map tn_Account ?vs)" using s(3) by (simp add: rot)
  show "mset (map (\<lambda>i. leaderAt lc (turn + of_nat i)) [0..<?n]) = mset (map tn_Account ?vs)"
    if w: "unat turn + ?n \<le> 2 ^ 32"
  proof -
    have "unat (turn + of_nat i) = unat turn + i" if "i < length ?vs" for i
      using that w s(2) by (simp add: unat_word_ariths unat_of_nat)
    then have "map (\<lambda>i. leaderAt lc (turn + of_nat i)) [0..<?n]
        = map tn_Account (map (\<lambda>i. ?vs ! ((s + unat turn + i) mod length ?vs)) [0..<length ?vs])"
      by (simp add: rot add.assoc)
    also have "mset \<dots> = image_mset tn_Account (mset (map (\<lambda>i. ?vs ! ((s + unat turn + i) mod length ?vs)) [0..<length ?vs]))"
      by (rule mset_map)
    also have "\<dots> = image_mset tn_Account (mset ?vs)" by (simp only: mset_rotation)
    also have "\<dots> = mset (map tn_Account ?vs)" by simp
    finally show ?thesis .
  qed
qed

section \<open>Properties\<close>

text \<open>C18. When the chain returns headers with the numbers asked for, the walk back over super blocks
  and broadcast blocks ends, without an error, at the first header that is neither, or at the
  genesis block: the result is that header's leader and whether a super block was met, and there
  is no result only where a header on the way is missing or the broadcast interval is 0.\<close>

theorem getRealPreLeader_ordinary:
  assumes "headersNumbered gh"
  shows "getRealPreLeader gh h bc = Some r
    \<longleftrightarrow> (\<exists>f s. r = Inr (h_Leader f, s) \<and> preLeaderPath gh bc h f s)"
  using assms by (rule getRealPreLeader_path)

definition exampleInterval :: BCIntervalInfo where
  "exampleInterval = \<lparr>LastBCNumber = 0, LastReelectNumber = 0, BCInterval = 4, BackupEnableNumber = 0,
                      BackupBCInterval = 0\<rparr>"

definition exampleChain :: GetHeader where
  "exampleChain hash number = (if number = 3 then Some (exampleHeader\<lparr>h_Number := 3, h_Leader := 11\<rparr>) else None)"

lemmas loop_numeral = getRealPreLeaderLoop.simps(2) [of "pred_numeral k" for k, folded numeral_eq_Suc]

theorem getRealPreLeader_ordinary_witness:
  "getRealPreLeader exampleChain (exampleHeader\<lparr>h_Number := 4\<rparr>) exampleInterval = Some (Inr (11, False))
   \<and> (\<exists>f. preLeaderPath exampleChain exampleInterval (exampleHeader\<lparr>h_Number := 4\<rparr>) f False \<and> h_Leader f = 11)"
proof -
  have n: "headersNumbered exampleChain"
    by (simp add: headersNumbered_def exampleChain_def Uint64_def split: if_splits)
  have r: "getRealPreLeader exampleChain (exampleHeader\<lparr>h_Number := 4\<rparr>) exampleInterval = Some (Inr (11, False))"
    by (simp add: getRealPreLeader_def Uint64_def IsSuperHeader_def exampleHeader_def IsBroadcastNumber_def
        exampleInterval_def exampleChain_def loop_numeral)
  from getRealPreLeader_ordinary [OF n, of "exampleHeader\<lparr>h_Number := 4\<rparr>" exampleInterval "Inr (11, False)"] r
  show ?thesis by auto
qed

text \<open>Every header the chain returns has its parent in the chain, down to the genesis block.\<close>

definition parentsKnown :: "GetHeader \<Rightarrow> Header \<Rightarrow> bool" where
  "parentsKnown gh h \<longleftrightarrow>
     (blockNumber h \<noteq> 0 \<longrightarrow> gh (h_ParentHash h) (blockNumber h - 1) \<noteq> None)
     \<and> (\<forall>hash number h'. gh hash number = Some h' \<longrightarrow> number \<noteq> 0 \<longrightarrow> gh (h_ParentHash h') (number - 1) \<noteq> None)"

lemma preLeaderPath_exists:
  "headersNumbered gh \<Longrightarrow> BCInterval bc \<noteq> 0 \<Longrightarrow> parentsKnown gh h \<Longrightarrow> \<exists>f s. preLeaderPath gh bc h f s"
proof (induction "unat (blockNumber h)" arbitrary: h rule: less_induct)
  case less
  obtain b where b: "IsBroadcastNumber bc (blockNumber h) = Some b" using less.prems(2)
    by (cases "IsBroadcastNumber bc (blockNumber h)") (simp_all add: IsBroadcastNumber_def split: if_splits)
  have sk: "isSkipped bc h \<longleftrightarrow> IsSuperHeader h \<or> b" by (simp add: isSkipped_def b)
  have pk: "blockNumber h \<noteq> 0 \<Longrightarrow> \<exists>h'. gh (h_ParentHash h) (blockNumber h - 1) = Some h'"
    using less.prems(3) by (simp add: parentsKnown_def)
  consider (ordinary) "\<not> IsSuperHeader h \<and> \<not> b" | (genesis) "isSkipped bc h" "blockNumber h = 0"
    | (skip) h' where "isSkipped bc h" "blockNumber h \<noteq> 0" "gh (h_ParentHash h) (blockNumber h - 1) = Some h'"
    using sk pk by blast
  then show ?case
  proof cases
    case skip
    have n: "blockNumber h' = blockNumber h - 1" using less.prems(1) skip(3) by (auto simp: headersNumbered_def)
    have "unat (blockNumber h') < unat (blockNumber h)" using unat_pred [OF skip(2)] skip(2) n by simp
    moreover have "parentsKnown gh h'" using less.prems(3) skip(3) unfolding parentsKnown_def n by blast
    ultimately obtain f s where "preLeaderPath gh bc h' f s" using less by blast
    with skip show ?thesis by (blast intro: preLeaderPath.skip)
  qed (use b in \<open>auto intro: preLeaderPath.intros\<close>)
qed

text \<open>C19. The walk back ends: on a chain that has the parents of its headers, with a positive broadcast
  period, it returns a leader after at most as many steps as the block number (the loop has no bound
  of its own), and never needs a header the chain does not have.\<close>

theorem getRealPreLeader_terminates:
  assumes "headersNumbered gh" "BCInterval bc \<noteq> 0" "parentsKnown gh h"
  shows "\<exists>leader super. getRealPreLeader gh h bc = Some (Inr (leader, super))"
  using preLeaderPath_exists [OF assms] getRealPreLeader_path [OF assms(1)] by blast

theorem getRealPreLeader_terminates_witness:
  "\<exists>leader super. getRealPreLeader (\<lambda>hash number. if number < 9 then Some (exampleHeader\<lparr>h_Number := uint number\<rparr>) else None)
     (exampleHeader\<lparr>h_Number := 9\<rparr>) exampleInterval = Some (Inr (leader, super))"
proof (rule getRealPreLeader_terminates)
  have n: "Uint64 (uint (n :: u64)) = n" for n by (simp add: Uint64_def)
  show "headersNumbered (\<lambda>hash number. if number < 9 then Some (exampleHeader\<lparr>h_Number := uint number\<rparr>) else None)"
    by (auto simp: headersNumbered_def n split: if_splits)
  show "BCInterval exampleInterval \<noteq> 0" by (simp add: exampleInterval_def)
  have "n - 1 < 9" if "n < 9" "n \<noteq> 0" for n :: u64
    using that unat_pred [OF that(2)] by (simp add: word_less_nat_alt)
  then show "parentsKnown (\<lambda>hash number. if number < 9 then Some (exampleHeader\<lparr>h_Number := uint number\<rparr>) else None)
      (exampleHeader\<lparr>h_Number := 9\<rparr>)"
    by (auto simp: parentsKnown_def Uint64_def split: if_splits)
qed

lemma lcGetLeader_ordinary:
  assumes "lcOK lc" "lc_validators lc \<noteq> []" "IsReElectionNumber bc (lc_number lc) = Some False"
    "IsBroadcastNumber bc (lc_number lc) = Some False" "IsBroadcastNumber bc (lc_number lc + 1) = Some b"
  shows "lcGetLeader lc turn (Some bc) =
    Some (Inr \<lparr>ld_leader = leaderAt lc turn, ld_nextLeader = (if b then 0 else leaderAt lc (turn + 1))\<rparr>)"
proof -
  from assms(1) obtain s where s: "lc_leaderList lc = fillLeaderList (lc_validators lc) s"
    "length (lc_validators lc) < 2 ^ 32" by (auto simp: lcOK_def)
  have "unat (of_nat (mapLen (lc_leaderList lc)) :: u32) = length (lc_validators lc)"
    using s by (simp add: fillLeaderList_facts unat_of_nat)
  then have "(of_nat (mapLen (lc_leaderList lc)) :: u32) \<noteq> 0" using assms(2) by force
  then show ?thesis using assms(3-5) by (simp add: lcGetLeader_def Let_def)
qed


definition exampleNodes :: "TopologyNodeInfo list" where
  "exampleNodes = map (\<lambda>a. \<lparr>tn_Account = a, tn_Position = 0x2000, tn_Type = RoleValidator, tn_NodeNumber = 0\<rparr>)
     [10, 11, 12, 13]"

lemma exampleNodes_facts:
  "length exampleNodes = 4" "exampleNodes \<noteq> []" "map tn_Account exampleNodes = [10, 11, 12, 13]"
  "tn_Account (exampleNodes ! 0) = 10" "tn_Account (exampleNodes ! 3) = 13"
  by (simp_all add: exampleNodes_def)

definition exampleSpecials :: specialAccounts where
  "exampleSpecials = \<lparr>sa_broadcasts = [], sa_versionSupers = None, sa_blockSupers = None\<rparr>"

lemmas lc_eval = SetValidatorsAndSpecials_def getRealPreLeader_def Uint64_def IsSuperHeader_def
  exampleHeader_def exampleInterval_def exampleChain_def exampleNodes_def exampleSpecials_def
  IsBroadcastNumber_def IsReElectionNumber_def calLeaderList_def leaderStartPos_def findLeaderIndex_def
  fillLeaderList_def mapMake_def mapSet_def mapGet_def mapLen_def loop_numeral ReelectionTimes_def


text \<open>The leader of turn 0 follows the leader of the last ordinary block: if that leader is the
  validator at index \<open>i\<close> (and at none before), no super block was met, and neither this height nor
  the one before is an election height, then the list starts with the next validator, cyclically.\<close>

lemma calLeaderList_successor:
  assumes "IsReElectionNumber bc (curNumber - 1) = Some False" "IsReElectionNumber bc curNumber = Some False"
    and "i < length vs" "tn_Account (vs ! i) = preLeader" "\<forall>j < i. tn_Account (vs ! j) \<noteq> preLeader"
    and "length vs < 2 ^ 32"
  shows "\<exists>ll. calLeaderList preLeader curNumber False vs bc = Some ll \<and> mapLen ll = length vs
    \<and> mapGet ll 0 = Some (tn_Account (vs ! (Suc i mod length vs)))"
proof -
  have "\<exists>k. indexOf (\<lambda>v. tn_Account v = preLeader) vs = Some k"
    using assms(3,4) by (intro indexOf_ex) auto
  then obtain k where k: "indexOf (\<lambda>v. tn_Account v = preLeader) vs = Some k" by blast
  from indexOf_Some [OF k] assms(4,5) have "k = i" by (metis linorder_neqE_nat)
  with k assms show ?thesis
    by (cases vs) (auto simp: calLeaderList_def leaderStartPos_def findLeaderIndex_def fillLeaderList_facts)
qed

end
