(* ===== verification/ChainReader.thy ===== *)
theory ChainReader
  imports MtxDpos LeaderCal
begin

text \<open>
  The chain as the consensus services read it: the getters of \<open>core/blockchain_state.go\<close> and
  \<open>core/topology_store.go\<close>, the account delegation of \<open>core/blockchain.go\<close>, and the two state
  values that are produced from block to block, the topology graph and the broadcast interval.

  A state is the record of the values that package \<open>matrixstate\<close> and the deposit contract read from
  it; the trie below is not modelled.  The chain is a record of its block and state lookups.
  A delegation has three levels: a deposit account A0 has one signing account A1, and A1 may
  entrust accounts A2 for a range of block numbers.
\<close>

section \<open>States and chains\<close>

record SuperBlkCfg =
  sb_Seq :: u64
  sb_Num :: u64

record StateDB =
  st_TopologyGraph :: "error + TopologyGraph"
  st_ElectGraph :: "error + ElectGraph"
  st_ElectOnlineState :: "error + ElectOnlineStatus"
  st_BroadcastInterval :: "error + BCIntervalInfo"
  st_BroadcastAccounts :: "error + address list"
  st_InnerMinerAccounts :: "error + address list"
  st_VersionSuperAccounts :: "error + address list option"
  st_BlockSuperAccounts :: "error + address list option"
  st_LeaderConfig :: "error + LeaderConfig"
  st_SuperBlockCfg :: "error + SuperBlkCfg"
  st_GetDepositAccount :: "address \<Rightarrow> address"
  st_GetAuthAccount :: "address \<Rightarrow> address"
  st_GetEntrustFrom :: "address \<Rightarrow> u64 \<Rightarrow> address list"
  st_GetAuthFrom :: "address \<Rightarrow> u64 \<Rightarrow> address"

text \<open>A block is its header here; \<open>bc_entrustValue\<close> holds the accounts this node can sign with.\<close>

record BlockChain =
  bc_GetHeader :: GetHeader
  bc_GetHeaderByHash :: "hash \<Rightarrow> Header option"
  bc_GetBlockByHash :: "hash \<Rightarrow> Header option"
  bc_GetBlockByNumber :: "u64 \<Rightarrow> Header option"
  bc_CurrentBlock :: "Header option"
  bc_StateAt :: "CoinRoot list \<Rightarrow> error + StateDB"
  bc_entrustValue :: "(address, string) gomap"

definition StateAtNumber :: "BlockChain \<Rightarrow> u64 \<Rightarrow> error + StateDB" where
  "StateAtNumber bc number =
     (case bc_GetBlockByNumber bc number of
        None \<Rightarrow> Inl (Errorf ''can not find block by number'')
      | Some block \<Rightarrow> bc_StateAt bc (h_Roots block))"

definition StateAtBlockHash :: "BlockChain \<Rightarrow> hash \<Rightarrow> error + StateDB" where
  "StateAtBlockHash bc h =
     (case bc_GetBlockByHash bc h of
        None \<Rightarrow> Inl (Errorf ''can not find block by hash'')
      | Some block \<Rightarrow> bc_StateAt bc (h_Roots block))"

definition chainGetHashByNumber :: "Crypto \<Rightarrow> BlockChain \<Rightarrow> u64 \<Rightarrow> hash" where
  "chainGetHashByNumber cr bc number =
     (case bc_GetBlockByNumber bc number of None \<Rightarrow> 0 | Some block \<Rightarrow> Hash cr block)"

definition chainGetCurrentHash :: "Crypto \<Rightarrow> BlockChain \<Rightarrow> hash" where
  "chainGetCurrentHash cr bc = (case bc_CurrentBlock bc of None \<Rightarrow> 0 | Some block \<Rightarrow> Hash cr block)"

section \<open>Values of the state\<close>

definition GetTopologyGraphByHash :: "BlockChain \<Rightarrow> hash \<Rightarrow> error + TopologyGraph" where
  "GetTopologyGraphByHash bc blockHash =
     (case StateAtBlockHash bc blockHash of Inl e \<Rightarrow> Inl e | Inr st \<Rightarrow> st_TopologyGraph st)"

definition GetElectGraphByHash :: "BlockChain \<Rightarrow> hash \<Rightarrow> error + ElectGraph" where
  "GetElectGraphByHash bc blockHash =
     (case StateAtBlockHash bc blockHash of Inl e \<Rightarrow> Inl e | Inr st \<Rightarrow> st_ElectGraph st)"

definition GetOriginalElectByHash :: "BlockChain \<Rightarrow> hash \<Rightarrow> error + Elect list" where
  "GetOriginalElectByHash bc blockHash =
     (case GetElectGraphByHash bc blockHash of
        Inl e \<Rightarrow> Inl e
      | Inr elect \<Rightarrow> Inr (TransferElect2CommonElect elect))"

definition GetNextElectByHash :: "BlockChain \<Rightarrow> hash \<Rightarrow> error + Elect list" where
  "GetNextElectByHash bc blockHash =
     (case GetElectGraphByHash bc blockHash of
        Inl e \<Rightarrow> Inl e
      | Inr elect \<Rightarrow> Inr (TransferNextElect2CommonElect elect))"

definition GetElectOnlineStateByHash :: "BlockChain \<Rightarrow> hash \<Rightarrow> error + ElectOnlineStatus" where
  "GetElectOnlineStateByHash bc blockHash =
     (case StateAtBlockHash bc blockHash of Inl e \<Rightarrow> Inl e | Inr st \<Rightarrow> st_ElectOnlineState st)"

definition GetSuperSeq :: "BlockChain \<Rightarrow> hash \<Rightarrow> error + u64" where
  "GetSuperSeq bc blockHash =
     (case StateAtBlockHash bc blockHash of
        Inl e \<Rightarrow> Inl e
      | Inr st \<Rightarrow> map_sum id sb_Seq (st_SuperBlockCfg st))"

definition chainGetGraphByHash :: "BlockChain \<Rightarrow> hash \<Rightarrow> error + (TopologyGraph \<times> ElectGraph)" where
  "chainGetGraphByHash bc h =
     (case GetTopologyGraphByHash bc h of
        Inl e \<Rightarrow> Inl e
      | Inr topologyGraph \<Rightarrow>
          (case GetElectGraphByHash bc h of
             Inl e \<Rightarrow> Inl e
           | Inr electGraph \<Rightarrow> Inr (topologyGraph, electGraph)))"

definition GetGraphByState :: "StateDB \<Rightarrow> error + (TopologyGraph \<times> ElectGraph)" where
  "GetGraphByState st =
     (case st_TopologyGraph st of
        Inl e \<Rightarrow> Inl e
      | Inr topologyGraph \<Rightarrow>
          (case st_ElectGraph st of
             Inl e \<Rightarrow> Inl e
           | Inr electGraph \<Rightarrow> Inr (topologyGraph, electGraph)))"

text \<open>The getters by block hash wrap the error of the state lookup and pass the reader's error on.\<close>

definition readAt :: "BlockChain \<Rightarrow> hash \<Rightarrow> (StateDB \<Rightarrow> error + 'a) \<Rightarrow> error + 'a" where
  "readAt bc blockHash reader =
     (case StateAtBlockHash bc blockHash of
        Inl e \<Rightarrow> Inl (Errorf ''get state by hash err'')
      | Inr st \<Rightarrow> reader st)"

definition chainGetBroadcastIntervalByHash :: "BlockChain \<Rightarrow> hash \<Rightarrow> error + BCIntervalInfo" where
  "chainGetBroadcastIntervalByHash bc blockHash = readAt bc blockHash st_BroadcastInterval"

definition chainGetBroadcastAccounts :: "BlockChain \<Rightarrow> hash \<Rightarrow> error + address list" where
  "chainGetBroadcastAccounts bc blockHash = readAt bc blockHash st_BroadcastAccounts"

definition chainGetInnerMinerAccounts :: "BlockChain \<Rightarrow> hash \<Rightarrow> error + address list" where
  "chainGetInnerMinerAccounts bc blockHash = readAt bc blockHash st_InnerMinerAccounts"

definition chainGetVersionSuperAccounts :: "BlockChain \<Rightarrow> hash \<Rightarrow> error + address list option" where
  "chainGetVersionSuperAccounts bc blockHash = readAt bc blockHash st_VersionSuperAccounts"

definition chainGetBlockSuperAccounts :: "BlockChain \<Rightarrow> hash \<Rightarrow> error + address list option" where
  "chainGetBlockSuperAccounts bc blockHash = readAt bc blockHash st_BlockSuperAccounts"

definition chainGetBroadcastIntervalByNumber :: "BlockChain \<Rightarrow> u64 \<Rightarrow> error + BCIntervalInfo" where
  "chainGetBroadcastIntervalByNumber bc number =
     (case StateAtNumber bc number of
        Inl e \<Rightarrow> Inl (Errorf ''get state by number err'')
      | Inr st \<Rightarrow> st_BroadcastInterval st)"

section \<open>Delegated accounts\<close>

fun GetSignAccountPassword :: "(address, string) gomap \<Rightarrow> address list \<Rightarrow> error + (address \<times> string)" where
  "GetSignAccountPassword entrustValue [] = Inl (Errorf ''password not found'')"
| "GetSignAccountPassword entrustValue (signAccount # signAccounts) =
     (case mapGet entrustValue signAccount of
        Some password \<Rightarrow> Inr (signAccount, password)
      | None \<Rightarrow> GetSignAccountPassword entrustValue signAccounts)"

definition GetA2AccountsFromA1AccountAtSignHeight :: "address \<Rightarrow> StateDB \<Rightarrow> u64 \<Rightarrow> error + address list" where
  "GetA2AccountsFromA1AccountAtSignHeight a1Account st signHeight =
     Inr (st_GetEntrustFrom st a1Account signHeight @ [a1Account])"

definition GetA2AccountsFromA1Account :: "address \<Rightarrow> Header \<Rightarrow> StateDB \<Rightarrow> error + address list" where
  "GetA2AccountsFromA1Account a1Account block st =
     (let height = Uint64 (h_Number block)
      in Inr (st_GetEntrustFrom st a1Account height @ [a1Account]))"

definition GetA1AccountFromA2AccountAtSignHeight :: "address \<Rightarrow> StateDB \<Rightarrow> u64 \<Rightarrow> error + address" where
  "GetA1AccountFromA2AccountAtSignHeight a2Account st signHeight =
     (let a1Account = st_GetAuthFrom st a2Account signHeight
      in if a1Account = 0 then Inl (Errorf ''A1 account is empty'') else Inr a1Account)"

definition GetA1AccountFromA2Account :: "address \<Rightarrow> Header \<Rightarrow> StateDB \<Rightarrow> error + address" where
  "GetA1AccountFromA2Account a2Account block st =
     (let a1Account = st_GetAuthFrom st a2Account (Uint64 (h_Number block))
      in if a1Account = 0 then Inl (Errorf ''A1 account is empty'') else Inr a1Account)"

definition GetA1AccountFromA0Account :: "address \<Rightarrow> StateDB \<Rightarrow> error + address" where
  "GetA1AccountFromA0Account a0Account st =
     (let a1Account = st_GetAuthAccount st a0Account
      in if a1Account = 0 then Inl (Errorf ''no A1 account'') else Inr a1Account)"

definition GetA0AccountFromA1Account :: "address \<Rightarrow> StateDB \<Rightarrow> error + address" where
  "GetA0AccountFromA1Account a1Account st =
     (let a0Account = st_GetDepositAccount st a1Account
      in if a0Account = 0 then Inl (Errorf ''no A0 account'') else Inr a0Account)"

text \<open>\<open>getStateCache\<close> returns the state of the roots, from a cache or from the database.\<close>

definition chainGetA2AccountsFromA0Account :: "BlockChain \<Rightarrow> address \<Rightarrow> hash \<Rightarrow> error + address list" where
  "chainGetA2AccountsFromA0Account bc a0Account blockHash =
     (case bc_GetBlockByHash bc blockHash of
        None \<Rightarrow> Inl (Errorf ''get block err'')
      | Some block \<Rightarrow>
          (case bc_StateAt bc (h_Roots block) of
             Inl e \<Rightarrow> Inl (Errorf ''get stateDB err'')
           | Inr st \<Rightarrow>
               (case GetA1AccountFromA0Account a0Account st of
                  Inl e \<Rightarrow> Inl e
                | Inr a1Account \<Rightarrow> GetA2AccountsFromA1Account a1Account block st)))"

definition chainGetA0AccountFromAnyAccount :: "BlockChain \<Rightarrow> address \<Rightarrow> hash \<Rightarrow> error + (address \<times> address)" where
  "chainGetA0AccountFromAnyAccount bc account blockHash =
     (case bc_GetBlockByHash bc blockHash of
        None \<Rightarrow> Inl (Errorf ''get block err'')
      | Some block \<Rightarrow>
          (case bc_StateAt bc (h_Roots block) of
             Inl e \<Rightarrow> Inl (Errorf ''get stateDB err'')
           | Inr st \<Rightarrow>
               (case GetA0AccountFromA1Account account st of
                  Inr a0Account \<Rightarrow> Inr (a0Account, account)
                | Inl _ \<Rightarrow>
                    (case GetA1AccountFromA2Account account block st of
                       Inl e \<Rightarrow> Inl e
                     | Inr a1Account \<Rightarrow>
                         (case GetA0AccountFromA1Account a1Account st of
                            Inl e \<Rightarrow> Inl e
                          | Inr a0Account \<Rightarrow> Inr (a0Account, a1Account))))))"

definition chainGetA2AccountsFromA0AccountAtSignHeight ::
  "BlockChain \<Rightarrow> address \<Rightarrow> hash \<Rightarrow> u64 \<Rightarrow> error + address list" where
  "chainGetA2AccountsFromA0AccountAtSignHeight bc a0Account blockHash signHeight =
     (case bc_GetBlockByHash bc blockHash of
        None \<Rightarrow> Inl (Errorf ''get block err'')
      | Some block \<Rightarrow>
          (case bc_StateAt bc (h_Roots block) of
             Inl e \<Rightarrow> Inl (Errorf ''get stateDB err'')
           | Inr st \<Rightarrow>
               (case GetA1AccountFromA0Account a0Account st of
                  Inl e \<Rightarrow> Inl e
                | Inr a1Account \<Rightarrow> GetA2AccountsFromA1AccountAtSignHeight a1Account st signHeight)))"

text \<open>A missing block or state is not reported: the result is two empty accounts and no error.\<close>

definition chainGetA0AccountFromAnyAccountAtSignHeight ::
  "BlockChain \<Rightarrow> address \<Rightarrow> hash \<Rightarrow> u64 \<Rightarrow> error + (address \<times> address)" where
  "chainGetA0AccountFromAnyAccountAtSignHeight bc account blockHash signHeight =
     (case bc_GetBlockByHash bc blockHash of
        None \<Rightarrow> Inr (0, 0)
      | Some block \<Rightarrow>
          (case bc_StateAt bc (h_Roots block) of
             Inl e \<Rightarrow> Inr (0, 0)
           | Inr st \<Rightarrow>
               (case GetA0AccountFromA1Account account st of
                  Inr a0Account \<Rightarrow> Inr (a0Account, account)
                | Inl _ \<Rightarrow>
                    (case GetA1AccountFromA2AccountAtSignHeight account st signHeight of
                       Inl e \<Rightarrow> Inl e
                     | Inr a1Account \<Rightarrow>
                         (case GetA0AccountFromA1Account a1Account st of
                            Inl e \<Rightarrow> Inl e
                          | Inr a0Account \<Rightarrow> Inr (a0Account, a1Account))))))"

text \<open>The chain as the reader of the consensus engine and of the sign helper.\<close>

definition chainReader :: "Crypto \<Rightarrow> BlockChain \<Rightarrow> StateReader" where
  "chainReader cr bc =
     \<lparr>sr_GetCurrentHash = chainGetCurrentHash cr bc,
      sr_GetGraphByHash = chainGetGraphByHash bc,
      sr_GetBroadcastAccounts = chainGetBroadcastAccounts bc,
      sr_GetVersionSuperAccounts = chainGetVersionSuperAccounts bc,
      sr_GetBlockSuperAccounts = chainGetBlockSuperAccounts bc,
      sr_GetBroadcastIntervalByHash = chainGetBroadcastIntervalByHash bc,
      sr_GetA0AccountFromAnyAccount = chainGetA0AccountFromAnyAccount bc\<rparr>"

definition chainAuthReader :: "BlockChain \<Rightarrow> AuthReader" where
  "chainAuthReader bc =
     \<lparr>ar_GetSignAccountPassword = GetSignAccountPassword (bc_entrustValue bc),
      ar_GetA2AccountsFromA0Account = chainGetA2AccountsFromA0Account bc,
      ar_GetA0AccountFromAnyAccount = chainGetA0AccountFromAnyAccount bc,
      ar_GetA2AccountsFromA0AccountAtSignHeight = chainGetA2AccountsFromA0AccountAtSignHeight bc,
      ar_GetA0AccountFromAnyAccountAtSignHeight = chainGetA0AccountFromAnyAccountAtSignHeight bc\<rparr>"

section \<open>Values produced from block to block\<close>

definition ProduceTopologyStateData ::
  "Header \<Rightarrow> error + TopologyGraph option \<Rightarrow> (error + TopologyGraph) option" where
  "ProduceTopologyStateData header preData =
     (case preData of
        Inl e \<Rightarrow> Some (Inl (Errorf ''read pre data err''))
      | Inr None \<Rightarrow> Some (Inl (Errorf ''Invalid preGraph''))
      | Inr (Some preGraph) \<Rightarrow> Transfer2NextGraph preGraph (h_NetTopology header))"

text \<open>
  The result is the new interval when the block changed it.  \<open>None\<close> of the outer option is the end
  of the process: a broadcast interval of 0, or a switch to the backup interval at a block that is
  not a re-election block, which the code ends with \<open>log.Crit\<close>.
\<close>

definition ProduceBroadcastIntervalData ::
  "u64 \<Rightarrow> error + BCIntervalInfo \<Rightarrow> (error + BCIntervalInfo option) option" where
  "ProduceBroadcastIntervalData number bciData =
     (case bciData of
        Inl e \<Rightarrow> Some (Inl e)
      | Inr bcInterval \<Rightarrow>
          (let backupEnableNumber = BackupEnableNumber bcInterval
           in if number = backupEnableNumber then
                do { re \<leftarrow> IsReElectionNumber bcInterval number;
                     legal \<leftarrow> (if re then IsBroadcastNumber bcInterval number else Some False);
                     if \<not> legal then None
                     else
                       (let i1 = SetLastBCNumber bcInterval backupEnableNumber;
                            i2 = SetLastReelectNumber i1 backupEnableNumber
                        in Some (Inr (Some (UsingBackupInterval i2)))) }
              else
                do { bc \<leftarrow> IsBroadcastNumber bcInterval number;
                     let i1 = (if bc then SetLastBCNumber bcInterval number else bcInterval);
                     re \<leftarrow> IsReElectionNumber i1 number;
                     let i2 = (if re then SetLastReelectNumber i1 number else i1);
                     Some (Inr (if bc \<or> re then Some i2 else None)) }))"

section \<open>The schedule of broadcasts and elections\<close>

text \<open>Both tests as divisibility: of the distance by one period, and by three.\<close>

lemma IsBroadcastNumber_dvd:
  assumes "BCInterval info \<noteq> 0" "LastBCNumber info \<le> m"
  shows "IsBroadcastNumber info m
    = Some (unat (BCInterval info) dvd unat m - unat (LastBCNumber info))"
  using assms by (auto simp: IsBroadcastNumber_def unat_eq_0 [symmetric] unat_mod unat_sub mod_eq_0_iff_dvd)

lemma dvd_triple: "0 < i \<Longrightarrow> (i * 3 dvd (a :: nat)) = (a mod i = 0 \<and> (a div i) mod 3 = 0)"
  by (metis dvd_div_iff_mult dvd_mult_left less_numeral_extra(3) mod_eq_0_iff_dvd mult.commute)

lemma IsReElectionNumber_dvd:
  assumes "BCInterval info \<noteq> 0" "LastReelectNumber info \<le> m"
  shows "IsReElectionNumber info m
    = Some (unat (BCInterval info) * 3 dvd unat m - unat (LastReelectNumber info))"
proof -
  have "0 < unat (BCInterval info)" using assms(1) by (simp add: unat_gt_0)
  with assms show ?thesis
    by (auto simp: IsReElectionNumber_def ReelectionTimes_def dvd_triple Let_def unat_eq_0 [symmetric] unat_mod
        unat_div unat_sub)
qed

lemma dvd_shift: "(b :: nat) \<le> n \<Longrightarrow> n \<le> m \<Longrightarrow> k dvd n - b \<Longrightarrow> (k dvd m - b) = (k dvd m - n)"
proof -
  assume a: "b \<le> n" "n \<le> m" "k dvd n - b"
  then have "m - b = (m - n) + (n - b)" by linarith
  then show ?thesis using a(3) by (simp only: dvd_add_left_iff)
qed

lemma SetLastBCNumber_schedule:
  assumes "BCInterval info \<noteq> 0" "IsBroadcastNumber info n = Some True" "n \<le> m"
  shows "IsBroadcastNumber (SetLastBCNumber info n) m = IsBroadcastNumber info m"
proof -
  have "LastBCNumber info \<le> n" using assms(2) by (auto simp: IsBroadcastNumber_def split: if_splits)
  then show ?thesis
    using assms IsBroadcastNumber_dvd [of info n] IsBroadcastNumber_dvd [of info m]
      IsBroadcastNumber_dvd [of "SetLastBCNumber info n" m]
      dvd_shift [of "unat (LastBCNumber info)" "unat n" "unat m" "unat (BCInterval info)"]
    by (simp add: SetLastBCNumber_def word_le_nat_alt)
qed

lemma SetLastReelectNumber_schedule:
  assumes "BCInterval info \<noteq> 0" "IsReElectionNumber info n = Some True" "n \<le> m"
  shows "IsReElectionNumber (SetLastReelectNumber info n) m = IsReElectionNumber info m"
proof -
  have "LastReelectNumber info \<le> n" using assms(2) by (auto simp: IsReElectionNumber_def split: if_splits)
  then show ?thesis
    using assms IsReElectionNumber_dvd [of info n] IsReElectionNumber_dvd [of info m]
      IsReElectionNumber_dvd [of "SetLastReelectNumber info n" m]
      dvd_shift [of "unat (LastReelectNumber info)" "unat n" "unat m" "unat (BCInterval info) * 3"]
    by (simp add: SetLastReelectNumber_def word_le_nat_alt)
qed

lemma schedule_frame [frame_simps]:
  "IsBroadcastNumber (SetLastReelectNumber info n) = IsBroadcastNumber info"
  "IsReElectionNumber (SetLastBCNumber info n) = IsReElectionNumber info"
  "BCInterval (SetLastBCNumber info n) = BCInterval info"
  "BCInterval (SetLastReelectNumber info n) = BCInterval info"
  by (simp_all add: IsBroadcastNumber_def IsReElectionNumber_def SetLastReelectNumber_def SetLastBCNumber_def fun_eq_iff)

lemma schedule_total:
  assumes "BCInterval info \<noteq> 0"
  shows "\<exists>b. IsBroadcastNumber info n = Some b" "\<exists>r. IsReElectionNumber info n = Some r"
  using assms by (auto simp: IsBroadcastNumber_def IsReElectionNumber_def Let_def)

text \<open>C36. The bookkeeping of a block does not move the schedule: away from the height at which a new
  period starts, the interval stored after a block gives, for the block's height and every later one,
  the same broadcast heights and the same election heights as the interval before the block.\<close>

theorem ProduceBroadcastIntervalData_schedule:
  assumes "BCInterval info \<noteq> 0" "number \<noteq> BackupEnableNumber info"
  shows "\<exists>r. ProduceBroadcastIntervalData number (Inr info) = Some (Inr r)
    \<and> (\<forall>m \<ge> number. let info' = (case r of None \<Rightarrow> info | Some i \<Rightarrow> i)
         in IsBroadcastNumber info' m = IsBroadcastNumber info m
            \<and> IsReElectionNumber info' m = IsReElectionNumber info m)"
proof -
  obtain b r where b: "IsBroadcastNumber info number = Some b" and r: "IsReElectionNumber info number = Some r"
    using schedule_total [OF assms(1), of number] by blast
  let ?i = "if b then SetLastBCNumber info number else info"
  have i: "BCInterval ?i \<noteq> 0" "IsReElectionNumber ?i number = Some r"
    using assms(1) r by (simp_all add: frame_simps)
  have "IsBroadcastNumber ?i m = IsBroadcastNumber info m" "IsReElectionNumber ?i m = IsReElectionNumber info m"
    if "number \<le> m" for m
    using that b SetLastBCNumber_schedule [OF assms(1)] by (auto simp: frame_simps)
  moreover have "IsReElectionNumber (SetLastReelectNumber ?i number) m = IsReElectionNumber ?i m"
    if "number \<le> m" "r" for m
    using SetLastReelectNumber_schedule [OF i(1)] i(2) that by simp
  ultimately show ?thesis
    using assms(2) b i(2)
    by (cases r; cases b) (simp_all add: ProduceBroadcastIntervalData_def Let_def frame_simps)
qed

theorem ProduceBroadcastIntervalData_schedule_witness:
  "let info = \<lparr>LastBCNumber = 300, LastReelectNumber = 300, BCInterval = 100, BackupEnableNumber = 900,
                BackupBCInterval = 50\<rparr>
   in \<exists>r. ProduceBroadcastIntervalData 600 (Inr info) = Some (Inr r)
     \<and> (\<forall>m \<ge> 600. let info' = (case r of None \<Rightarrow> info | Some i \<Rightarrow> i)
          in IsBroadcastNumber info' m = IsBroadcastNumber info m
             \<and> IsReElectionNumber info' m = IsReElectionNumber info m)"
  unfolding Let_def
  by (rule ProduceBroadcastIntervalData_schedule [unfolded Let_def]) simp_all

end
