(* ===== verification/Messages.thy ===== *)
theory Messages
  imports ChainReader
begin

text \<open>
  The messages of the leader service: those its nodes exchange (\<open>mc/msgdef2.0.go\<close>), those other
  services of the node send it and those it publishes (\<open>mc/msgdef.go\<close>), and the values their hashes
  are computed over.  A pointer field is an option.  Messages of other nodes are decoded from JSON,
  so every pointer in them may be nil, except the big integers of a header.
\<close>

section \<open>Messages between nodes\<close>

type_synonym ReelectRSPType = u8

abbreviation (input) ReelectRSPTypeNone :: ReelectRSPType where "ReelectRSPTypeNone \<equiv> 0"
abbreviation (input) ReelectRSPTypePOS :: ReelectRSPType where "ReelectRSPTypePOS \<equiv> 1"
abbreviation (input) ReelectRSPTypeAlreadyRL :: ReelectRSPType where "ReelectRSPTypeAlreadyRL \<equiv> 2"
abbreviation (input) ReelectRSPTypeAgree :: ReelectRSPType where "ReelectRSPTypeAgree \<equiv> 3"
abbreviation (input) ReelectRSPTypeNewBlockReady :: ReelectRSPType where "ReelectRSPTypeNewBlockReady \<equiv> 4"

record RetCallTxN =
  rt_TXt :: u8
  rt_ListN :: "u32 list"

record HD_BlkConsensusReqMsg =
  bq_From :: address
  bq_Header :: "Header option"
  bq_ConsensusTurn :: ConsensusTurnInfo
  bq_TxsCode :: "RetCallTxN option list"
  bq_OnlineConsensusResults :: "OnlineConsensusVoteResult option list"

record HD_V2_ReelectInquiryReqMsg =
  iq_Number :: u64
  iq_HeaderTime :: u64
  iq_ConsensusTurn :: ConsensusTurnInfo
  iq_ReelectTurn :: u32
  iq_TimeStamp :: u64
  iq_Master :: address
  iq_From :: address

record HD_V2_ReelectLeaderReqMsg =
  lr_InquiryReq :: "HD_V2_ReelectInquiryReqMsg option"
  lr_AgreeSigns :: "signature list"
  lr_TimeStamp :: u64

record HD_V2_ReelectLeaderConsensus =
  rc_Req :: "HD_V2_ReelectLeaderReqMsg option"
  rc_Votes :: "signature list"

record HD_V2_ReelectInquiryRspMsg =
  ir_Number :: u64
  ir_ReqHash :: hash
  ir_Type :: ReelectRSPType
  ir_AgreeSign :: signature
  ir_POSResult :: "HD_BlkConsensusReqMsg option"
  ir_RLResult :: "HD_V2_ReelectLeaderConsensus option"
  ir_NewBlock :: "Header option"
  ir_From :: address

record HD_V2_ConsensusVote =
  cv_SignHash :: hash
  cv_Number :: u64
  cv_Sign :: signature
  cv_From :: address

record HD_V2_ReelectBroadcastMsg =
  rb_Number :: u64
  rb_Type :: ReelectRSPType
  rb_POSResult :: "HD_BlkConsensusReqMsg option"
  rb_RLResult :: "HD_V2_ReelectLeaderConsensus option"
  rb_TimeStamp :: u64
  rb_From :: address

record HD_V2_ReelectBroadcastRspMsg =
  rr_Number :: u64
  rr_ResultHash :: hash
  rr_Sign :: signature
  rr_From :: address

section \<open>Messages between services\<close>

record BlockPOSFinishedNotify =
  pn_Number :: u64
  pn_Header :: "Header option"
  pn_ConsensusTurn :: ConsensusTurnInfo
  pn_TxsCode :: "RetCallTxN option list"

record startControllerMsg =
  sc_parentHeader :: "Header option"
  sc_parentStateDB :: "StateDB option"

record LeaderChangeNotify =
  ln_ConsensusState :: bool
  ln_PreLeader :: address
  ln_Leader :: address
  ln_NextLeader :: address
  ln_Number :: u64
  ln_ConsensusTurn :: ConsensusTurnInfo
  ln_ReelectTurn :: u32
  ln_TurnBeginTime :: int
  ln_TurnEndTime :: int

datatype RecoveryType = RecoveryTypePOS | RecoveryTypeFullHeader

record RecoveryStateMsg =
  rs_Type :: RecoveryType
  rs_IsBroadcast :: bool
  rs_Header :: "Header option"
  rs_From :: address

section \<open>Hashes of messages\<close>

text \<open>
  \<open>types.RlpHash\<close> of a message encodes the exported fields in order; a nil pointer to a struct is
  an empty list.  \<open>types.Header\<close> has its own \<open>EncodeRLP\<close>, which reads the version of the header, so a
  nil pointer to a header ends the process: \<open>None\<close>.
\<close>

definition VTurn :: "ConsensusTurnInfo \<Rightarrow> rlpValue" where
  "VTurn t = VList [VUint (ucast (PreConsensusTurn t)), VUint (ucast (UsedReelectTurn t))]"

definition VInquiryReq :: "HD_V2_ReelectInquiryReqMsg \<Rightarrow> rlpValue" where
  "VInquiryReq m =
     VList [VUint (iq_Number m), VUint (iq_HeaderTime m), VTurn (iq_ConsensusTurn m),
            VUint (ucast (iq_ReelectTurn m)), VUint (iq_TimeStamp m), VAddr (iq_Master m), VAddr (iq_From m)]"

definition VPtr :: "('a \<Rightarrow> rlpValue) \<Rightarrow> 'a option \<Rightarrow> rlpValue" where
  "VPtr f p = (case p of None \<Rightarrow> VNilStruct | Some x \<Rightarrow> f x)"

definition VLeaderReq :: "HD_V2_ReelectLeaderReqMsg \<Rightarrow> rlpValue" where
  "VLeaderReq m = VList [VPtr VInquiryReq (lr_InquiryReq m), VSigns (lr_AgreeSigns m), VUint (lr_TimeStamp m)]"

definition VLeaderConsensus :: "HD_V2_ReelectLeaderConsensus \<Rightarrow> rlpValue" where
  "VLeaderConsensus m = VList [VPtr VLeaderReq (rc_Req m), VSigns (rc_Votes m)]"

definition VRetCallTxN :: "RetCallTxN \<Rightarrow> rlpValue" where
  "VRetCallTxN r = VList [VUint (ucast (rt_TXt r)), VList (map (\<lambda>n. VUint (ucast n)) (rt_ListN r))]"

definition VOnlineReq :: "OnlineConsensusReq \<Rightarrow> rlpValue" where
  "VOnlineReq r =
     VList [VUint (oc_Number r), VUint (ucast (oc_LeaderTurn r)), VAddr (oc_Leader r), VAddr (oc_Node r),
            VUint (ucast (oc_OnlineState r))]"

definition VOnlineResult :: "OnlineConsensusVoteResult \<Rightarrow> rlpValue" where
  "VOnlineResult r = VList [VPtr VOnlineReq (ov_Req r), VSigns (ov_SignList r), VAddr (ov_From r)]"

definition VBlkConsensusReq :: "HD_BlkConsensusReqMsg \<Rightarrow> rlpValue option" where
  "VBlkConsensusReq m =
     do { header \<leftarrow> bq_Header m;
          Some (VList [VAddr (bq_From m), VList (headerFields header), VTurn (bq_ConsensusTurn m),
                       VList (map (VPtr VRetCallTxN) (bq_TxsCode m)),
                       VList (map (VPtr VOnlineResult) (bq_OnlineConsensusResults m))]) }"

definition VBroadcastMsg :: "HD_V2_ReelectBroadcastMsg \<Rightarrow> rlpValue option" where
  "VBroadcastMsg m =
     do { pos \<leftarrow> (case rb_POSResult m of None \<Rightarrow> Some VNilStruct | Some p \<Rightarrow> VBlkConsensusReq p);
          Some (VList [VUint (rb_Number m), VUint (ucast (rb_Type m)), pos,
                       VPtr VLeaderConsensus (rb_RLResult m), VUint (rb_TimeStamp m), VAddr (rb_From m)]) }"

section \<open>What a message hash binds\<close>

lemma VTurn_inj: "itemOf (VTurn t) = itemOf (VTurn t') \<longleftrightarrow> t = t'"
  by (cases t; cases t') (auto simp: VTurn_def unat_ucast_u64 simp flip: word_unat_eq_iff)

lemma VTurn_Some: "itemOf (VTurn t) \<noteq> None"
  by (simp add: VTurn_def)

lemma VInquiryReq_inj: "itemOf (VInquiryReq m) = itemOf (VInquiryReq m') \<longleftrightarrow> m = m'"
  using VTurn_inj [of "iq_ConsensusTurn m" "iq_ConsensusTurn m'"] VTurn_Some [of "iq_ConsensusTurn m"]
    VTurn_Some [of "iq_ConsensusTurn m'"]
  by (cases m; cases m') (auto simp: VInquiryReq_def unat_ucast_u64 simp flip: word_unat_eq_iff)

lemma VInquiryPtr_inj: "itemOf (VPtr VInquiryReq p) = itemOf (VPtr VInquiryReq p') \<longleftrightarrow> p = p'"
proof (cases p; cases p')
  fix m m' assume "p = Some m" "p' = Some m'"
  then show ?thesis using VInquiryReq_inj [of m m'] by (simp add: VPtr_def)
qed (auto simp: VPtr_def VInquiryReq_def VTurn_def split: Option.bind_splits)

lemma VLeaderReq_fields:
  fixes m m' :: HD_V2_ReelectLeaderReqMsg
  assumes "list_all2 (\<lambda>v v'. itemOf v = itemOf v' \<and> itemOf v \<noteq> None)
    [VPtr VInquiryReq (lr_InquiryReq m), VSigns (lr_AgreeSigns m), VUint (lr_TimeStamp m)]
    [VPtr VInquiryReq (lr_InquiryReq m'), VSigns (lr_AgreeSigns m'), VUint (lr_TimeStamp m')]"
  shows "m = m'"
  using assms
  by (cases m; cases m')
    (auto simp: VInquiryPtr_inj field_injs simp flip: word_unat_eq_iff simp del: itemOf.simps(4,8))

text \<open>C25. A vote for a leader change is a vote for that change only: two requests to change the leader
  with the same hash, where the hash function does not confuse their encodings, are the same
  request, with the same inquiry (height, turns, master) and the same approvals.\<close>

theorem RlpHash_LeaderReq_binds:
  assumes "rlpHash cr (VLeaderReq m) = rlpHash cr (VLeaderReq m')"
    and "noCollision cr (VLeaderReq m) (VLeaderReq m')" "rlpOK (VLeaderReq m)" "rlpOK (VLeaderReq m')"
  shows "m = m'"
  using assms unfolding VLeaderReq_def
  by (intro VLeaderReq_fields Encode_fields) (simp_all add: noCollision_def)

definition exampleInquiry :: HD_V2_ReelectInquiryReqMsg where
  "exampleInquiry =
     \<lparr>iq_Number = 43, iq_HeaderTime = 1000, iq_ConsensusTurn = \<lparr>PreConsensusTurn = 0, UsedReelectTurn = 0\<rparr>,
      iq_ReelectTurn = 1, iq_TimeStamp = 1070, iq_Master = 5, iq_From = 5\<rparr>"

theorem RlpHash_LeaderReq_binds_witness:
  "let m = \<lparr>lr_InquiryReq = Some exampleInquiry, lr_AgreeSigns = [(1, 0)], lr_TimeStamp = 1075\<rparr> in
   rlpOK (VLeaderReq m) \<and> m\<lparr>lr_TimeStamp := 1075\<rparr> = m"
proof -
  let ?m = "\<lparr>lr_InquiryReq = Some exampleInquiry, lr_AgreeSigns = [(1, 0)], lr_TimeStamp = 1075\<rparr>"
  have ok: "rlpOK (VLeaderReq ?m)"
    by (simp add: VLeaderReq_def VPtr_def VInquiryReq_def exampleInquiry_def VTurn_def VSign_def
        example_eval wordBytes_def upt_conv_Cons)
  then have "?m\<lparr>lr_TimeStamp := 1075\<rparr> = ?m"
    by (intro RlpHash_LeaderReq_binds [of exampleCrypto]) (simp_all add: noCollision_def)
  with ok show ?thesis by (simp add: Let_def)
qed

end
