(* ===== verification/Cdc.thy ===== *)
theory Cdc
  imports Messages
begin

text \<open>
  The consensus data of a controller (\<open>leaderelect2.0/cdc.go\<close>): its state, the turns, the leader
  and master cached for them, and what it read from the parent state.  It also is the reader of the
  consensus engine and of the sign helper: for the parent block it answers from what it has read,
  for other blocks it asks the chain.

  The lemmas show that the cached leader and master are those of the turns, and that the reads for
  the parent block agree with those of the chain.
\<close>

section \<open>State\<close>

record cdc =
  dc_state :: stateDef
  dc_number :: u64
  dc_selfAddr :: address
  dc_selfNodeAddr :: address
  dc_role :: RoleType
  dc_curConsensusTurn :: ConsensusTurnInfo
  dc_consensusLeader :: address
  dc_curReelectTurn :: u32
  dc_reelectMaster :: address
  dc_isMaster :: bool
  dc_leaderCal :: leaderCalculator
  dc_bcInterval :: "BCIntervalInfo option"
  dc_parentState :: "StateDB option"
  dc_turnTime :: turnTimes

definition newCDC :: "u64 \<Rightarrow> cdc" where
  "newCDC number =
     \<lparr>dc_state = stIdle, dc_number = number, dc_selfAddr = 0, dc_selfNodeAddr = 0, dc_role = RoleNil,
      dc_curConsensusTurn = \<lparr>PreConsensusTurn = 0, UsedReelectTurn = 0\<rparr>, dc_consensusLeader = 0,
      dc_curReelectTurn = 0, dc_reelectMaster = 0, dc_isMaster = False,
      dc_leaderCal = newLeaderCalculator number, dc_bcInterval = None, dc_parentState = None,
      dc_turnTime = newTurnTimes\<rparr>"

section \<open>Leaders and turns\<close>

definition cdcGetLeader :: "cdc \<Rightarrow> u32 \<Rightarrow> BCIntervalInfo option \<Rightarrow> (error + address) option" where
  "cdcGetLeader dc turn bcInterval =
     do { r \<leftarrow> lcGetLeader (dc_leaderCal dc) turn bcInterval;
          Some (case r of Inl e \<Rightarrow> Inl e | Inr leaders \<Rightarrow> Inr (ld_leader leaders)) }"

definition GetConsensusLeader :: "cdc \<Rightarrow> address" where
  "GetConsensusLeader dc = dc_consensusLeader dc"

definition GetReelectMaster :: "cdc \<Rightarrow> address" where
  "GetReelectMaster dc = dc_reelectMaster dc"

definition SetConsensusTurn :: "ConsensusTurnInfo \<Rightarrow> cdc \<Rightarrow> (error + cdc) option" where
  "SetConsensusTurn consensusTurn dc =
     do { r \<leftarrow> cdcGetLeader dc (TotalTurns consensusTurn) (dc_bcInterval dc);
          case r of
            Inl e \<Rightarrow> Some (Inl (Errorf ''get consensus leader err''))
          | Inr consensusLeader \<Rightarrow>
              Some (Inr (dc\<lparr>dc_consensusLeader := consensusLeader, dc_curConsensusTurn := consensusTurn,
                            dc_reelectMaster := 0, dc_curReelectTurn := 0\<rparr>)) }"

definition SetReelectTurn :: "u32 \<Rightarrow> cdc \<Rightarrow> (error + cdc) option" where
  "SetReelectTurn reelectTurn dc =
     (if dc_curReelectTurn dc = reelectTurn then Some (Inr dc)
      else if reelectTurn = 0 then Some (Inr (dc\<lparr>dc_reelectMaster := 0, dc_curReelectTurn := 0\<rparr>))
      else do { r \<leftarrow> cdcGetLeader dc (TotalTurns (dc_curConsensusTurn dc) + reelectTurn) (dc_bcInterval dc);
                case r of
                  Inl e \<Rightarrow> Some (Inl (Errorf ''get master err''))
                | Inr master \<Rightarrow>
                    Some (Inr (dc\<lparr>dc_reelectMaster := master, dc_curReelectTurn := reelectTurn\<rparr>)) })"

definition PrepareLeaderMsg :: "cdc \<Rightarrow> (error + LeaderChangeNotify) option" where
  "PrepareLeaderMsg dc =
     do { r \<leftarrow> lcGetLeader (dc_leaderCal dc) (TotalTurns (dc_curConsensusTurn dc) + dc_curReelectTurn dc)
                 (dc_bcInterval dc);
          case r of
            Inl e \<Rightarrow> Some (Inl e)
          | Inr leaders \<Rightarrow>
              (case CalTurnTime (dc_turnTime dc) (TotalTurns (dc_curConsensusTurn dc)) (dc_curReelectTurn dc) of
                 (beginTime, endTime) \<Rightarrow>
                   Some (Inr \<lparr>ln_ConsensusState = (dc_state dc \<noteq> stReelect),
                              ln_PreLeader = lc_preLeader (dc_leaderCal dc),
                              ln_Leader = ld_leader leaders, ln_NextLeader = ld_nextLeader leaders,
                              ln_Number = dc_number dc, ln_ConsensusTurn = dc_curConsensusTurn dc,
                              ln_ReelectTurn = dc_curReelectTurn dc,
                              ln_TurnBeginTime = beginTime, ln_TurnEndTime = endTime\<rparr>)) }"

section \<open>Reading the parent state\<close>

text \<open>The readers of package \<open>matrixstate\<close> never return a nil value without an error.\<close>

definition getRoleFromTopology :: "TopologyGraph \<Rightarrow> cdc \<Rightarrow> RoleType" where
  "getRoleFromTopology graph dc =
     (case find (\<lambda>v. tn_Account v = dc_selfAddr dc) (NodeList graph) of None \<Rightarrow> RoleNil | Some v \<Rightarrow> tn_Type v)"

definition readValidatorsAndRoleFromState ::
  "StateDB \<Rightarrow> cdc \<Rightarrow> error + (TopologyNodeInfo list \<times> RoleType)" where
  "readValidatorsAndRoleFromState st dc =
     (case st_TopologyGraph st of
        Inl e \<Rightarrow> Inl e
      | Inr topology \<Rightarrow>
          Inr (filter (\<lambda>node. tn_Type node = RoleValidator) (NodeList topology), getRoleFromTopology topology dc))"

definition readSpecialAccountsFromState :: "StateDB \<Rightarrow> error + specialAccounts" where
  "readSpecialAccountsFromState st =
     (case st_BroadcastAccounts st of
        Inl e \<Rightarrow> Inl e
      | Inr broadcasts \<Rightarrow>
          (case st_VersionSuperAccounts st of
             Inl e \<Rightarrow> Inl e
           | Inr versionSupers \<Rightarrow>
               (case st_BlockSuperAccounts st of
                  Inl e \<Rightarrow> Inl e
                | Inr blockSupers \<Rightarrow>
                    Inr \<lparr>sa_broadcasts = broadcasts, sa_versionSupers = versionSupers, sa_blockSupers = blockSupers\<rparr>)))"

definition readLeaderConfigFromState :: "StateDB \<Rightarrow> error + LeaderConfig" where
  "readLeaderConfigFromState st = st_LeaderConfig st"

definition readBroadCastIntervalFromState :: "StateDB \<Rightarrow> error + BCIntervalInfo" where
  "readBroadCastIntervalFromState st = st_BroadcastInterval st"

text \<open>
  The last part of \<open>AnalysisState\<close>, after the leader calculator has been set.  The data is changed
  step by step, so the new value is returned with the error.
\<close>

definition applyState ::
  "StateDB \<Rightarrow> RoleType \<Rightarrow> LeaderConfig \<Rightarrow> BCIntervalInfo \<Rightarrow> cdc \<Rightarrow> (error option \<times> cdc) option" where
  "applyState parentState role config bcInterval dc =
     (let consensusIndex = TotalTurns (dc_curConsensusTurn dc)
      in do {
        r \<leftarrow> cdcGetLeader dc consensusIndex (Some bcInterval);
        case r of
          Inl e \<Rightarrow> Some (Some e, dc)
        | Inr consensusLeader \<Rightarrow>
            do { m \<leftarrow> (if dc_curReelectTurn dc \<noteq> 0
                       then cdcGetLeader dc (consensusIndex + dc_curReelectTurn dc) (Some bcInterval)
                       else Some (Inr 0));
                 case m of
                   Inl e \<Rightarrow> Some (Some e, dc)
                 | Inr reelectLeader \<Rightarrow>
                     (let dc' = dc\<lparr>dc_reelectMaster := reelectLeader\<rparr>
                      in case SetTimeConfig (Some config) (dc_turnTime dc') of
                           Inl e \<Rightarrow> Some (Some e, dc')
                         | Inr tt \<Rightarrow>
                             Some (None, dc'\<lparr>dc_turnTime := tt, dc_bcInterval := Some bcInterval,
                                             dc_consensusLeader := consensusLeader,
                                             dc_parentState := Some parentState, dc_role := role\<rparr>)) } })"

definition AnalysisState ::
  "Crypto \<Rightarrow> BlockChain \<Rightarrow> Header option \<Rightarrow> StateDB option \<Rightarrow> cdc \<Rightarrow> (error option \<times> cdc) option" where
  "AnalysisState cr chain parentHeader parentState dc =
     (case (parentState, parentHeader) of
        (Some st, Some header) \<Rightarrow>
          (case readValidatorsAndRoleFromState st dc of
             Inl e \<Rightarrow> Some (Some e, dc)
           | Inr (validators, role) \<Rightarrow>
               (case readSpecialAccountsFromState st of
                  Inl e \<Rightarrow> Some (Some e, dc)
                | Inr specials \<Rightarrow>
                    (case readLeaderConfigFromState st of
                       Inl e \<Rightarrow> Some (Some e, dc)
                     | Inr config \<Rightarrow>
                         (case readBroadCastIntervalFromState st of
                            Inl e \<Rightarrow> Some (Some e, dc)
                          | Inr bcInterval \<Rightarrow>
                              do { r \<leftarrow> SetValidatorsAndSpecials cr (bc_GetHeader chain) (Some header)
                                          (Some validators) (Some specials) (Some bcInterval) (dc_leaderCal dc);
                                   case r of
                                     Inl e \<Rightarrow> Some (Some e, dc)
                                   | Inr lc \<Rightarrow>
                                       applyState st role config bcInterval (dc\<lparr>dc_leaderCal := lc\<rparr>) }))))
      | _ \<Rightarrow> Some (Some (Errorf ''parent state or parentHeader is nil''), dc))"

section \<open>The reader of the consensus engine\<close>

abbreviation dc_preHash :: "cdc \<Rightarrow> hash" where
  "dc_preHash dc \<equiv> lc_preHash (dc_leaderCal dc)"

definition cdcGetCurrentHash :: "cdc \<Rightarrow> hash" where
  "cdcGetCurrentHash dc = dc_preHash dc"

text \<open>A nil state makes the readers of package \<open>matrixstate\<close> fail.\<close>

definition cdcGetGraphByHash :: "BlockChain \<Rightarrow> cdc \<Rightarrow> hash \<Rightarrow> error + (TopologyGraph \<times> ElectGraph)" where
  "cdcGetGraphByHash chain dc h =
     (if h = 0 then Inl (Errorf ''hash is empty'')
      else if h = dc_preHash dc then
        (case dc_parentState dc of
           None \<Rightarrow> Inl (Errorf ''find manger err'')
         | Some st \<Rightarrow> GetGraphByState st)
      else chainGetGraphByHash chain h)"

definition cdcGetBroadcastAccounts :: "BlockChain \<Rightarrow> cdc \<Rightarrow> hash \<Rightarrow> error + address list" where
  "cdcGetBroadcastAccounts chain dc blockHash =
     (if blockHash = 0 then Inl (Errorf ''hash is empty'')
      else if blockHash = dc_preHash dc then Inr (sa_broadcasts (lc_specialAccounts (dc_leaderCal dc)))
      else chainGetBroadcastAccounts chain blockHash)"

definition cdcGetVersionSuperAccounts :: "BlockChain \<Rightarrow> cdc \<Rightarrow> hash \<Rightarrow> error + address list option" where
  "cdcGetVersionSuperAccounts chain dc blockHash =
     (if blockHash = 0 then Inl (Errorf ''hash is empty'')
      else if blockHash = dc_preHash dc then Inr (sa_versionSupers (lc_specialAccounts (dc_leaderCal dc)))
      else chainGetVersionSuperAccounts chain blockHash)"

definition cdcGetBlockSuperAccounts :: "BlockChain \<Rightarrow> cdc \<Rightarrow> hash \<Rightarrow> error + address list option" where
  "cdcGetBlockSuperAccounts chain dc blockHash =
     (if blockHash = 0 then Inl (Errorf ''hash is empty'')
      else if blockHash = dc_preHash dc then Inr (sa_blockSupers (lc_specialAccounts (dc_leaderCal dc)))
      else chainGetBlockSuperAccounts chain blockHash)"

definition cdcGetBroadcastIntervalByHash :: "BlockChain \<Rightarrow> cdc \<Rightarrow> hash \<Rightarrow> error + BCIntervalInfo" where
  "cdcGetBroadcastIntervalByHash chain dc blockHash =
     (if blockHash = 0 then Inl (Errorf ''hash is empty'')
      else if blockHash = dc_preHash dc then
        (case dc_bcInterval dc of
           None \<Rightarrow> Inl (Errorf ''no broadcast interval in the cache'')
         | Some bcInterval \<Rightarrow> Inr bcInterval)
      else chainGetBroadcastIntervalByHash chain blockHash)"

definition getA2Accounts :: "cdc \<Rightarrow> address \<Rightarrow> u64 \<Rightarrow> error + address list" where
  "getA2Accounts dc a0Account signHeight =
     (case dc_parentState dc of
        None \<Rightarrow> Inl (Errorf ''parent stateDB is nil'')
      | Some st \<Rightarrow>
          (let a1Account = st_GetAuthAccount st a0Account
           in if a1Account = 0 then Inl (Errorf ''no A1 account'')
              else Inr (st_GetEntrustFrom st a1Account signHeight @ [a1Account])))"

definition getA0Account :: "cdc \<Rightarrow> address \<Rightarrow> u64 \<Rightarrow> error + (address \<times> address)" where
  "getA0Account dc account signHeight =
     (case dc_parentState dc of
        None \<Rightarrow> Inl (Errorf ''parent stateDB is nil'')
      | Some st \<Rightarrow>
          (let a0Account = st_GetDepositAccount st account
           in if a0Account \<noteq> 0 then Inr (a0Account, account)
              else
                (let a1Account = st_GetAuthFrom st account signHeight
                 in if a1Account = 0 then Inl (Errorf ''account is neither A1 nor A2'')
                    else
                      (let a0Account' = st_GetDepositAccount st a1Account
                       in if a0Account' \<noteq> 0 then Inr (a0Account', a1Account)
                          else Inl (Errorf ''get A0 account err'')))))"

definition cdcGetA2AccountsFromA0Account :: "BlockChain \<Rightarrow> cdc \<Rightarrow> address \<Rightarrow> hash \<Rightarrow> error + address list" where
  "cdcGetA2AccountsFromA0Account chain dc a0Account blockHash =
     (if blockHash = 0 then Inl (Errorf ''hash is empty'')
      else if blockHash \<noteq> dc_preHash dc then chainGetA2AccountsFromA0Account chain a0Account blockHash
      else getA2Accounts dc a0Account (dc_number dc - 1))"

definition cdcGetA0AccountFromAnyAccount :: "BlockChain \<Rightarrow> cdc \<Rightarrow> address \<Rightarrow> hash \<Rightarrow> error + (address \<times> address)" where
  "cdcGetA0AccountFromAnyAccount chain dc account blockHash =
     (if blockHash = 0 then Inl (Errorf ''hash is empty'')
      else if blockHash \<noteq> dc_preHash dc then chainGetA0AccountFromAnyAccount chain account blockHash
      else getA0Account dc account (dc_number dc - 1))"

definition cdcGetA2AccountsFromA0AccountAtSignHeight ::
  "BlockChain \<Rightarrow> cdc \<Rightarrow> address \<Rightarrow> hash \<Rightarrow> u64 \<Rightarrow> error + address list" where
  "cdcGetA2AccountsFromA0AccountAtSignHeight chain dc a0Account blockHash signHeight =
     (if blockHash = 0 then Inl (Errorf ''hash is empty'')
      else if blockHash \<noteq> dc_preHash dc
      then chainGetA2AccountsFromA0AccountAtSignHeight chain a0Account blockHash signHeight
      else getA2Accounts dc a0Account signHeight)"

definition cdcGetA0AccountFromAnyAccountAtSignHeight ::
  "BlockChain \<Rightarrow> cdc \<Rightarrow> address \<Rightarrow> hash \<Rightarrow> u64 \<Rightarrow> error + (address \<times> address)" where
  "cdcGetA0AccountFromAnyAccountAtSignHeight chain dc account blockHash signHeight =
     (if blockHash = 0 then Inl (Errorf ''hash is empty'')
      else if blockHash \<noteq> dc_preHash dc
      then chainGetA0AccountFromAnyAccountAtSignHeight chain account blockHash signHeight
      else getA0Account dc account signHeight)"

definition cdcReader :: "BlockChain \<Rightarrow> cdc \<Rightarrow> StateReader" where
  "cdcReader chain dc =
     \<lparr>sr_GetCurrentHash = cdcGetCurrentHash dc,
      sr_GetGraphByHash = cdcGetGraphByHash chain dc,
      sr_GetBroadcastAccounts = cdcGetBroadcastAccounts chain dc,
      sr_GetVersionSuperAccounts = cdcGetVersionSuperAccounts chain dc,
      sr_GetBlockSuperAccounts = cdcGetBlockSuperAccounts chain dc,
      sr_GetBroadcastIntervalByHash = cdcGetBroadcastIntervalByHash chain dc,
      sr_GetA0AccountFromAnyAccount = cdcGetA0AccountFromAnyAccount chain dc\<rparr>"

definition cdcAuthReader :: "BlockChain \<Rightarrow> cdc \<Rightarrow> AuthReader" where
  "cdcAuthReader chain dc =
     \<lparr>ar_GetSignAccountPassword = GetSignAccountPassword (bc_entrustValue chain),
      ar_GetA2AccountsFromA0Account = cdcGetA2AccountsFromA0Account chain dc,
      ar_GetA0AccountFromAnyAccount = cdcGetA0AccountFromAnyAccount chain dc,
      ar_GetA2AccountsFromA0AccountAtSignHeight = cdcGetA2AccountsFromA0AccountAtSignHeight chain dc,
      ar_GetA0AccountFromAnyAccountAtSignHeight = cdcGetA0AccountFromAnyAccountAtSignHeight chain dc\<rparr>"

section \<open>Leaders of the turns\<close>

text \<open>
  No operation fails to return while the broadcast interval is not 0, the only divisor.
\<close>

definition intervalOK :: "BCIntervalInfo option \<Rightarrow> bool" where
  "intervalOK bcInterval \<longleftrightarrow> (\<forall>bc. bcInterval = Some bc \<longrightarrow> BCInterval bc \<noteq> 0)"

lemma lcGetLeader_total: "intervalOK bc \<Longrightarrow> \<exists>r. lcGetLeader lc turn bc = Some r"
  by (auto simp: lcGetLeader_def intervalOK_def IsReElectionNumber_def IsBroadcastNumber_def Let_def
      split: option.splits)

lemma cdcGetLeader_total: "intervalOK bc \<Longrightarrow> \<exists>r. cdcGetLeader dc turn bc = Some r"
  using lcGetLeader_total [of bc "dc_leaderCal dc" turn] by (auto simp: cdcGetLeader_def)

lemma cdcGetLeader_cong: "dc_leaderCal dc = dc_leaderCal dc' \<Longrightarrow> cdcGetLeader dc = cdcGetLeader dc'"
  by (simp add: cdcGetLeader_def fun_eq_iff)

lemma cdcGetLeader_frame [frame_simps]:
  "cdcGetLeader (dc\<lparr>dc_state := v1\<rparr>) = cdcGetLeader dc"
  "cdcGetLeader (dc\<lparr>dc_selfAddr := v2\<rparr>) = cdcGetLeader dc"
  "cdcGetLeader (dc\<lparr>dc_selfNodeAddr := v3\<rparr>) = cdcGetLeader dc"
  "cdcGetLeader (dc\<lparr>dc_isMaster := v4\<rparr>) = cdcGetLeader dc"
  "cdcGetLeader (dc\<lparr>dc_turnTime := v5\<rparr>) = cdcGetLeader dc"
  "cdcGetLeader (dc\<lparr>dc_curReelectTurn := v6\<rparr>) = cdcGetLeader dc"
  "cdcGetLeader (dc\<lparr>dc_reelectMaster := v7\<rparr>) = cdcGetLeader dc"
  "cdcGetLeader (dc\<lparr>dc_bcInterval := v8\<rparr>) = cdcGetLeader dc"
  "cdcGetLeader (dc\<lparr>dc_consensusLeader := v9\<rparr>) = cdcGetLeader dc"
  "cdcGetLeader (dc\<lparr>dc_parentState := v10\<rparr>) = cdcGetLeader dc"
  "cdcGetLeader (dc\<lparr>dc_role := v11\<rparr>) = cdcGetLeader dc"
  "cdcGetLeader (dc\<lparr>dc_curConsensusTurn := v12\<rparr>) = cdcGetLeader dc"
  by (simp_all add: cdcGetLeader_def fun_eq_iff)

text \<open>The leader and the master the controller has cached are those of its turns.\<close>

definition leadersOK :: "cdc \<Rightarrow> bool" where
  "leadersOK dc \<longleftrightarrow>
     (\<forall>l. cdcGetLeader dc (TotalTurns (dc_curConsensusTurn dc)) (dc_bcInterval dc) = Some (Inr l)
        \<longrightarrow> dc_consensusLeader dc = l)
     \<and> (dc_curReelectTurn dc \<noteq> 0 \<longrightarrow>
          (\<forall>l. cdcGetLeader dc (TotalTurns (dc_curConsensusTurn dc) + dc_curReelectTurn dc) (dc_bcInterval dc)
               = Some (Inr l) \<longrightarrow> dc_reelectMaster dc = l))"

lemma leadersOK_new: "leadersOK (newCDC number)"
  by (simp add: leadersOK_def newCDC_def cdcGetLeader_def lcGetLeader_def)

lemma SetConsensusTurn_cases:
  assumes "SetConsensusTurn turn dc = Some (Inr dc')"
  obtains l where "cdcGetLeader dc (TotalTurns turn) (dc_bcInterval dc) = Some (Inr l)"
    "dc' = dc\<lparr>dc_consensusLeader := l, dc_curConsensusTurn := turn, dc_reelectMaster := 0, dc_curReelectTurn := 0\<rparr>"
  using assms by (auto simp: SetConsensusTurn_def split: Option.bind_splits sum.splits)

lemma SetReelectTurn_cases:
  assumes "SetReelectTurn turn dc = Some (Inr dc')"
  obtains (same) "turn = dc_curReelectTurn dc" "dc' = dc"
  | (zero) "turn = 0" "dc' = dc\<lparr>dc_reelectMaster := 0, dc_curReelectTurn := 0\<rparr>"
  | (turn) l where "cdcGetLeader dc (TotalTurns (dc_curConsensusTurn dc) + turn) (dc_bcInterval dc) = Some (Inr l)"
      "dc' = dc\<lparr>dc_reelectMaster := l, dc_curReelectTurn := turn\<rparr>" "turn \<noteq> 0"
  using assms by (auto simp: SetReelectTurn_def split: Option.bind_splits sum.splits if_splits)

lemma SetConsensusTurn_leaders: "SetConsensusTurn turn dc = Some (Inr dc') \<Longrightarrow> leadersOK dc'"
  by (erule SetConsensusTurn_cases) (simp add: leadersOK_def frame_simps)

lemma SetReelectTurn_leaders:
  assumes "leadersOK dc" "SetReelectTurn turn dc = Some (Inr dc')"
  shows "leadersOK dc'"
  using assms(2) by (cases rule: SetReelectTurn_cases) (use assms(1) in \<open>auto simp: leadersOK_def frame_simps\<close>)

lemma SetConsensusTurn_total: "intervalOK (dc_bcInterval dc) \<Longrightarrow> \<exists>r. SetConsensusTurn turn dc = Some r"
  using cdcGetLeader_total [of "dc_bcInterval dc" dc "TotalTurns turn"]
  by (auto simp: SetConsensusTurn_def split: sum.splits)

lemma SetReelectTurn_total: "intervalOK (dc_bcInterval dc) \<Longrightarrow> \<exists>r. SetReelectTurn turn dc = Some r"
  using cdcGetLeader_total [of "dc_bcInterval dc" dc "TotalTurns (dc_curConsensusTurn dc) + turn"]
  by (auto simp: SetReelectTurn_def split: sum.splits)

lemma PrepareLeaderMsg_total: "intervalOK (dc_bcInterval dc) \<Longrightarrow> \<exists>r. PrepareLeaderMsg dc = Some r"
  using lcGetLeader_total [of "dc_bcInterval dc" "dc_leaderCal dc"
      "TotalTurns (dc_curConsensusTurn dc) + dc_curReelectTurn dc"]
  by (auto simp: PrepareLeaderMsg_def split: sum.splits prod.splits)

lemma lcGetLeader_error: "lcGetLeader lc turn (Some bc) = Some (Inl e) \<Longrightarrow> lcGetLeader lc turn' b \<noteq> Some (Inr d)"
  by (auto simp: lcGetLeader_def Let_def split: option.splits if_splits Option.bind_splits)

lemma cdcGetLeader_error: "cdcGetLeader dc turn (Some bc) = Some (Inl e) \<Longrightarrow> cdcGetLeader dc turn' b \<noteq> Some (Inr l)"
  using lcGetLeader_error [of "dc_leaderCal dc" turn bc _ turn' b]
  by (auto simp: cdcGetLeader_def split: Option.bind_splits sum.splits)

lemma applyState_cases:
  assumes "applyState st role config bc dc = Some (err, dc')"
  obtains (failed) turn e where "cdcGetLeader dc turn (Some bc) = Some (Inl e)" "dc' = dc" "err = Some e"
  | (applied) l m tt where "cdcGetLeader dc (TotalTurns (dc_curConsensusTurn dc)) (Some bc) = Some (Inr l)"
      "dc_curReelectTurn dc \<noteq> 0 \<Longrightarrow>
         cdcGetLeader dc (TotalTurns (dc_curConsensusTurn dc) + dc_curReelectTurn dc) (Some bc) = Some (Inr m)"
      "SetTimeConfig (Some config) (dc_turnTime dc) = Inr tt" "err = None"
      "dc' = dc\<lparr>dc_reelectMaster := m, dc_turnTime := tt, dc_bcInterval := Some bc, dc_consensusLeader := l,
                 dc_parentState := Some st, dc_role := role\<rparr>"
proof -
  let ?i = "TotalTurns (dc_curConsensusTurn dc)" and ?r = "dc_curReelectTurn dc"
  obtain tt where tt: "SetTimeConfig (Some config) (dc_turnTime dc) = Inr tt" by (simp add: SetTimeConfig_def)
  obtain r where r: "cdcGetLeader dc ?i (Some bc) = Some r"
    using assms by (auto simp: applyState_def Let_def split: Option.bind_splits)
  show ?thesis
  proof (cases r)
    case (Inl e)
    then have "dc' = dc \<and> err = Some e" using assms r by (simp add: applyState_def Let_def)
    then show ?thesis using failed r Inl by blast
  next
    case (Inr l)
    obtain m where m: "(if ?r \<noteq> 0 then cdcGetLeader dc (?i + ?r) (Some bc) else Some (Inr 0)) = Some m"
      using assms r Inr by (auto simp: applyState_def Let_def split: Option.bind_splits)
    show ?thesis
    proof (cases m)
      case (Inl e)
      then have "cdcGetLeader dc (?i + ?r) (Some bc) = Some (Inl e)" using m by (simp split: if_splits)
      moreover have "dc' = dc \<and> err = Some e" using assms r m Inl \<open>r = Inr l\<close> by (simp add: applyState_def Let_def)
      ultimately show ?thesis using failed by blast
    next
      case (Inr m')
      have "dc_curReelectTurn dc \<noteq> 0 \<Longrightarrow> cdcGetLeader dc (?i + ?r) (Some bc) = Some (Inr m')"
        using m Inr by simp
      moreover have "err = None \<and> dc' = dc\<lparr>dc_reelectMaster := m', dc_turnTime := tt, dc_bcInterval := Some bc,
          dc_consensusLeader := l, dc_parentState := Some st, dc_role := role\<rparr>"
        using assms r m tt Inr \<open>r = Inr l\<close> by (simp add: applyState_def Let_def)
      ultimately show ?thesis using applied r tt \<open>r = Inr l\<close> by blast
    qed
  qed
qed

lemma applyState_leaders: "applyState st role config bc dc = Some (err, dc') \<Longrightarrow> leadersOK dc'"
proof (erule applyState_cases)
  fix turn e assume "cdcGetLeader dc turn (Some bc) = Some (Inl e)" "dc' = dc"
  then show ?thesis using cdcGetLeader_error [of dc turn bc e] by (simp add: leadersOK_def)
qed (simp add: leadersOK_def frame_simps)

text \<open>The results of \<open>AnalysisState\<close>: nothing changed, or the parent has been taken over.\<close>

lemma AnalysisState_cases:
  assumes "AnalysisState cr chain ph ps dc = Some (err, dc')"
  obtains (failed) e where "dc' = dc" "err = Some e"
  | (analysed) st h validators role specials config bc lc where "ps = Some st" "ph = Some h"
      "readValidatorsAndRoleFromState st dc = Inr (validators, role)"
      "readSpecialAccountsFromState st = Inr specials" "st_LeaderConfig st = Inr config"
      "st_BroadcastInterval st = Inr bc"
      "SetValidatorsAndSpecials cr (bc_GetHeader chain) (Some h) (Some validators) (Some specials) (Some bc)
         (dc_leaderCal dc) = Some (Inr lc)"
      "applyState st role config bc (dc\<lparr>dc_leaderCal := lc\<rparr>) = Some (err, dc')"
  using assms
  by (auto simp: AnalysisState_def readLeaderConfigFromState_def readBroadCastIntervalFromState_def
      split: option.splits sum.splits prod.splits Option.bind_splits)

lemma AnalysisState_leaders:
  assumes "leadersOK dc" "AnalysisState cr chain ph ps dc = Some (err, dc')"
  shows "leadersOK dc'"
  using assms(2) by (cases rule: AnalysisState_cases) (use assms(1) applyState_leaders in auto)

section \<open>The reads for the parent block\<close>

lemma AnalysisState_synced:
  assumes "AnalysisState cr chain (Some h) (Some st) dc = Some (None, dc')"
  shows "dc_parentState dc' = Some st \<and> dc_preHash dc' = Hash cr h \<and> dc_number dc' = dc_number dc
    \<and> readSpecialAccountsFromState st = Inr (lc_specialAccounts (dc_leaderCal dc'))
    \<and> (\<exists>bc. dc_bcInterval dc' = Some bc \<and> st_BroadcastInterval st = Inr bc)"
  using assms
proof (cases rule: AnalysisState_cases)
  case (analysed st0 h0 validators role specials config bc lc)
  from analysed(7) have "lc_preHash lc = Hash cr h \<and> lc_specialAccounts lc = specials"
    by (cases rule: SetValidatorsAndSpecials_cases) (use analysed(2) in auto)
  moreover from analysed(8) have "dc_parentState dc' = Some st \<and> dc_bcInterval dc' = Some bc
      \<and> dc_leaderCal dc' = lc \<and> dc_number dc' = dc_number dc"
    by (cases rule: applyState_cases) (use analysed(1) in auto)
  ultimately show ?thesis using analysed by auto
qed simp

lemma readSpecial_fields:
  assumes "readSpecialAccountsFromState st = Inr specials"
  shows "st_BroadcastAccounts st = Inr (sa_broadcasts specials)"
    and "st_VersionSuperAccounts st = Inr (sa_versionSupers specials)"
    and "st_BlockSuperAccounts st = Inr (sa_blockSupers specials)"
  using assms by (auto simp: readSpecialAccountsFromState_def split: sum.splits)

text \<open>The controller has analysed the parent block \<open>h\<close>, which the chain has with its state.\<close>

definition parentKnown :: "Crypto \<Rightarrow> BlockChain \<Rightarrow> Header \<Rightarrow> StateDB \<Rightarrow> cdc \<Rightarrow> bool" where
  "parentKnown cr chain h st dc \<longleftrightarrow>
     bc_GetBlockByHash chain (Hash cr h) = Some h \<and> bc_StateAt chain (h_Roots h) = Inr st
     \<and> Uint64 (h_Number h) = dc_number dc - 1"

lemma cdcReader_fields:
  assumes "AnalysisState cr chain (Some h) (Some st) dc = Some (None, dc')" "parentKnown cr chain h st dc" "bh \<noteq> 0"
  shows "cdcGetGraphByHash chain dc' bh = chainGetGraphByHash chain bh"
    and "cdcGetBroadcastAccounts chain dc' bh = chainGetBroadcastAccounts chain bh"
    and "cdcGetVersionSuperAccounts chain dc' bh = chainGetVersionSuperAccounts chain bh"
    and "cdcGetBlockSuperAccounts chain dc' bh = chainGetBlockSuperAccounts chain bh"
    and "cdcGetBroadcastIntervalByHash chain dc' bh = chainGetBroadcastIntervalByHash chain bh"
    and "cdcGetA2AccountsFromA0Account chain dc' a bh = chainGetA2AccountsFromA0Account chain a bh"
    and "map_sum (\<lambda>_. ()) id (cdcGetA0AccountFromAnyAccount chain dc' a bh)
       = map_sum (\<lambda>_. ()) id (chainGetA0AccountFromAnyAccount chain a bh)"
proof -
  note sync = AnalysisState_synced [OF assms(1)]
  have st: "StateAtBlockHash chain (Hash cr h) = Inr st"
    using assms(2) by (simp add: parentKnown_def StateAtBlockHash_def)
  have spec: "readSpecialAccountsFromState st = Inr (lc_specialAccounts (dc_leaderCal dc'))" using sync by blast
  note facts = assms(2,3) st readSpecial_fields [OF spec]
  show "cdcGetGraphByHash chain dc' bh = chainGetGraphByHash chain bh"
    using facts sync by (auto simp: cdcGetGraphByHash_def chainGetGraphByHash_def GetGraphByState_def
        GetTopologyGraphByHash_def GetElectGraphByHash_def split: sum.splits)
  show "cdcGetBroadcastAccounts chain dc' bh = chainGetBroadcastAccounts chain bh"
    "cdcGetVersionSuperAccounts chain dc' bh = chainGetVersionSuperAccounts chain bh"
    "cdcGetBlockSuperAccounts chain dc' bh = chainGetBlockSuperAccounts chain bh"
    "cdcGetBroadcastIntervalByHash chain dc' bh = chainGetBroadcastIntervalByHash chain bh"
    using facts sync
    by (auto simp: cdcGetBroadcastAccounts_def chainGetBroadcastAccounts_def cdcGetVersionSuperAccounts_def
        chainGetVersionSuperAccounts_def cdcGetBlockSuperAccounts_def chainGetBlockSuperAccounts_def
        cdcGetBroadcastIntervalByHash_def chainGetBroadcastIntervalByHash_def readAt_def)
  show "cdcGetA2AccountsFromA0Account chain dc' a bh = chainGetA2AccountsFromA0Account chain a bh"
    using facts sync
    by (auto simp: cdcGetA2AccountsFromA0Account_def chainGetA2AccountsFromA0Account_def getA2Accounts_def
        GetA1AccountFromA0Account_def GetA2AccountsFromA1Account_def parentKnown_def Let_def)
  show "map_sum (\<lambda>_. ()) id (cdcGetA0AccountFromAnyAccount chain dc' a bh)
       = map_sum (\<lambda>_. ()) id (chainGetA0AccountFromAnyAccount chain a bh)"
    using facts sync
    by (auto simp: cdcGetA0AccountFromAnyAccount_def chainGetA0AccountFromAnyAccount_def getA0Account_def
        GetA0AccountFromA1Account_def GetA1AccountFromA2Account_def parentKnown_def Let_def)
qed

lemma verifySigns_reader:
  assumes "\<And>a. map_sum (\<lambda>_. ()) id (sr_GetA0AccountFromAnyAccount rd a bh)
    = map_sum (\<lambda>_. ()) id (sr_GetA0AccountFromAnyAccount rd' a bh)"
  shows "verifySigns cr rd sh signs stocks bh acc = verifySigns cr rd' sh signs stocks bh acc"
proof (induction signs arbitrary: acc)
  case (Cons sign signs)
  obtain a v e where v: "VerifySignWithValidate cr sh sign = (a, v, e)" by (metis prod_cases3)
  show ?case using assms [of a] Cons v
    by (cases "sr_GetA0AccountFromAnyAccount rd a bh"; cases "sr_GetA0AccountFromAnyAccount rd' a bh") auto
qed simp

text \<open>C24. Once a controller has analysed the parent block, and the chain has that block with the same
  state, the consensus engine gives the same verdict on every set of votes at every block whether it
  reads through the controller's cached data or through the chain.\<close>

theorem VerifyHashWithBlock_cdcReader:
  assumes "AnalysisState cr chain (Some h) (Some st) dc = Some (None, dc')" "parentKnown cr chain h st dc" "bh \<noteq> 0"
  shows "VerifyHashWithBlock md cr (cdcReader chain dc') sh signs bh
    = VerifyHashWithBlock md cr (chainReader cr chain) sh signs bh"
proof -
  note f = cdcReader_fields [OF assms]
  have "verifySigns cr (cdcReader chain dc') sh ss stocks bh acc
      = verifySigns cr (chainReader cr chain) sh ss stocks bh acc" for ss stocks acc
    by (rule verifySigns_reader) (simp add: cdcReader_def chainReader_def f)
  then show ?thesis
    by (simp add: VerifyHashWithBlock_def getValidatorStocks_def VerifyHashWithStocks_def f
        cdcReader_def chainReader_def split: sum.splits)
qed

text \<open>
  Four validators at height 5, the first height after a broadcast block, with node 10 as this node;
  every account signs for itself.
\<close>

definition exampleParent :: Header where
  "exampleParent = exampleHeader\<lparr>h_Number := 4\<rparr>"

definition exampleState :: StateDB where
  "exampleState =
     \<lparr>st_TopologyGraph = Inr exampleGraph,
      st_ElectGraph = Inr \<lparr>eg_Number = 0, ElectList = [], NextMinerElect = [], NextValidatorElect = []\<rparr>,
      st_ElectOnlineState = Inl (Errorf ''data is empty''), st_BroadcastInterval = Inr exampleInterval,
      st_BroadcastAccounts = Inr [3], st_InnerMinerAccounts = Inr [],
      st_VersionSuperAccounts = Inr (Some []), st_BlockSuperAccounts = Inr (Some []),
      st_LeaderConfig = Inr \<lparr>cfg_ParentMiningTime = 20, cfg_PosOutTime = 40, cfg_ReelectOutTime = 40,
                              cfg_ReelectHandleInterval = 3\<rparr>,
      st_SuperBlockCfg = Inr \<lparr>sb_Seq = 0, sb_Num = 0\<rparr>,
      st_GetDepositAccount = (\<lambda>a. a), st_GetAuthAccount = (\<lambda>a. a),
      st_GetEntrustFrom = (\<lambda>a n. []), st_GetAuthFrom = (\<lambda>a n. 0)\<rparr>"

definition exampleBlockChain :: BlockChain where
  "exampleBlockChain =
     \<lparr>bc_GetHeader = exampleChain, bc_GetHeaderByHash = (\<lambda>h. Some exampleParent),
      bc_GetBlockByHash = (\<lambda>h. Some exampleParent), bc_GetBlockByNumber = (\<lambda>n. None),
      bc_CurrentBlock = Some exampleParent, bc_StateAt = (\<lambda>r. Inr exampleState),
      bc_entrustValue = [(10, ''secret'')]\<rparr>"

definition exampleCdc :: cdc where
  "exampleCdc = (newCDC 5)\<lparr>dc_selfAddr := 10, dc_selfNodeAddr := 10\<rparr>"

lemma exampleCdc_analysed:
  "\<exists>dc. AnalysisState exampleCrypto exampleBlockChain (Some exampleParent) (Some exampleState) exampleCdc = Some (None, dc)"
proof -
  have rd: "readValidatorsAndRoleFromState exampleState exampleCdc = Inr (exampleNodes, RoleValidator)"
    by (simp add: readValidatorsAndRoleFromState_def getRoleFromTopology_def exampleState_def exampleCdc_def
        exampleGraph_def exampleNodes_def)
  have sp: "readSpecialAccountsFromState exampleState = Inr \<lparr>sa_broadcasts = [3], sa_versionSupers = Some [], sa_blockSupers = Some []\<rparr>"
    by (simp add: readSpecialAccountsFromState_def exampleState_def)
  let ?sp = "\<lparr>sa_broadcasts = [3], sa_versionSupers = Some [], sa_blockSupers = Some []\<rparr>"
  have "\<exists>lc. SetValidatorsAndSpecials exampleCrypto exampleChain (Some exampleParent) (Some exampleNodes) (Some ?sp)
      (Some exampleInterval) (newLeaderCalculator 5) = Some (Inr lc)"
    by (simp add: exampleParent_def lc_eval)
  then obtain lc where lc: "SetValidatorsAndSpecials exampleCrypto exampleChain (Some exampleParent) (Some exampleNodes)
      (Some ?sp) (Some exampleInterval) (newLeaderCalculator 5) = Some (Inr lc)" by blast
  have "lcOK lc \<and> lc_validators lc = exampleNodes \<and> lc_number lc = 5"
    using SetValidatorsAndSpecials_lcOK [OF lc] by (simp add: exampleNodes_facts newLeaderCalculator_def)
  then have "lcGetLeader lc 0 (Some exampleInterval) =
      Some (Inr \<lparr>ld_leader = leaderAt lc 0, ld_nextLeader = leaderAt lc 1\<rparr>)"
    using lcGetLeader_ordinary [of lc exampleInterval False 0]
    by (simp add: exampleNodes_facts IsReElectionNumber_def IsBroadcastNumber_def exampleInterval_def)
  then show ?thesis using rd sp lc
    by (simp add: AnalysisState_def readLeaderConfigFromState_def readBroadCastIntervalFromState_def exampleState_def
        exampleBlockChain_def exampleCdc_def newCDC_def applyState_def cdcGetLeader_def TotalTurns_def SetTimeConfig_def)
qed

theorem VerifyHashWithBlock_cdcReader_witness:
  "\<exists>dc. AnalysisState exampleCrypto exampleBlockChain (Some exampleParent) (Some exampleState) exampleCdc = Some (None, dc)
    \<and> VerifyHashWithBlock (NewMtxDPOS False) exampleCrypto (cdcReader exampleBlockChain dc) 5 [(13, 0), (12, 1), (11, 0)] 7
      = VerifyHashWithBlock (NewMtxDPOS False) exampleCrypto (chainReader exampleCrypto exampleBlockChain) 5
          [(13, 0), (12, 1), (11, 0)] 7"
proof -
  obtain dc where dc: "AnalysisState exampleCrypto exampleBlockChain (Some exampleParent) (Some exampleState) exampleCdc = Some (None, dc)"
    using exampleCdc_analysed by blast
  have "parentKnown exampleCrypto exampleBlockChain exampleParent exampleState exampleCdc"
    by (simp add: parentKnown_def exampleBlockChain_def exampleParent_def exampleHeader_def exampleCdc_def newCDC_def Uint64_def)
  from VerifyHashWithBlock_cdcReader [OF dc this, of 7] dc show ?thesis by (intro exI [of _ dc]) simp
qed

end
