(* ===== verification/MsgPool.thy ===== *)
theory MsgPool
  imports Messages
begin

text \<open>
  The message pool of a controller (\<open>leaderelect2.0/msgPool.go\<close>): the parent header, the
  notifications of finished blocks, one per consensus turn and leader, and the results of leader
  changes, one per consensus turn they lead to.  A cached notification without a header would end
  the process when it is compared: \<open>None\<close>; the invariant \<open>mpOK\<close> rules it out.
\<close>

section \<open>State and operations\<close>

record msgPool =
  mp_parentHeader :: "Header option"
  mp_posNotifyCache :: "BlockPOSFinishedNotify list"
  mp_rlConsensusCache :: "(ConsensusTurnInfo, HD_V2_ReelectLeaderConsensus) gomap"

definition newMsgPool :: msgPool where
  "newMsgPool = \<lparr>mp_parentHeader = None, mp_posNotifyCache = [], mp_rlConsensusCache = mapMake\<rparr>"

text \<open>The loop both operations on the notifications share.\<close>

fun findPOSNotify :: "BlockPOSFinishedNotify list \<Rightarrow> address \<Rightarrow> ConsensusTurnInfo \<Rightarrow> BlockPOSFinishedNotify option option" where
  "findPOSNotify [] leader consensusTurn = Some None"
| "findPOSNotify (msg # msgs) leader consensusTurn =
     do { same \<leftarrow> (if pn_ConsensusTurn msg = consensusTurn
                  then do { h \<leftarrow> pn_Header msg; Some (h_Leader h = leader) }
                  else Some False);
          if same then Some (Some msg) else findPOSNotify msgs leader consensusTurn }"

definition SavePOSNotifyMsg :: "BlockPOSFinishedNotify \<Rightarrow> msgPool \<Rightarrow> (error + msgPool) option" where
  "SavePOSNotifyMsg msg mp =
     (case pn_Header msg of
        None \<Rightarrow> Some (Inl ErrParamsIsNil)
      | Some header \<Rightarrow>
          (if h_Leader header = 0 then Some (Inl ErrParamsIsNil)
           else do { old \<leftarrow> findPOSNotify (mp_posNotifyCache mp) (h_Leader header) (pn_ConsensusTurn msg);
                     case old of
                       Some _ \<Rightarrow> Some (Inl ErrMsgExistInCache)
                     | None \<Rightarrow> Some (Inr (mp\<lparr>mp_posNotifyCache := mp_posNotifyCache mp @ [msg]\<rparr>)) }))"

definition GetPOSNotifyMsg :: "msgPool \<Rightarrow> address \<Rightarrow> ConsensusTurnInfo \<Rightarrow> (error + BlockPOSFinishedNotify) option" where
  "GetPOSNotifyMsg mp leader consensusTurn =
     do { r \<leftarrow> findPOSNotify (mp_posNotifyCache mp) leader consensusTurn;
          Some (case r of None \<Rightarrow> Inl ErrNoMsgInCache | Some msg \<Rightarrow> Inr msg) }"

definition SaveRLConsensusMsg :: "HD_V2_ReelectLeaderConsensus option \<Rightarrow> msgPool \<Rightarrow> msgPool" where
  "SaveRLConsensusMsg m mp =
     (case m of
        None \<Rightarrow> mp
      | Some msg \<Rightarrow>
          (case rc_Req msg of
             None \<Rightarrow> mp
           | Some req \<Rightarrow>
               (case lr_InquiryReq req of
                  None \<Rightarrow> mp
                | Some inq \<Rightarrow>
                    (if iq_Master inq = 0 then mp
                     else
                       (let consensusTurn = calcNextConsensusTurn (iq_ConsensusTurn inq) (iq_ReelectTurn inq)
                        in mp\<lparr>mp_rlConsensusCache := mapSet consensusTurn msg (mp_rlConsensusCache mp)\<rparr>)))))"

definition GetRLConsensusMsg :: "msgPool \<Rightarrow> ConsensusTurnInfo \<Rightarrow> error + HD_V2_ReelectLeaderConsensus" where
  "GetRLConsensusMsg mp consensusTurn =
     (case mapGet (mp_rlConsensusCache mp) consensusTurn of None \<Rightarrow> Inl ErrNoMsgInCache | Some msg \<Rightarrow> Inr msg)"

definition SaveParentHeader :: "Header option \<Rightarrow> msgPool \<Rightarrow> msgPool" where
  "SaveParentHeader header mp =
     (case header of None \<Rightarrow> mp | Some h \<Rightarrow> mp\<lparr>mp_parentHeader := Some h\<rparr>)"

definition GetParentHeader :: "msgPool \<Rightarrow> Header option" where
  "GetParentHeader mp = mp_parentHeader mp"

section \<open>Caches that are written once\<close>

text \<open>
  What the service relies on where a peer could send a second, different message under the same
  key: the first one stays.  The votes of a request are such a cache too.
\<close>

locale write_once =
  fixes get :: "'s \<Rightarrow> 'k \<Rightarrow> 'v option"
    and put :: "'a \<Rightarrow> 's \<Rightarrow> 's option"
    and key :: "'a \<Rightarrow> 'k option"
    and val :: "'a \<Rightarrow> 'v"
    and ok :: "'s \<Rightarrow> bool"
  assumes put_known: "ok s \<Longrightarrow> key a = Some k \<Longrightarrow> get s k \<noteq> None \<Longrightarrow> put a s = None"
    and put_new: "ok s \<Longrightarrow> put a s = Some s' \<Longrightarrow> \<exists>k. key a = Some k \<and> get s' = (get s)(k \<mapsto> val a)"
    and put_ok: "ok s \<Longrightarrow> put a s = Some s' \<Longrightarrow> ok s'"
begin

fun puts :: "'a list \<Rightarrow> 's \<Rightarrow> 's" where
  "puts [] s = s"
| "puts (a # as) s = puts as (case put a s of None \<Rightarrow> s | Some s' \<Rightarrow> s')"

lemma puts_append: "puts (as @ bs) s = puts bs (puts as s)"
  by (induction as arbitrary: s) simp_all

lemma put_keeps: "ok s \<Longrightarrow> put a s = Some s' \<Longrightarrow> get s k = Some u \<Longrightarrow> get s' k = Some u"
  using put_known [of s a k] put_new [of s a s'] by (cases "key a = Some k") auto

lemma puts_keep: "ok s \<Longrightarrow> get s k = Some u \<Longrightarrow> get (puts as s) k = Some u"
proof (induction as arbitrary: s)
  case (Cons a as)
  then show ?case using put_keeps put_ok by (cases "put a s") simp_all
qed simp

lemma puts_ok: "ok s \<Longrightarrow> ok (puts as s)"
  by (induction as arbitrary: s) (auto simp: put_ok split: option.splits)

end

section \<open>The invariant\<close>

definition notifyKey :: "BlockPOSFinishedNotify \<Rightarrow> (ConsensusTurnInfo \<times> address) option" where
  "notifyKey msg =
     do { h \<leftarrow> pn_Header msg; if h_Leader h = 0 then None else Some (pn_ConsensusTurn msg, h_Leader h) }"

definition rlEntryOK :: "ConsensusTurnInfo \<times> HD_V2_ReelectLeaderConsensus \<Rightarrow> bool" where
  "rlEntryOK e \<longleftrightarrow>
     (\<exists>req inq. rc_Req (snd e) = Some req \<and> lr_InquiryReq req = Some inq \<and> iq_Master inq \<noteq> 0
        \<and> fst e = calcNextConsensusTurn (iq_ConsensusTurn inq) (iq_ReelectTurn inq))"

definition mpOK :: "msgPool \<Rightarrow> bool" where
  "mpOK mp \<longleftrightarrow>
     (\<forall>msg \<in> set (mp_posNotifyCache mp). notifyKey msg \<noteq> None)
     \<and> distinct (map notifyKey (mp_posNotifyCache mp))
     \<and> mapOK (mp_rlConsensusCache mp) \<and> (\<forall>e \<in> set (mp_rlConsensusCache mp). rlEntryOK e)"

lemma findPOSNotify_find:
  assumes "\<forall>msg \<in> set msgs. notifyKey msg \<noteq> None" "leader \<noteq> 0"
  shows "findPOSNotify msgs leader turn = Some (find (\<lambda>msg. notifyKey msg = Some (turn, leader)) msgs)"
  using assms by (induction msgs) (auto simp: notifyKey_def split: Option.bind_splits if_splits)

lemma findPOSNotify_total:
  "\<forall>msg \<in> set msgs. notifyKey msg \<noteq> None \<Longrightarrow> \<exists>r. findPOSNotify msgs leader turn = Some r"
  by (induction msgs) (auto simp: notifyKey_def split: Option.bind_splits if_splits)

lemma mpOK_new: "mpOK newMsgPool"
  by (simp add: mpOK_def newMsgPool_def mapMake_def mapOK_def)

lemma SavePOSNotifyMsg_total: "mpOK mp \<Longrightarrow> \<exists>r. SavePOSNotifyMsg msg mp = Some r"
  using findPOSNotify_total [of "mp_posNotifyCache mp" "h_Leader (the (pn_Header msg))" "pn_ConsensusTurn msg"]
  by (auto simp: SavePOSNotifyMsg_def mpOK_def split: option.splits)

lemma GetPOSNotifyMsg_total: "mpOK mp \<Longrightarrow> \<exists>r. GetPOSNotifyMsg mp leader turn = Some r"
  using findPOSNotify_total [of "mp_posNotifyCache mp" leader turn]
  by (auto simp: GetPOSNotifyMsg_def mpOK_def)

lemma SavePOSNotifyMsg_key:
  assumes "mpOK mp" "SavePOSNotifyMsg msg mp = Some (Inr mp')"
  shows "mp' = mp\<lparr>mp_posNotifyCache := mp_posNotifyCache mp @ [msg]\<rparr> \<and> notifyKey msg \<noteq> None
    \<and> notifyKey msg \<notin> notifyKey ` set (mp_posNotifyCache mp)"
proof -
  from assms(2) obtain h where h: "pn_Header msg = Some h" "h_Leader h \<noteq> 0"
    by (auto simp: SavePOSNotifyMsg_def split: option.splits if_splits)
  then have k: "notifyKey msg = Some (pn_ConsensusTurn msg, h_Leader h)" by (simp add: notifyKey_def)
  have "find (\<lambda>m. notifyKey m = notifyKey msg) (mp_posNotifyCache mp) = None"
    using assms h findPOSNotify_find [of "mp_posNotifyCache mp" "h_Leader h" "pn_ConsensusTurn msg"]
    by (auto simp: SavePOSNotifyMsg_def mpOK_def k split: option.splits)
  then show ?thesis using assms(2) h k
    by (auto simp: SavePOSNotifyMsg_def find_None_iff split: Option.bind_splits option.splits)
qed

lemma SavePOSNotifyMsg_OK: "mpOK mp \<Longrightarrow> SavePOSNotifyMsg msg mp = Some (Inr mp') \<Longrightarrow> mpOK mp'"
  using SavePOSNotifyMsg_key [of mp msg mp'] by (auto simp: mpOK_def)

lemma set_mapSet: "set (mapSet k v m) \<subseteq> insert (k, v) (set m)"
  by (induction m) (auto simp: mapSet_def)

lemma SaveRLConsensusMsg_OK: "mpOK mp \<Longrightarrow> mpOK (SaveRLConsensusMsg m mp)"
  using set_mapSet
  by (fastforce simp: SaveRLConsensusMsg_def mpOK_def rlEntryOK_def alist.ok_put split: option.splits)

lemma SaveParentHeader_OK: "mpOK mp \<Longrightarrow> mpOK (SaveParentHeader h mp)"
  by (auto simp: SaveParentHeader_def mpOK_def split: option.splits)

lemma GetRLConsensusMsg_entry:
  assumes "mpOK mp" "GetRLConsensusMsg mp turn = Inr msg"
  shows "rlEntryOK (turn, msg)"
proof -
  have "(turn, msg) \<in> set (mp_rlConsensusCache mp)"
    using assms(2) by (auto simp: GetRLConsensusMsg_def mapGet_def map_of_SomeD split: option.splits)
  with assms(1) show ?thesis by (auto simp: mpOK_def)
qed

text \<open>The notifications as a cache that is written once, keyed by consensus turn and leader.\<close>

definition notifyGet :: "msgPool \<Rightarrow> ConsensusTurnInfo \<times> address \<Rightarrow> BlockPOSFinishedNotify option" where
  "notifyGet mp k = find (\<lambda>msg. notifyKey msg = Some k) (mp_posNotifyCache mp)"

definition notifyPut :: "BlockPOSFinishedNotify \<Rightarrow> msgPool \<Rightarrow> msgPool option" where
  "notifyPut msg mp = (case SavePOSNotifyMsg msg mp of Some (Inr mp') \<Rightarrow> Some mp' | _ \<Rightarrow> None)"

interpretation notifies: write_once notifyGet notifyPut notifyKey "\<lambda>msg. msg" mpOK
proof
  fix s s' v k
  assume ok: "mpOK s"
  show "mpOK s'" if "notifyPut v s = Some s'"
    using that ok SavePOSNotifyMsg_OK [of s v s'] by (auto simp: notifyPut_def split: option.splits sum.splits)
  show "notifyPut v s = None" if "notifyKey v = Some k" "notifyGet s k \<noteq> None"
  proof -
    have "Some k \<in> notifyKey ` set (mp_posNotifyCache s)"
      using that(2) unfolding notifyGet_def find_None_iff by (metis image_eqI)
    then show ?thesis using that(1) ok SavePOSNotifyMsg_key [of s v]
      by (auto simp: notifyPut_def split: option.splits sum.splits)
  qed
  show "\<exists>k. notifyKey v = Some k \<and> notifyGet s' = (notifyGet s)(k \<mapsto> v)" if "notifyPut v s = Some s'"
  proof -
    have "SavePOSNotifyMsg v s = Some (Inr s')" using that by (auto simp: notifyPut_def split: option.splits sum.splits)
    from SavePOSNotifyMsg_key [OF ok this] obtain k where k: "notifyKey v = Some k"
      and s': "mp_posNotifyCache s' = mp_posNotifyCache s @ [v]"
      and "Some k \<notin> notifyKey ` set (mp_posNotifyCache s)" by auto
    then have n: "\<forall>m \<in> set (mp_posNotifyCache s). notifyKey m \<noteq> Some k" by (metis image_eqI)
    have "find (\<lambda>m. notifyKey m = Some l) (xs @ [v])
        = (if l = k \<and> (\<forall>m \<in> set xs. notifyKey m \<noteq> Some k) then Some v else find (\<lambda>m. notifyKey m = Some l) xs)" for l xs
      using k by (induction xs) auto
    then show ?thesis using k s' n by (intro exI [of _ k]) (auto simp: notifyGet_def fun_eq_iff)
  qed
qed

text \<open>A peer cannot replace a notification: the first notification of a finished block for a consensus
  turn and a leader is what the pool returns for them, after every later sequence of notifications.\<close>

lemma SavePOSNotifyMsg_first:
  assumes "mpOK mp" "SavePOSNotifyMsg msg mp = Some (Inr mp')" "pn_Header msg = Some h"
  shows "GetPOSNotifyMsg (notifies.puts msgs mp') (h_Leader h) (pn_ConsensusTurn msg) = Some (Inr msg)"
proof -
  note k = SavePOSNotifyMsg_key [OF assms(1,2)] and ok' = SavePOSNotifyMsg_OK [OF assms(1,2)]
  have l: "h_Leader h \<noteq> 0" and key: "notifyKey msg = Some (pn_ConsensusTurn msg, h_Leader h)"
    using k assms(3) by (auto simp: notifyKey_def split: if_splits)
  have "find (\<lambda>m. notifyKey m = notifyKey msg) (xs @ [msg]) = Some msg"
    if "notifyKey msg \<notin> notifyKey ` set xs" for xs
    using that by (induction xs) auto
  then have "notifyGet mp' (pn_ConsensusTurn msg, h_Leader h) = Some msg" using k by (simp add: notifyGet_def key)
  then have "notifyGet (notifies.puts msgs mp') (pn_ConsensusTurn msg, h_Leader h) = Some msg"
    by (rule notifies.puts_keep [OF ok'])
  moreover have "\<forall>m \<in> set (mp_posNotifyCache (notifies.puts msgs mp')). notifyKey m \<noteq> None"
    using notifies.puts_ok [OF ok'] by (simp add: mpOK_def)
  ultimately show ?thesis using findPOSNotify_find [OF _ l] by (simp add: GetPOSNotifyMsg_def notifyGet_def)
qed

end
