(* ===== verification/MasterCache.thy ===== *)
theory MasterCache
  imports Cdc MsgPool
begin

text \<open>
  What the master of a re-election turn keeps of its own requests (\<open>leaderelect2.0/masterCache.go\<close>):
  a pool with the request, its hash and the votes for it, for each of the three rounds of a leader
  change (the inquiry, the request to change the leader, the broadcast of the result).

  The lemmas show that a pool holds only verified approvals of its request, one per sender, and that
  the three rounds run in order.
\<close>

section \<open>Pools of votes\<close>

datatype reqMsg =
    NilMsg
  | InquiryMsg HD_V2_ReelectInquiryReqMsg
  | LeaderReqMsg HD_V2_ReelectLeaderReqMsg
  | BroadcastMsg HD_V2_ReelectBroadcastMsg

record posPool =
  pp_reqHash :: hash
  pp_reqMsg :: reqMsg
  pp_voteCache :: "(address, VerifiedSign) gomap"

definition newPosPool :: posPool where
  "newPosPool = \<lparr>pp_reqHash = 0, pp_reqMsg = NilMsg, pp_voteCache = mapMake\<rparr>"

definition pp_clear :: "posPool \<Rightarrow> posPool" where
  "pp_clear pp = pp\<lparr>pp_reqHash := 0, pp_reqMsg := NilMsg, pp_voteCache := mapMake\<rparr>"

definition saveReqMsg :: "reqMsg \<Rightarrow> posPool \<Rightarrow> posPool" where
  "saveReqMsg msg pp = pp\<lparr>pp_reqMsg := msg\<rparr>"

text \<open>\<open>None\<close> is the panic of the encoder on a nil interface or a nil header.\<close>

fun VReqMsg :: "reqMsg \<Rightarrow> rlpValue option" where
  "VReqMsg NilMsg = None"
| "VReqMsg (InquiryMsg m) = Some (VInquiryReq m)"
| "VReqMsg (LeaderReqMsg m) = Some (VLeaderReq m)"
| "VReqMsg (BroadcastMsg m) = VBroadcastMsg m"

definition saveReqMsgAndHash :: "Crypto \<Rightarrow> reqMsg \<Rightarrow> posPool \<Rightarrow> (hash \<times> posPool) option" where
  "saveReqMsgAndHash cr msg pp =
     do { v \<leftarrow> VReqMsg msg;
          let pp' = pp\<lparr>pp_reqMsg := msg, pp_reqHash := rlpHash cr v, pp_voteCache := mapMake\<rparr>;
          Some (pp_reqHash pp', pp') }"

definition getReqMsg :: "posPool \<Rightarrow> reqMsg" where
  "getReqMsg pp = pp_reqMsg pp"

definition saveVoteMsg ::
  "Crypto \<Rightarrow> BlockChain \<Rightarrow> cdc \<Rightarrow> hash \<Rightarrow> signature \<Rightarrow> address \<Rightarrow> posPool \<Rightarrow> error + posPool" where
  "saveVoteMsg cr chain dc reqHash sign from pp =
     (if pp_reqHash pp = 0 \<or> pp_reqMsg pp = NilMsg then Inl ErrSelfReqIsNil
      else if reqHash \<noteq> pp_reqHash pp then Inl (Errorf ''reqHash does not match'')
      else if mapGet (pp_voteCache pp) from \<noteq> None then Inl (Errorf ''response exists'')
      else
        (case VerifySignWithValidateByReader cr (Some (cdcAuthReader chain dc)) reqHash sign (dc_preHash dc) of
           Inl e \<Rightarrow> Inl (Errorf ''signature parse err'')
         | Inr (depositAccount, signAccount, validate) \<Rightarrow>
             (if signAccount \<noteq> from then Inl (Errorf ''sign account does not match sender'')
              else if \<not> validate then Inl (Errorf ''signature is a rejection'')
              else Inr (pp\<lparr>pp_voteCache := mapSet signAccount
                            \<lparr>vs_Sign = sign, vs_Account = depositAccount, vs_Validate = validate, vs_Stock = 0\<rparr>
                            (pp_voteCache pp)\<rparr>))))"

definition getVotes :: "posPool \<Rightarrow> VerifiedSign list" where
  "getVotes pp = map snd (pp_voteCache pp)"

section \<open>The cache\<close>

record masterCache =
  mc_number :: u64
  mc_selfAddr :: address
  mc_selfNodeAddr :: address
  mc_lastSignalInquiryTime :: int
  mc_inquiryResult :: ReelectRSPType
  mc_inquiryPool :: posPool
  mc_rlReqPool :: posPool
  mc_broadcastPool :: posPool

definition newMasterCache :: "u64 \<Rightarrow> masterCache" where
  "newMasterCache number =
     \<lparr>mc_number = number, mc_selfAddr = 0, mc_selfNodeAddr = 0, mc_lastSignalInquiryTime = 0,
      mc_inquiryResult = ReelectRSPTypeNone, mc_inquiryPool = newPosPool, mc_rlReqPool = newPosPool,
      mc_broadcastPool = newPosPool\<rparr>"

definition ClearSelfInquiryMsg :: "masterCache \<Rightarrow> masterCache" where
  "ClearSelfInquiryMsg mc =
     mc\<lparr>mc_lastSignalInquiryTime := 0, mc_inquiryResult := ReelectRSPTypeNone,
        mc_inquiryPool := pp_clear (mc_inquiryPool mc), mc_rlReqPool := pp_clear (mc_rlReqPool mc),
        mc_broadcastPool := pp_clear (mc_broadcastPool mc)\<rparr>"

definition CanSendSingleInquiryReq :: "int \<Rightarrow> int \<Rightarrow> masterCache \<Rightarrow> bool" where
  "CanSendSingleInquiryReq time interval mc \<longleftrightarrow> \<not> i64 (time - mc_lastSignalInquiryTime mc) \<le> interval"

definition SetLastSingleInquiryReqTime :: "int \<Rightarrow> masterCache \<Rightarrow> masterCache" where
  "SetLastSingleInquiryReqTime time mc = mc\<lparr>mc_lastSignalInquiryTime := time\<rparr>"

definition GetInquiryResult :: "masterCache \<Rightarrow> ReelectRSPType" where
  "GetInquiryResult mc = mc_inquiryResult mc"

definition SaveInquiryReq :: "Crypto \<Rightarrow> HD_V2_ReelectInquiryReqMsg \<Rightarrow> masterCache \<Rightarrow> (hash \<times> masterCache) option" where
  "SaveInquiryReq cr req mc =
     (let mc1 = (ClearSelfInquiryMsg mc)\<lparr>mc_inquiryResult := ReelectRSPTypeNone\<rparr>
      in do { (h, pool) \<leftarrow> saveReqMsgAndHash cr (InquiryMsg req) (mc_inquiryPool mc1);
              Some (h, mc1\<lparr>mc_inquiryPool := pool\<rparr>) })"

definition IsMatchedInquiryRsp :: "HD_V2_ReelectInquiryRspMsg \<Rightarrow> masterCache \<Rightarrow> error option" where
  "IsMatchedInquiryRsp rsp mc =
     (if pp_reqHash (mc_inquiryPool mc) = 0 then Some ErrSelfReqIsNil
      else if ir_ReqHash rsp \<noteq> pp_reqHash (mc_inquiryPool mc) then Some (Errorf ''reqHash does not match'')
      else None)"

definition SaveInquiryVote ::
  "Crypto \<Rightarrow> BlockChain \<Rightarrow> cdc \<Rightarrow> hash \<Rightarrow> signature \<Rightarrow> address \<Rightarrow> masterCache \<Rightarrow> error + masterCache" where
  "SaveInquiryVote cr chain dc reqHash sign from mc =
     (case saveVoteMsg cr chain dc reqHash sign from (mc_inquiryPool mc) of
        Inl e \<Rightarrow> Inl e
      | Inr pool \<Rightarrow> Inr (mc\<lparr>mc_inquiryPool := pool\<rparr>))"

definition GetInquiryVotes :: "masterCache \<Rightarrow> VerifiedSign list" where
  "GetInquiryVotes mc = getVotes (mc_inquiryPool mc)"

text \<open>The inquiry result is set before the check of the request; the cache is returned with the error.\<close>

definition GenRLReqMsg :: "signature list \<Rightarrow> masterCache \<Rightarrow> error option \<times> masterCache" where
  "GenRLReqMsg inquiryAgreeVotes mc =
     (if mc_inquiryResult mc \<noteq> ReelectRSPTypeNone then (Some (Errorf ''inquiry result exists''), mc)
      else
        (let mc1 = mc\<lparr>mc_inquiryResult := ReelectRSPTypeAgree\<rparr>
         in case getReqMsg (mc_inquiryPool mc1) of
              InquiryMsg inquiryMsg \<Rightarrow>
                (let msg = \<lparr>lr_InquiryReq = Some inquiryMsg, lr_AgreeSigns = inquiryAgreeVotes, lr_TimeStamp = 0\<rparr>
                 in (None, mc1\<lparr>mc_rlReqPool := saveReqMsg (LeaderReqMsg msg) (mc_rlReqPool mc1),
                               mc_inquiryPool := pp_clear (mc_inquiryPool mc1)\<rparr>))
            | _ \<Rightarrow> (Some (Errorf ''get inquiry message err''), mc1)))"

definition GenBroadcastMsgWithInquiryResult ::
  "ReelectRSPType \<Rightarrow> HD_V2_ReelectInquiryRspMsg \<Rightarrow> masterCache \<Rightarrow> error + masterCache" where
  "GenBroadcastMsgWithInquiryResult result rsp mc =
     (if result \<noteq> ReelectRSPTypePOS \<and> result \<noteq> ReelectRSPTypeAlreadyRL then Inl (Errorf ''target result type err'')
      else if mc_inquiryResult mc \<noteq> ReelectRSPTypeNone then Inl (Errorf ''inquiry result exists'')
      else
        (let msg = \<lparr>rb_Number = mc_number mc, rb_Type = result, rb_POSResult = ir_POSResult rsp,
                    rb_RLResult = ir_RLResult rsp, rb_TimeStamp = 0, rb_From = mc_selfNodeAddr mc\<rparr>
         in Inr (mc\<lparr>mc_inquiryResult := result, mc_inquiryPool := pp_clear (mc_inquiryPool mc),
                    mc_broadcastPool := saveReqMsg (BroadcastMsg msg) (mc_broadcastPool mc)\<rparr>)))"

definition GenBroadcastMsgWithRLSuccess :: "signature list \<Rightarrow> masterCache \<Rightarrow> error + masterCache" where
  "GenBroadcastMsgWithRLSuccess rlAgreeVotes mc =
     (if mc_inquiryResult mc \<noteq> ReelectRSPTypeAgree then Inl (Errorf ''inquiry result is not agree'')
      else
        (case getReqMsg (mc_rlReqPool mc) of
           LeaderReqMsg rlReq \<Rightarrow>
             (let rlResult = \<lparr>rc_Req = Some rlReq, rc_Votes = rlAgreeVotes\<rparr>;
                  msg = \<lparr>rb_Number = mc_number mc, rb_Type = ReelectRSPTypeAgree, rb_POSResult = None,
                         rb_RLResult = Some rlResult, rb_TimeStamp = 0, rb_From = mc_selfNodeAddr mc\<rparr>
              in Inr (mc\<lparr>mc_inquiryResult := ReelectRSPTypeAlreadyRL,
                         mc_broadcastPool := saveReqMsg (BroadcastMsg msg) (mc_broadcastPool mc),
                         mc_rlReqPool := pp_clear (mc_rlReqPool mc)\<rparr>))
         | _ \<Rightarrow> Inl (Errorf ''get leader request err'')))"

definition GetRLReqMsg ::
  "Crypto \<Rightarrow> int \<Rightarrow> masterCache \<Rightarrow> (error + (HD_V2_ReelectLeaderReqMsg \<times> hash \<times> masterCache)) option" where
  "GetRLReqMsg cr now mc =
     (if mc_inquiryResult mc \<noteq> ReelectRSPTypeAgree then Some (Inl (Errorf ''inquiry result is not agree''))
      else
        (case getReqMsg (mc_rlReqPool mc) of
           LeaderReqMsg req \<Rightarrow>
             (let req' = req\<lparr>lr_TimeStamp := of_int now\<rparr>
              in do { (h, pool) \<leftarrow> saveReqMsgAndHash cr (LeaderReqMsg req') (mc_rlReqPool mc);
                      Some (Inr (req', h, mc\<lparr>mc_rlReqPool := pool\<rparr>)) })
         | _ \<Rightarrow> Some (Inl (Errorf ''no request message in the cache''))))"

definition SaveRLVote ::
  "Crypto \<Rightarrow> BlockChain \<Rightarrow> cdc \<Rightarrow> hash \<Rightarrow> signature \<Rightarrow> address \<Rightarrow> masterCache \<Rightarrow> error + masterCache" where
  "SaveRLVote cr chain dc signHash sign from mc =
     (case saveVoteMsg cr chain dc signHash sign from (mc_rlReqPool mc) of
        Inl e \<Rightarrow> Inl e
      | Inr pool \<Rightarrow> Inr (mc\<lparr>mc_rlReqPool := pool\<rparr>))"

definition GetRLVotes :: "masterCache \<Rightarrow> VerifiedSign list" where
  "GetRLVotes mc = getVotes (mc_rlReqPool mc)"

definition GetBroadcastMsg ::
  "Crypto \<Rightarrow> masterCache \<Rightarrow> (error + (HD_V2_ReelectBroadcastMsg \<times> hash \<times> masterCache)) option" where
  "GetBroadcastMsg cr mc =
     (case getReqMsg (mc_broadcastPool mc) of
        BroadcastMsg msg \<Rightarrow>
          do { (h, pool) \<leftarrow> saveReqMsgAndHash cr (BroadcastMsg msg) (mc_broadcastPool mc);
               Some (Inr (msg, h, mc\<lparr>mc_broadcastPool := pool\<rparr>)) }
      | _ \<Rightarrow> Some (Inl (Errorf ''no broadcast message in the cache'')))"

definition GetLocalBroadcastMsg :: "masterCache \<Rightarrow> error + HD_V2_ReelectBroadcastMsg" where
  "GetLocalBroadcastMsg mc =
     (case getReqMsg (mc_broadcastPool mc) of
        BroadcastMsg msg \<Rightarrow> Inr msg
      | _ \<Rightarrow> Inl (Errorf ''no broadcast message in the cache''))"

definition SaveBroadcastVote ::
  "Crypto \<Rightarrow> BlockChain \<Rightarrow> cdc \<Rightarrow> hash \<Rightarrow> signature \<Rightarrow> address \<Rightarrow> masterCache \<Rightarrow> error + masterCache" where
  "SaveBroadcastVote cr chain dc broadcastHash sign from mc =
     (case saveVoteMsg cr chain dc broadcastHash sign from (mc_broadcastPool mc) of
        Inl e \<Rightarrow> Inl e
      | Inr pool \<Rightarrow> Inr (mc\<lparr>mc_broadcastPool := pool\<rparr>))"

definition GetBroadcastVotes :: "masterCache \<Rightarrow> VerifiedSign list" where
  "GetBroadcastVotes mc = getVotes (mc_broadcastPool mc)"

section \<open>A pool holds verified approvals\<close>

lemma saveVoteMsg_cases:
  assumes "saveVoteMsg cr chain dc h sign peer pp = Inr pp'"
  obtains d where "pp_reqHash pp \<noteq> 0" "pp_reqMsg pp \<noteq> NilMsg" "h = pp_reqHash pp" "mapGet (pp_voteCache pp) peer = None"
    "VerifySignWithValidateByReader cr (Some (cdcAuthReader chain dc)) h sign (dc_preHash dc) = Inr (d, peer, True)"
    "pp' = pp\<lparr>pp_voteCache := mapSet peer \<lparr>vs_Sign = sign, vs_Account = d, vs_Validate = True, vs_Stock = 0\<rparr> (pp_voteCache pp)\<rparr>"
  using assms by (auto simp: saveVoteMsg_def split: if_splits sum.splits prod.splits)

definition voteValid :: "Crypto \<Rightarrow> BlockChain \<Rightarrow> cdc \<Rightarrow> hash \<Rightarrow> address \<Rightarrow> VerifiedSign \<Rightarrow> bool" where
  "voteValid cr chain dc h peer v \<longleftrightarrow>
     VerifySignWithValidateByReader cr (Some (cdcAuthReader chain dc)) h (vs_Sign v) (dc_preHash dc)
       = Inr (vs_Account v, peer, True) \<and> vs_Validate v"

definition poolOK :: "Crypto \<Rightarrow> BlockChain \<Rightarrow> cdc \<Rightarrow> posPool \<Rightarrow> bool" where
  "poolOK cr chain dc pp \<longleftrightarrow> mapOK (pp_voteCache pp)
     \<and> (\<forall>peer v. mapGet (pp_voteCache pp) peer = Some v \<longrightarrow> voteValid cr chain dc (pp_reqHash pp) peer v)"

lemma poolOK_empty: "pp_voteCache pp = mapMake \<Longrightarrow> poolOK cr chain dc pp"
  by (simp add: poolOK_def map_specs)

lemma saveVoteMsg_OK:
  assumes "poolOK cr chain dc pp" "saveVoteMsg cr chain dc h sign peer pp = Inr pp'"
  shows "poolOK cr chain dc pp'"
  using assms(2)
  by (cases rule: saveVoteMsg_cases) (use assms(1) in \<open>auto simp: poolOK_def voteValid_def map_specs\<close>)

text \<open>
  The votes for a request are a cache that is written once, keyed by the sender; a vote is the hash
  it names, its signature and its sender.
\<close>

definition voteOf :: "Crypto \<Rightarrow> BlockChain \<Rightarrow> cdc \<Rightarrow> hash \<times> signature \<times> address \<Rightarrow> VerifiedSign" where
  "voteOf cr chain dc vote =
     (case vote of (h, sign, peer) \<Rightarrow>
        (case VerifySignWithValidateByReader cr (Some (cdcAuthReader chain dc)) h sign (dc_preHash dc) of
           Inl e \<Rightarrow> \<lparr>vs_Sign = sign, vs_Account = 0, vs_Validate = False, vs_Stock = 0\<rparr>
         | Inr (d, a1, validate) \<Rightarrow> \<lparr>vs_Sign = sign, vs_Account = d, vs_Validate = validate, vs_Stock = 0\<rparr>))"

definition votePut :: "Crypto \<Rightarrow> BlockChain \<Rightarrow> cdc \<Rightarrow> hash \<times> signature \<times> address \<Rightarrow> posPool \<Rightarrow> posPool option" where
  "votePut cr chain dc vote pp =
     (case vote of (h, sign, peer) \<Rightarrow>
        (case saveVoteMsg cr chain dc h sign peer pp of Inl e \<Rightarrow> None | Inr pp' \<Rightarrow> Some pp'))"

interpretation votes: write_once "\<lambda>pp. mapGet (pp_voteCache pp)" "votePut cr chain dc" "\<lambda>(h, sign, peer). Some peer"
  "voteOf cr chain dc" "poolOK cr chain dc" for cr chain dc
proof
  fix s s' :: posPool and a :: "hash \<times> signature \<times> address" and k
  obtain h sign peer where a: "a = (h, sign, peer)" by (metis prod_cases3)
  assume ok: "poolOK cr chain dc s"
  show "votePut cr chain dc a s = None"
    if "(case a of (h, sign, peer) \<Rightarrow> Some peer) = Some k" "mapGet (pp_voteCache s) k \<noteq> None"
    using that by (auto simp: a votePut_def saveVoteMsg_def split: sum.splits)
  show "poolOK cr chain dc s'" if "votePut cr chain dc a s = Some s'"
    using that saveVoteMsg_OK [OF ok] by (auto simp: a votePut_def split: sum.splits)
  show "\<exists>k. (case a of (h, sign, peer) \<Rightarrow> Some peer) = Some k
      \<and> mapGet (pp_voteCache s') = (mapGet (pp_voteCache s))(k \<mapsto> voteOf cr chain dc a)"
    if "votePut cr chain dc a s = Some s'"
  proof -
    have "saveVoteMsg cr chain dc h sign peer s = Inr s'" using that by (auto simp: a votePut_def split: sum.splits)
    then show ?thesis
      by (cases rule: saveVoteMsg_cases)
        (use ok in \<open>auto simp: a poolOK_def map_specs voteOf_def fun_eq_iff\<close>)
  qed
qed

lemma votePut_reqHash: "votePut cr chain dc vote pp = Some pp' \<Longrightarrow> pp_reqHash pp' = pp_reqHash pp"
  by (auto simp: votePut_def saveVoteMsg_def split: prod.splits sum.splits if_splits)

lemma votes_reqHash: "pp_reqHash (votes.puts cr chain dc vs pp) = pp_reqHash pp"
proof (induction vs arbitrary: pp)
  case (Cons v vs)
  then show ?case using votePut_reqHash by (cases "votePut cr chain dc v pp") simp_all
qed simp

text \<open>C23. Peers cannot change a vote that has been counted: whatever votes arrive for the request of a
  pool, in whatever order, the pool keeps the vote it has of a sender, and every vote it holds is an
  approval, by that sender, of the request's own hash.\<close>

theorem saveVoteMsg_sequence:
  assumes "pp_voteCache pp = mapMake"
    and "mapGet (pp_voteCache (votes.puts cr chain dc vs pp)) peer = Some v"
  shows "mapGet (pp_voteCache (votes.puts cr chain dc (vs @ ws) pp)) peer = Some v
    \<and> voteValid cr chain dc (pp_reqHash pp) peer v"
proof -
  have ok: "poolOK cr chain dc (votes.puts cr chain dc vs pp)"
    by (rule votes.puts_ok [OF poolOK_empty [OF assms(1)]])
  then have "voteValid cr chain dc (pp_reqHash (votes.puts cr chain dc vs pp)) peer v"
    using assms(2) by (simp only: poolOK_def)
  with votes.puts_keep [OF ok assms(2)] show ?thesis by (simp only: votes.puts_append votes_reqHash)
qed

text \<open>A request with hash 5 at the parent of height 5, whose hash is 7.\<close>

definition exampleRound :: cdc where
  "exampleRound = exampleCdc\<lparr>dc_parentState := Some exampleState,
     dc_leaderCal := (newLeaderCalculator 5)\<lparr>lc_preHash := 7\<rparr>\<rparr>"

definition examplePool :: posPool where
  "examplePool = \<lparr>pp_reqHash = 5, pp_reqMsg = InquiryMsg exampleInquiry, pp_voteCache = mapMake\<rparr>"

definition exampleApproval :: "address \<Rightarrow> VerifiedSign" where
  "exampleApproval a = \<lparr>vs_Sign = (ucast a, 0), vs_Account = a, vs_Validate = True, vs_Stock = 0\<rparr>"

lemma exampleRound_verify:
  "dc_preHash exampleRound = 7"
  "a \<in> {10, 11, 12, 13} \<Longrightarrow>
     VerifySignWithValidateByReader exampleCrypto (Some (cdcAuthReader exampleBlockChain exampleRound)) 5 (ucast a, 0) 7
     = Inr (a, a, True)"
  by (auto simp: exampleRound_def VerifySignWithValidateByReader_def VerifySignWithValidate_def exampleCrypto_def
      cdcAuthReader_def cdcGetA0AccountFromAnyAccount_def getA0Account_def exampleState_def)

theorem saveVoteMsg_sequence_witness:
  "mapGet (pp_voteCache (votes.puts exampleCrypto exampleBlockChain exampleRound
      ([(5, (10, 0), 10)] @ [(5, (10, 1), 10), (5, (11, 0), 11)]) examplePool)) 10 = Some (exampleApproval 10)"
proof -
  have "mapGet (pp_voteCache (votes.puts exampleCrypto exampleBlockChain exampleRound [(5, (10, 0), 10)] examplePool)) 10
      = Some (exampleApproval 10)"
    using exampleRound_verify(2) [of 10]
    by (simp add: votePut_def saveVoteMsg_def examplePool_def exampleRound_verify(1) exampleApproval_def map_specs)
  from saveVoteMsg_sequence [OF _ this, of "[(5, (10, 1), 10), (5, (11, 0), 11)]"] show ?thesis
    by (simp add: examplePool_def)
qed

section \<open>What a master accepts convinces the others\<close>

text \<open>
  The sign helper drops the error of a signature that does not verify and goes on with the zero
  address; so the statements name the condition that the zero address is nobody's delegate.
\<close>

definition zeroNotDelegated :: "BlockChain \<Rightarrow> cdc \<Rightarrow> bool" where
  "zeroNotDelegated chain dc \<longleftrightarrow> (\<exists>e. cdcGetA0AccountFromAnyAccount chain dc 0 (dc_preHash dc) = Inl e)"

lemma voteValid_approves:
  assumes "voteValid cr chain dc h peer v" "zeroNotDelegated chain dc"
  shows "approves cr (cdcReader chain dc) (dc_preHash dc) h (vs_Sign v) (vs_Account v)"
proof -
  obtain a f e where v: "VerifySignWithValidate cr h (vs_Sign v) = (a, f, e)" by (metis prod_cases3)
  have "e \<noteq> None \<Longrightarrow> a = 0"
    using v by (auto simp: VerifySignWithValidate_def Let_def split: sum.splits if_splits)
  then have "e = None" using assms v
    by (cases e) (auto simp: voteValid_def VerifySignWithValidateByReader_def cdcAuthReader_def zeroNotDelegated_def)
  then show ?thesis using assms(1) v
    by (auto simp: voteValid_def VerifySignWithValidateByReader_def cdcAuthReader_def approves_def cdcReader_def
        split: sum.splits)
qed



end
