(* ===== verification/Controller.thy ===== *)
theory Controller
  imports MasterCache
begin

text \<open>
  The controller of one height of the leader service (\<open>leaderelect2.0/controller.go\<close>,
  \<open>ctrlHandle.go\<close>, \<open>ctrlReelection.go\<close>): a goroutine that owns its data, takes one message or one
  expired timer at a time, and sends messages to other nodes and services.  A handler is a partial
  function on the controller: \<open>None\<close> is a nil pointer or a division by zero, which end the process.
  Everything sent or published is appended to \<open>ct_outs\<close>.
\<close>

section \<open>The environment\<close>

text \<open>
  What a handler reads from outside during one event: the chain, the proof-of-work engines, the
  signing of this node, and the clock in seconds.  The environment may differ from event to event.
\<close>

record Env =
  e_crypto :: Crypto
  e_chain :: BlockChain
  e_SimpleMode :: bool
  e_VerifyHeader :: "bytes \<Rightarrow> Header \<Rightarrow> bool \<Rightarrow> error option"
  e_SignHelper :: SignHelper
  e_now :: int

definition dposEngineMap :: "bool \<Rightarrow> (bytes, Config) gomap" where
  "dposEngineMap simpleMode =
     (let alphaDposEngine = NewMtxDPOS simpleMode
      in mapSet VersionAIMine alphaDposEngine (mapSet VersionDelta alphaDposEngine
           (mapSet VersionGamma alphaDposEngine (mapSet VersionBeta alphaDposEngine
             (mapSet VersionAlpha alphaDposEngine mapMake)))))"

text \<open>A missing engine is nil, and using it ends the process.\<close>

definition DPOSEngine :: "Env \<Rightarrow> bytes \<Rightarrow> Config option" where
  "DPOSEngine env version =
     (case mapGet (dposEngineMap (e_SimpleMode env)) version of
        Some engine \<Rightarrow> Some engine
      | None \<Rightarrow> mapGet (dposEngineMap (e_SimpleMode env)) VersionAlpha)"

section \<open>Messages and outputs\<close>

datatype ctrlMsg =
    NilData
  | StartMsg "startControllerMsg option"
  | POSFinishedMsg "BlockPOSFinishedNotify option"
  | InquiryReqMsg "HD_V2_ReelectInquiryReqMsg option"
  | InquiryRspMsg "HD_V2_ReelectInquiryRspMsg option"
  | RLReqMsg "HD_V2_ReelectLeaderReqMsg option"
  | RLVoteMsg "HD_V2_ConsensusVote option"
  | ResultBroadcastMsg "HD_V2_ReelectBroadcastMsg option"
  | ResultBroadcastRspMsg "HD_V2_ReelectBroadcastRspMsg option"
  | UnknownMsg

datatype EventCode =
    HD_V2_LeaderReelectInquiryReq | HD_V2_LeaderReelectInquiryRsp | HD_V2_LeaderReelectReq
  | HD_V2_LeaderReelectVote | HD_V2_LeaderReelectBroadcast | HD_V2_LeaderReelectBroadcastRsp

record HD_ConsensusVote =
  hv_SignHash :: hash
  hv_Number :: u64
  hv_Sign :: signature
  hv_From :: address

datatype nodeMsg =
    NInquiryReq HD_V2_ReelectInquiryReqMsg
  | NInquiryRsp HD_V2_ReelectInquiryRspMsg
  | NLeaderReq HD_V2_ReelectLeaderReqMsg
  | NVote HD_ConsensusVote
  | NBroadcast HD_V2_ReelectBroadcastMsg
  | NBroadcastRsp HD_V2_ReelectBroadcastRspMsg

datatype ctrlOutput =
    SendNodeMsg EventCode nodeMsg RoleType "address list"
  | PublishLeaderChange LeaderChangeNotify
  | PublishRecovery RecoveryStateMsg
  | FetcherNotify hash u64 address

section \<open>State\<close>

text \<open>A timer is \<open>None\<close> when it is stopped, else the duration in nanoseconds it was armed with.\<close>

record controller =
  ct_timer :: "int option"
  ct_reelectTimer :: "int option"
  ct_dc :: cdc
  ct_mp :: msgPool
  ct_selfCache :: masterCache
  ct_outs :: "ctrlOutput list"

definition setTimer :: "int \<Rightarrow> int option" where
  "setTimer outTime = (if outTime \<le> 0 then None else Some (i64 (outTime * 1000000000)))"

text \<open>A controller when its goroutine has stopped both timers; height 0 ends the process.\<close>

definition newController :: "u64 \<Rightarrow> controller option" where
  "newController number =
     (if number < 1 then None
      else Some \<lparr>ct_timer = setTimer 0, ct_reelectTimer = setTimer 0, ct_dc = newCDC number, ct_mp = newMsgPool,
                 ct_selfCache = newMasterCache number, ct_outs = []\<rparr>)"

definition Number :: "controller \<Rightarrow> u64" where
  "Number c = dc_number (ct_dc c)"

definition State :: "controller \<Rightarrow> stateDef" where
  "State c = dc_state (ct_dc c)"

definition ConsensusTurn :: "controller \<Rightarrow> ConsensusTurnInfo" where
  "ConsensusTurn c = dc_curConsensusTurn (ct_dc c)"

definition ParentHash :: "controller \<Rightarrow> hash" where
  "ParentHash c = dc_preHash (ct_dc c)"

definition emit :: "ctrlOutput \<Rightarrow> controller \<Rightarrow> controller" where
  "emit out c = c\<lparr>ct_outs := ct_outs c @ [out]\<rparr>"

definition SetSelfAddress :: "address \<Rightarrow> address \<Rightarrow> controller \<Rightarrow> controller" where
  "SetSelfAddress addr nodeAddr c =
     c\<lparr>ct_dc := (ct_dc c)\<lparr>dc_selfAddr := addr, dc_selfNodeAddr := nodeAddr\<rparr>,
       ct_selfCache := (ct_selfCache c)\<lparr>mc_selfAddr := addr, mc_selfNodeAddr := nodeAddr\<rparr>\<rparr>"

definition publishLeaderMsg :: "controller \<Rightarrow> controller option" where
  "publishLeaderMsg c =
     do { r \<leftarrow> PrepareLeaderMsg (ct_dc c);
          Some (case r of Inl e \<Rightarrow> c | Inr msg \<Rightarrow> emit (PublishLeaderChange msg) c) }"

section \<open>Sending\<close>

text \<open>Signing a hash as this node, for the parent block.\<close>

definition selfSign :: "Env \<Rightarrow> controller \<Rightarrow> hash \<Rightarrow> error + signature" where
  "selfSign env c h =
     SignHashWithValidateByReader (e_SignHelper env) (cdcAuthReader (e_chain env) (ct_dc c)) h True (ParentHash c)"

definition inquiryOf :: "Env \<Rightarrow> controller \<Rightarrow> Header \<Rightarrow> HD_V2_ReelectInquiryReqMsg" where
  "inquiryOf env c parentHeader =
     \<lparr>iq_Number = Number c, iq_HeaderTime = Uint64 (h_Time parentHeader),
      iq_ConsensusTurn = dc_curConsensusTurn (ct_dc c), iq_ReelectTurn = dc_curReelectTurn (ct_dc c),
      iq_TimeStamp = of_int (e_now env), iq_Master = dc_selfAddr (ct_dc c), iq_From = dc_selfNodeAddr (ct_dc c)\<rparr>"

definition sendInquiryReq :: "Env \<Rightarrow> controller \<Rightarrow> controller option" where
  "sendInquiryReq env c =
     do { parentHeader \<leftarrow> mp_parentHeader (ct_mp c);
          let req = inquiryOf env c parentHeader;
          (reqHash, mc) \<leftarrow> SaveInquiryReq (e_crypto env) req (ct_selfCache c);
          let c1 = c\<lparr>ct_selfCache := mc\<rparr>;
          case selfSign env c1 reqHash of
            Inl e \<Rightarrow> Some c1
          | Inr sign \<Rightarrow>
              (case SaveInquiryVote (e_crypto env) (e_chain env) (ct_dc c1) reqHash sign
                      (dc_selfNodeAddr (ct_dc c1)) mc of
                 Inl e \<Rightarrow> Some c1
               | Inr mc' \<Rightarrow>
                   Some (emit (SendNodeMsg HD_V2_LeaderReelectInquiryReq (NInquiryReq req) RoleValidator [])
                           (c1\<lparr>ct_selfCache := mc'\<rparr>))) }"

definition sendInquiryReqToSingle :: "Env \<Rightarrow> address \<Rightarrow> controller \<Rightarrow> controller option" where
  "sendInquiryReqToSingle env target c =
     (if \<not> CanSendSingleInquiryReq (e_now env) (tt_reelectHandleInterval (dc_turnTime (ct_dc c))) (ct_selfCache c)
      then Some c
      else
        do { parentHeader \<leftarrow> mp_parentHeader (ct_mp c);
             let req = inquiryOf env c parentHeader;
             (reqHash, mc) \<leftarrow> SaveInquiryReq (e_crypto env) req (ct_selfCache c);
             Some (emit (SendNodeMsg HD_V2_LeaderReelectInquiryReq (NInquiryReq req) RoleNil [target])
                     (c\<lparr>ct_selfCache := SetLastSingleInquiryReqTime (e_now env) mc\<rparr>)) })"

definition sendInquiryRsp :: "HD_V2_ReelectInquiryRspMsg \<Rightarrow> address \<Rightarrow> controller \<Rightarrow> controller" where
  "sendInquiryRsp rsp target c = emit (SendNodeMsg HD_V2_LeaderReelectInquiryRsp (NInquiryRsp rsp) RoleNil [target]) c"

definition sendInquiryRspWithPOS :: "hash \<Rightarrow> address \<Rightarrow> u64 \<Rightarrow> controller \<Rightarrow> controller option" where
  "sendInquiryRspWithPOS reqHash target number c =
     do { r \<leftarrow> GetPOSNotifyMsg (ct_mp c) (GetConsensusLeader (ct_dc c)) (dc_curConsensusTurn (ct_dc c));
          case r of
            Inl e \<Rightarrow> Some c
          | Inr posMsg \<Rightarrow>
              (let posResult = \<lparr>bq_From = 0, bq_Header = pn_Header posMsg,
                                bq_ConsensusTurn = dc_curConsensusTurn (ct_dc c), bq_TxsCode = pn_TxsCode posMsg,
                                bq_OnlineConsensusResults = []\<rparr>
               in Some (sendInquiryRsp
                    \<lparr>ir_Number = number, ir_ReqHash = reqHash, ir_Type = ReelectRSPTypePOS, ir_AgreeSign = (0, 0),
                     ir_POSResult = Some posResult, ir_RLResult = None, ir_NewBlock = None, ir_From = 0\<rparr> target c)) }"

definition sendInquiryRspWithAgree :: "Env \<Rightarrow> hash \<Rightarrow> address \<Rightarrow> u64 \<Rightarrow> controller \<Rightarrow> controller" where
  "sendInquiryRspWithAgree env reqHash target number c =
     (case selfSign env c reqHash of
        Inl e \<Rightarrow> c
      | Inr sign \<Rightarrow>
          sendInquiryRsp
            \<lparr>ir_Number = number, ir_ReqHash = reqHash, ir_Type = ReelectRSPTypeAgree, ir_AgreeSign = sign,
             ir_POSResult = None, ir_RLResult = None, ir_NewBlock = None, ir_From = 0\<rparr> target c)"

text \<open>The log line reads the inquiry of the cached result.\<close>

definition sendInquiryRspWithRLConsensus :: "hash \<Rightarrow> address \<Rightarrow> controller \<Rightarrow> controller option" where
  "sendInquiryRspWithRLConsensus reqHash target c =
     (case GetRLConsensusMsg (ct_mp c) (dc_curConsensusTurn (ct_dc c)) of
        Inl e \<Rightarrow> Some c
      | Inr consensusMsg \<Rightarrow>
          do { req \<leftarrow> rc_Req consensusMsg;
               inquiry \<leftarrow> lr_InquiryReq req;
               Some (sendInquiryRsp
                 \<lparr>ir_Number = Number c, ir_ReqHash = reqHash, ir_Type = ReelectRSPTypeAlreadyRL, ir_AgreeSign = (0, 0),
                  ir_POSResult = None, ir_RLResult = Some consensusMsg, ir_NewBlock = None, ir_From = 0\<rparr> target c) })"

definition sendInquiryRspWithNewBlockReady :: "hash \<Rightarrow> address \<Rightarrow> u64 \<Rightarrow> controller \<Rightarrow> controller" where
  "sendInquiryRspWithNewBlockReady reqHash target number c =
     (case GetParentHeader (ct_mp c) of
        None \<Rightarrow> c
      | Some parentHeader \<Rightarrow>
          sendInquiryRsp
            \<lparr>ir_Number = number, ir_ReqHash = reqHash, ir_Type = ReelectRSPTypeNewBlockReady, ir_AgreeSign = (0, 0),
             ir_POSResult = None, ir_RLResult = None, ir_NewBlock = Some parentHeader, ir_From = 0\<rparr> target c)"

definition sendRLReq :: "Env \<Rightarrow> controller \<Rightarrow> controller option" where
  "sendRLReq env c =
     do { r \<leftarrow> GetRLReqMsg (e_crypto env) (e_now env) (ct_selfCache c);
          case r of
            Inl e \<Rightarrow> Some c
          | Inr (req, reqHash, mc) \<Rightarrow>
              (let c1 = c\<lparr>ct_selfCache := mc\<rparr>
               in case selfSign env c1 reqHash of
                    Inl e \<Rightarrow> Some c1
                  | Inr sign \<Rightarrow>
                      (case SaveRLVote (e_crypto env) (e_chain env) (ct_dc c1) reqHash sign
                              (dc_selfNodeAddr (ct_dc c1)) mc of
                         Inl e \<Rightarrow> Some c1
                       | Inr mc' \<Rightarrow>
                           Some (emit (SendNodeMsg HD_V2_LeaderReelectReq (NLeaderReq req) RoleValidator [])
                                   (c1\<lparr>ct_selfCache := mc'\<rparr>)))) }"

definition sendResultBroadcastMsg :: "Env \<Rightarrow> controller \<Rightarrow> controller option" where
  "sendResultBroadcastMsg env c =
     do { r \<leftarrow> GetBroadcastMsg (e_crypto env) (ct_selfCache c);
          case r of
            Inl e \<Rightarrow> Some c
          | Inr (msg, msgHash, mc) \<Rightarrow>
              (let c1 = c\<lparr>ct_selfCache := mc\<rparr>
               in case selfSign env c1 msgHash of
                    Inl e \<Rightarrow> Some c1
                  | Inr sign \<Rightarrow>
                      (case SaveBroadcastVote (e_crypto env) (e_chain env) (ct_dc c1) msgHash sign
                              (dc_selfNodeAddr (ct_dc c1)) mc of
                         Inl e \<Rightarrow> Some c1
                       | Inr mc' \<Rightarrow>
                           Some (emit (SendNodeMsg HD_V2_LeaderReelectBroadcast (NBroadcast msg) RoleValidator [])
                                   (c1\<lparr>ct_selfCache := mc'\<rparr>)))) }"

definition sendResultBroadcastRsp :: "Env \<Rightarrow> HD_V2_ReelectBroadcastMsg \<Rightarrow> controller \<Rightarrow> controller option" where
  "sendResultBroadcastRsp env req c =
     do { v \<leftarrow> VBroadcastMsg req;
          let resultHash = rlpHash (e_crypto env) v;
          Some (case selfSign env c resultHash of
                  Inl e \<Rightarrow> c
                | Inr sign \<Rightarrow>
                    emit (SendNodeMsg HD_V2_LeaderReelectBroadcastRsp
                      (NBroadcastRsp \<lparr>rr_Number = Number c, rr_ResultHash = resultHash, rr_Sign = sign, rr_From = 0\<rparr>)
                      RoleNil [rb_From req]) c) }"

section \<open>States of a round\<close>

definition processPOSState :: "controller \<Rightarrow> controller option" where
  "processPOSState c =
     (if State c \<noteq> stPos then Some c
      else
        do { r \<leftarrow> GetPOSNotifyMsg (ct_mp c) (GetConsensusLeader (ct_dc c)) (dc_curConsensusTurn (ct_dc c));
             case r of
               Inl e \<Rightarrow> Some c
             | Inr _ \<Rightarrow> Some (c\<lparr>ct_timer := setTimer 0, ct_dc := (ct_dc c)\<lparr>dc_state := stMining\<rparr>\<rparr>) })"

definition startReelect :: "Env \<Rightarrow> u32 \<Rightarrow> controller \<Rightarrow> controller option" where
  "startReelect env reelectTurn c =
     (if State c \<noteq> stReelect then Some c
      else if dc_curReelectTurn (ct_dc c) = reelectTurn then Some c
      else
        do { r \<leftarrow> SetReelectTurn reelectTurn (ct_dc c);
             case r of
               Inl e \<Rightarrow> Some c
             | Inr dc \<Rightarrow>
                 do { c' \<leftarrow> (if GetReelectMaster dc = dc_selfAddr dc
                            then sendInquiryReq env
                                   (c\<lparr>ct_dc := dc\<lparr>dc_isMaster := True\<rparr>,
                                      ct_reelectTimer := setTimer (tt_reelectHandleInterval (dc_turnTime dc))\<rparr>)
                            else Some (c\<lparr>ct_dc := dc\<lparr>dc_isMaster := False\<rparr>, ct_reelectTimer := setTimer 0\<rparr>));
                      publishLeaderMsg c' } })"

text \<open>The state, the timer and the turn computed from the clock are set, and the phase is entered.\<close>

definition enterTurn :: "Env \<Rightarrow> stateDef \<times> int \<times> u32 \<Rightarrow> controller \<Rightarrow> controller option" where
  "enterTurn env s c =
     (case s of
        (st, remainTime, reelectTurn) \<Rightarrow>
          (let c1 = c\<lparr>ct_dc := (ct_dc c)\<lparr>dc_state := st, dc_curReelectTurn := 0\<rparr>, ct_timer := setTimer remainTime\<rparr>
           in if st = stPos then processPOSState c1
              else if st = stReelect then startReelect env reelectTurn c1
              else Some c1))"

definition timeOutHandle :: "Env \<Rightarrow> controller \<Rightarrow> controller option" where
  "timeOutHandle env c =
     (case CalState (dc_turnTime (ct_dc c)) (TotalTurns (dc_curConsensusTurn (ct_dc c))) (e_now env) of
        (st, remainTime, reelectTurn) \<Rightarrow>
          (if State c = stPos \<or> State c = stReelect
           then startReelect env reelectTurn
                  (c\<lparr>ct_timer := setTimer remainTime, ct_dc := (ct_dc c)\<lparr>dc_state := st\<rparr>\<rparr>)
           else Some c))"

text \<open>The parts of \<open>handleStartMsg\<close> after the parent has been analysed.\<close>

definition startTurn :: "Env \<Rightarrow> Header \<Rightarrow> controller \<Rightarrow> controller option" where
  "startTurn env parentHeader c =
     (case SetBeginTime (i64 (h_Time parentHeader)) (dc_turnTime (ct_dc c)) of
        (new, tt) \<Rightarrow>
          (let c1 = c\<lparr>ct_dc := (ct_dc c)\<lparr>dc_turnTime := tt\<rparr>\<rparr>
           in do { c3 \<leftarrow>
                     (if \<not> new then Some c1
                      else
                        (let c2 = c1\<lparr>ct_mp := SaveParentHeader (Some parentHeader) (ct_mp c1)\<rparr>
                         in if isFirstConsensusTurn (ConsensusTurn c2)
                            then enterTurn env (CalState tt 0 (e_now env)) c2
                            else Some c2));
                   publishLeaderMsg c3 }))"

definition startAnalysed :: "Env \<Rightarrow> Header \<Rightarrow> controller \<Rightarrow> controller option" where
  "startAnalysed env parentHeader c =
     (if dc_role (ct_dc c) \<noteq> RoleValidator
      then Some (c\<lparr>ct_mp := SaveParentHeader (Some parentHeader) (ct_mp c)\<rparr>)
      else
        do { bcInterval \<leftarrow> dc_bcInterval (ct_dc c);
             isBroadcast \<leftarrow> IsBroadcastNumber bcInterval (dc_number (ct_dc c));
             if isBroadcast then
               do { c1 \<leftarrow> publishLeaderMsg (c\<lparr>ct_dc := (ct_dc c)\<lparr>dc_state := stIdle\<rparr>\<rparr>);
                    Some (c1\<lparr>ct_mp := SaveParentHeader (Some parentHeader) (ct_mp c1),
                             ct_dc := (ct_dc c1)\<lparr>dc_state := stWaiting\<rparr>\<rparr>) }
             else startTurn env parentHeader c })"

definition handleStartMsg :: "Env \<Rightarrow> startControllerMsg option \<Rightarrow> controller \<Rightarrow> controller option" where
  "handleStartMsg env m c =
     (case m of
        None \<Rightarrow> Some c
      | Some msg \<Rightarrow>
          (case sc_parentHeader msg of
             None \<Rightarrow> Some c
           | Some parentHeader \<Rightarrow>
               (if VersionCmp (h_Version parentHeader) VersionGamma < 0 then Some c
                else if (case mp_parentHeader (ct_mp c) of None \<Rightarrow> False | Some old \<Rightarrow> h_Time parentHeader < h_Time old)
                then Some c
                else
                  (let c1 = SetSelfAddress (sh_depositAddress (e_SignHelper env)) (sh_signAddress (e_SignHelper env)) c
                   in do { (err, dc) \<leftarrow> AnalysisState (e_crypto env) (e_chain env) (Some parentHeader)
                                          (sc_parentStateDB msg) (ct_dc c1);
                           let c2 = c1\<lparr>ct_dc := dc\<rparr>;
                           if err \<noteq> None then Some c2 else startAnalysed env parentHeader c2 }))))"

definition handleBlockPOSFinishedNotify :: "BlockPOSFinishedNotify option \<Rightarrow> controller \<Rightarrow> controller option" where
  "handleBlockPOSFinishedNotify m c =
     (case m of
        None \<Rightarrow> Some c
      | Some msg \<Rightarrow>
          (if pn_Header msg = None then Some c
           else do { r \<leftarrow> SavePOSNotifyMsg msg (ct_mp c);
                     processPOSState (case r of Inl e \<Rightarrow> c | Inr mp \<Rightarrow> c\<lparr>ct_mp := mp\<rparr>) }))"

section \<open>The end of a re-election\<close>

definition finishReelectWithPOS :: "HD_BlkConsensusReqMsg \<Rightarrow> address \<Rightarrow> controller \<Rightarrow> controller option" where
  "finishReelectWithPOS posResult peer c =
     (let c1 = (emit (PublishRecovery \<lparr>rs_Type = RecoveryTypePOS, rs_IsBroadcast = False,
                                      rs_Header = bq_Header posResult, rs_From = peer\<rparr>) c)
                 \<lparr>ct_timer := setTimer 0, ct_reelectTimer := setTimer 0,
                  ct_dc := (ct_dc c)\<lparr>dc_state := stMining\<rparr>\<rparr>
      in do { r \<leftarrow> SetReelectTurn 0 (ct_dc c1);
              let dc = (case r of Inl e \<Rightarrow> ct_dc c1 | Inr dc \<Rightarrow> dc);
              publishLeaderMsg (c1\<lparr>ct_dc := dc\<lparr>dc_isMaster := False\<rparr>,
                                   ct_selfCache := ClearSelfInquiryMsg (ct_selfCache c1)\<rparr>) })"

definition finishReelectWithRLConsensus :: "Env \<Rightarrow> HD_V2_ReelectLeaderConsensus \<Rightarrow> controller \<Rightarrow> controller option" where
  "finishReelectWithRLConsensus env rlResult c =
     do { req \<leftarrow> rc_Req rlResult;
          inquiry \<leftarrow> lr_InquiryReq req;
          let consensusTurn = calcNextConsensusTurn (iq_ConsensusTurn inquiry) (iq_ReelectTurn inquiry);
          r \<leftarrow> SetConsensusTurn consensusTurn (ct_dc c);
          case r of
            Inl e \<Rightarrow> Some c
          | Inr dc \<Rightarrow>
              do { c' \<leftarrow> enterTurn env (CalState (dc_turnTime dc) (TotalTurns consensusTurn) (e_now env))
                         (c\<lparr>ct_mp := SaveRLConsensusMsg (Some rlResult) (ct_mp c), ct_reelectTimer := setTimer 0,
                            ct_selfCache := ClearSelfInquiryMsg (ct_selfCache c),
                            ct_dc := dc\<lparr>dc_isMaster := False\<rparr>\<rparr>);
                   publishLeaderMsg c' } }"

section \<open>Checks\<close>

definition checkRLReqMsg :: "Env \<Rightarrow> HD_V2_ReelectLeaderReqMsg option \<Rightarrow> controller \<Rightarrow> (error + unit) option" where
  "checkRLReqMsg env m c =
     (let dc = ct_dc c
      in case m of
           None \<Rightarrow> Some (Inl ErrParamsIsNil)
         | Some req \<Rightarrow>
             (case lr_InquiryReq req of
                None \<Rightarrow> Some (Inl ErrParamsIsNil)
              | Some inquiry \<Rightarrow>
                  (if iq_ConsensusTurn inquiry \<noteq> dc_curConsensusTurn dc then Some (Inl (Errorf ''consensus turn does not match''))
                   else if iq_ReelectTurn inquiry \<noteq> dc_curReelectTurn dc then Some (Inl (Errorf ''reelect turn does not match''))
                   else if iq_Master inquiry \<noteq> GetReelectMaster dc then Some (Inl (Errorf ''master does not match''))
                   else if sint (lr_TimeStamp req) < sint (iq_TimeStamp inquiry)
                   then Some (Inl (Errorf ''time stamp before that of the inquiry''))
                   else
                     (case CheckTimeLegal (dc_turnTime dc) (TotalTurns (dc_curConsensusTurn dc)) (dc_curReelectTurn dc)
                             (sint (lr_TimeStamp req)) of
                        Inl e \<Rightarrow> Some (Inl e)
                      | Inr _ \<Rightarrow>
                          (case mp_parentHeader (ct_mp c) of
                             None \<Rightarrow> Some (Inl (Errorf ''no parent block''))
                           | Some parentHeader \<Rightarrow>
                               do { engine \<leftarrow> DPOSEngine env (h_Version parentHeader);
                                    Some (case VerifyHashWithBlock engine (e_crypto env) (cdcReader (e_chain env) dc)
                                                 (rlpHash (e_crypto env) (VInquiryReq inquiry)) (lr_AgreeSigns req)
                                                 (ParentHash c) of
                                            Inl e \<Rightarrow> Inl (Errorf ''inquiry signatures do not pass POS'')
                                          | Inr _ \<Rightarrow> Inr ()) })))))"

definition checkRLResult :: "Env \<Rightarrow> HD_V2_ReelectLeaderConsensus option \<Rightarrow> controller \<Rightarrow> (error + unit) option" where
  "checkRLResult env m c =
     (case m of
        None \<Rightarrow> Some (Inl ErrLeaderResultIsNil)
      | Some result \<Rightarrow>
          do { req \<leftarrow> rc_Req result;
               inquiry \<leftarrow> lr_InquiryReq req;
               let turn = calcNextConsensusTurn (iq_ConsensusTurn inquiry) (iq_ReelectTurn inquiry);
               if turnCmp turn (dc_curConsensusTurn (ct_dc c)) < 0
               then Some (Inl (Errorf ''target consensus turn < local consensus turn''))
               else
                 (case mp_parentHeader (ct_mp c) of
                    None \<Rightarrow> Some (Inl (Errorf ''no parent block''))
                  | Some parentHeader \<Rightarrow>
                      do { engine \<leftarrow> DPOSEngine env (h_Version parentHeader);
                           Some (case VerifyHashWithBlock engine (e_crypto env) (cdcReader (e_chain env) (ct_dc c))
                                        (rlpHash (e_crypto env) (VLeaderReq req)) (rc_Votes result) (ParentHash c) of
                                   Inl e \<Rightarrow> Inl (Errorf ''leader result does not pass POS'')
                                 | Inr _ \<Rightarrow> Inr ()) }) })"

definition checkPOSResult :: "Env \<Rightarrow> HD_BlkConsensusReqMsg option \<Rightarrow> controller \<Rightarrow> (error + unit) option" where
  "checkPOSResult env m c =
     (case m of
        None \<Rightarrow> Some (Inl (Errorf ''POS result is nil''))
      | Some posResult \<Rightarrow>
          do { header \<leftarrow> bq_Header posResult;
               if Uint64 (h_Number header) \<noteq> Number c then Some (Inl (Errorf ''number does not match''))
               else if bq_ConsensusTurn posResult \<noteq> dc_curConsensusTurn (ct_dc c)
                     \<or> h_Leader header \<noteq> dc_consensusLeader (ct_dc c)
               then Some (Inl (Errorf ''turn of the POS result does not match''))
               else
                 (case mp_parentHeader (ct_mp c) of
                    None \<Rightarrow> Some (Inl (Errorf ''no parent block''))
                  | Some parentHeader \<Rightarrow>
                      do { engine \<leftarrow> DPOSEngine env (h_Version parentHeader);
                           r \<leftarrow> VerifyBlock engine (e_crypto env) (cdcReader (e_chain env) (ct_dc c)) (Some header);
                           Some (case r of Inl e \<Rightarrow> Inl (Errorf ''POS verification failed'') | Inr _ \<Rightarrow> Inr ()) }) })"

section \<open>Handlers\<close>

text \<open>A node that sees it is behind asks the sender, unless it is the master of a re-election.\<close>

definition inquireUnlessMaster :: "Env \<Rightarrow> address \<Rightarrow> controller \<Rightarrow> controller option" where
  "inquireUnlessMaster env target c =
     (if State c = stReelect \<and> dc_isMaster (ct_dc c) then Some c else sendInquiryReqToSingle env target c)"

definition handleInquiryReq :: "Env \<Rightarrow> HD_V2_ReelectInquiryReqMsg option \<Rightarrow> controller \<Rightarrow> controller option" where
  "handleInquiryReq env m c =
     (case m of
        None \<Rightarrow> Some c
      | Some req \<Rightarrow>
          (let dc = ct_dc c; reqHash = rlpHash (e_crypto env) (VInquiryReq req)
           in if State c = stIdle then Some c
              else
                (case cdcGetA0AccountFromAnyAccount (e_chain env) dc (iq_From req) (dc_preHash dc) of
                   Inl e \<Rightarrow> Some c
                 | Inr (fromMaster, _) \<Rightarrow>
                     (if iq_Master req \<noteq> fromMaster then Some c
                      else if iq_Number req < Number c
                      then Some (sendInquiryRspWithNewBlockReady reqHash (iq_From req) (iq_Number req) c)
                      else if iq_Number req > Number c then inquireUnlessMaster env (iq_From req) c
                      else
                        do { parentHeader \<leftarrow> mp_parentHeader (ct_mp c);
                             let curHeaderTime = Uint64 (h_Time parentHeader);
                             if iq_HeaderTime req < curHeaderTime
                             then Some (sendInquiryRspWithNewBlockReady reqHash (iq_From req) (iq_Number req) c)
                             else if iq_HeaderTime req > curHeaderTime then inquireUnlessMaster env (iq_From req) c
                             else if turnCmp (iq_ConsensusTurn req) (dc_curConsensusTurn dc) < 0
                             then sendInquiryRspWithRLConsensus reqHash (iq_From req) c
                             else if turnCmp (iq_ConsensusTurn req) (dc_curConsensusTurn dc) > 0
                             then inquireUnlessMaster env (iq_From req) c
                             else
                               do { r \<leftarrow> cdcGetLeader dc (TotalTurns (iq_ConsensusTurn req) + iq_ReelectTurn req)
                                           (dc_bcInterval dc);
                                    case r of
                                      Inl e \<Rightarrow> Some c
                                    | Inr master \<Rightarrow>
                                        (if master \<noteq> iq_Master req then Some c
                                         else if State c = stMining
                                         then sendInquiryRspWithPOS reqHash (iq_From req) (iq_Number req) c
                                         else if State c = stReelect then
                                           (if iq_ReelectTurn req \<noteq> dc_curReelectTurn dc then Some c
                                            else
                                              (case CheckTimeLegal (dc_turnTime dc) (TotalTurns (dc_curConsensusTurn dc))
                                                      (dc_curReelectTurn dc) (sint (iq_TimeStamp req)) of
                                                 Inl e \<Rightarrow> Some c
                                               | Inr _ \<Rightarrow>
                                                   Some (sendInquiryRspWithAgree env reqHash (iq_From req)
                                                           (iq_Number req) c)))
                                         else Some c) } }))))"

definition processNewBlockReadyRsp :: "Env \<Rightarrow> Header option \<Rightarrow> address \<Rightarrow> controller \<Rightarrow> controller option" where
  "processNewBlockReadyRsp env m peer c =
     (case m of
        None \<Rightarrow> Some c
      | Some header \<Rightarrow>
          (let number = Uint64 (h_Number header)
           in case bc_GetHeader (e_chain env) (h_ParentHash header) (number - 1) of
                None \<Rightarrow> Some (emit (FetcherNotify (h_ParentHash header) (number - 1) peer) c)
              | Some parentHeader \<Rightarrow>
                  (case chainGetBroadcastIntervalByHash (e_chain env) (h_ParentHash header) of
                     Inl e \<Rightarrow> Some c
                   | Inr bcInterval \<Rightarrow>
                       do { isBroadcast \<leftarrow> IsBroadcastNumber bcInterval number;
                            case e_VerifyHeader env (h_Version header) header (\<not> isBroadcast) of
                              Some e \<Rightarrow> Some c
                            | None \<Rightarrow>
                                do { engine \<leftarrow> DPOSEngine env (h_Version header);
                                     r \<leftarrow> VerifyBlock engine (e_crypto env) (cdcReader (e_chain env) (ct_dc c)) (Some header);
                                     case r of
                                       Inl e \<Rightarrow> Some c
                                     | Inr _ \<Rightarrow>
                                         Some (emit (PublishRecovery
                                           \<lparr>rs_Type = RecoveryTypeFullHeader, rs_IsBroadcast = isBroadcast,
                                            rs_Header = Some header, rs_From = peer\<rparr>) c) } })))"

text \<open>The votes collected so far, as the engine of the parent's version counts them.\<close>

definition countVotes :: "Env \<Rightarrow> VerifiedSign list \<Rightarrow> controller \<Rightarrow> (error + signature list) option" where
  "countVotes env signs c =
     do { parentHeader \<leftarrow> mp_parentHeader (ct_mp c);
          engine \<leftarrow> DPOSEngine env (h_Version parentHeader);
          Some (VerifyHashWithVerifiedSignsAndBlock engine (cdcReader (e_chain env) (ct_dc c)) signs (ParentHash c)) }"

text \<open>The branches of \<open>handleInquiryRsp\<close> by the type of the response.\<close>

definition inquiryRspAlreadyRL :: "Env \<Rightarrow> HD_V2_ReelectInquiryRspMsg \<Rightarrow> controller \<Rightarrow> controller option" where
  "inquiryRspAlreadyRL env rsp c =
     do { r \<leftarrow> checkRLResult env (ir_RLResult rsp) c;
          case r of
            Inl e \<Rightarrow> Some c
          | Inr _ \<Rightarrow>
              (case GenBroadcastMsgWithInquiryResult (ir_Type rsp) rsp (ct_selfCache c) of
                 Inl e \<Rightarrow> Some c
               | Inr mc \<Rightarrow>
                   do { c' \<leftarrow> sendResultBroadcastMsg env (c\<lparr>ct_selfCache := mc\<rparr>);
                        rlResult \<leftarrow> ir_RLResult rsp;
                        finishReelectWithRLConsensus env rlResult c' }) }"

definition inquiryRspPOS :: "Env \<Rightarrow> HD_V2_ReelectInquiryRspMsg \<Rightarrow> controller \<Rightarrow> controller option" where
  "inquiryRspPOS env rsp c =
     do { r \<leftarrow> checkPOSResult env (ir_POSResult rsp) c;
          case r of
            Inl e \<Rightarrow> Some c
          | Inr _ \<Rightarrow>
              (case GenBroadcastMsgWithInquiryResult (ir_Type rsp) rsp (ct_selfCache c) of
                 Inl e \<Rightarrow> Some c
               | Inr mc \<Rightarrow> sendResultBroadcastMsg env (c\<lparr>ct_selfCache := mc\<rparr>)) }"

definition inquiryRspAgree :: "Env \<Rightarrow> HD_V2_ReelectInquiryRspMsg \<Rightarrow> controller \<Rightarrow> controller option" where
  "inquiryRspAgree env rsp c =
     (case SaveInquiryVote (e_crypto env) (e_chain env) (ct_dc c) (ir_ReqHash rsp) (ir_AgreeSign rsp) (ir_From rsp)
             (ct_selfCache c) of
        Inl e \<Rightarrow> Some c
      | Inr mc \<Rightarrow>
          (let c1 = c\<lparr>ct_selfCache := mc\<rparr>
           in do { r \<leftarrow> countVotes env (GetInquiryVotes mc) c1;
                   case r of
                     Inl e \<Rightarrow> Some c1
                   | Inr rightSigns \<Rightarrow>
                       (case GenRLReqMsg rightSigns mc of
                          (Some e, mc') \<Rightarrow> Some (c1\<lparr>ct_selfCache := mc'\<rparr>)
                        | (None, mc') \<Rightarrow> sendRLReq env (c1\<lparr>ct_selfCache := mc'\<rparr>)) }))"

definition handleInquiryRsp :: "Env \<Rightarrow> HD_V2_ReelectInquiryRspMsg option \<Rightarrow> controller \<Rightarrow> controller option" where
  "handleInquiryRsp env m c =
     do { rsp \<leftarrow> m;
          if GetInquiryResult (ct_selfCache c) \<noteq> ReelectRSPTypeNone then Some c
          else if IsMatchedInquiryRsp rsp (ct_selfCache c) \<noteq> None then Some c
          else if ir_Type rsp = ReelectRSPTypeNewBlockReady
          then processNewBlockReadyRsp env (ir_NewBlock rsp) (ir_From rsp) c
          else if ir_Type rsp = ReelectRSPTypeAlreadyRL then inquiryRspAlreadyRL env rsp c
          else if ir_Type rsp = ReelectRSPTypePOS then inquiryRspPOS env rsp c
          else if ir_Type rsp = ReelectRSPTypeAgree then inquiryRspAgree env rsp c
          else Some c }"

definition handleRLReq :: "Env \<Rightarrow> HD_V2_ReelectLeaderReqMsg option \<Rightarrow> controller \<Rightarrow> controller option" where
  "handleRLReq env m c =
     (if State c \<noteq> stReelect then Some c
      else
        do { r \<leftarrow> checkRLReqMsg env m c;
             case r of
               Inl e \<Rightarrow> Some c
             | Inr _ \<Rightarrow>
                 do { req \<leftarrow> m;
                      let h = rlpHash (e_crypto env) (VLeaderReq req);
                      case selfSign env c h of
                        Inl e \<Rightarrow> Some c
                      | Inr sign \<Rightarrow>
                          do { inquiry \<leftarrow> lr_InquiryReq req;
                               Some (emit (SendNodeMsg HD_V2_LeaderReelectVote
                                 (NVote \<lparr>hv_SignHash = h, hv_Number = Number c, hv_Sign = sign, hv_From = 0\<rparr>)
                                 RoleNil [iq_From inquiry]) c) } } })"

definition handleRLVote :: "Env \<Rightarrow> HD_V2_ConsensusVote option \<Rightarrow> controller \<Rightarrow> controller option" where
  "handleRLVote env m c =
     (case m of
        None \<Rightarrow> Some c
      | Some msg \<Rightarrow>
          (case SaveRLVote (e_crypto env) (e_chain env) (ct_dc c) (cv_SignHash msg) (cv_Sign msg) (cv_From msg)
                  (ct_selfCache c) of
             Inl e \<Rightarrow> Some c
           | Inr mc \<Rightarrow>
               (let c1 = c\<lparr>ct_selfCache := mc\<rparr>
                in do { r \<leftarrow> countVotes env (GetRLVotes mc) c1;
                        case r of
                          Inl e \<Rightarrow> Some c1
                        | Inr rightSigns \<Rightarrow>
                            (case GenBroadcastMsgWithRLSuccess rightSigns mc of
                               Inl e \<Rightarrow> Some c1
                             | Inr mc' \<Rightarrow> sendResultBroadcastMsg env (c1\<lparr>ct_selfCache := mc'\<rparr>)) })))"

definition processResultBroadcastMsg ::
  "Env \<Rightarrow> HD_V2_ReelectBroadcastMsg \<Rightarrow> controller \<Rightarrow> (error option \<times> controller) option" where
  "processResultBroadcastMsg env msg c =
     (if rb_Type msg = ReelectRSPTypePOS then
        (case rb_POSResult msg of
           None \<Rightarrow> Some (Some ErrPOSResultIsNil, c)
         | Some posResult \<Rightarrow>
             (case bq_Header posResult of
                None \<Rightarrow> Some (Some ErrPOSResultIsNil, c)
              | Some header \<Rightarrow>
                  (if h_Leader header \<noteq> GetConsensusLeader (ct_dc c)
                   then Some (Some (Errorf ''header leader is not the local consensus leader''), c)
                   else
                     do { engine \<leftarrow> DPOSEngine env (h_Version header);
                          r \<leftarrow> VerifyBlock engine (e_crypto env) (cdcReader (e_chain env) (ct_dc c)) (Some header);
                          case r of
                            Inl e \<Rightarrow> Some (Some (Errorf ''POS result verification failed''), c)
                          | Inr _ \<Rightarrow> do { c' \<leftarrow> finishReelectWithPOS posResult (rb_From msg) c; Some (None, c') } })))
      else if rb_Type msg = ReelectRSPTypeAgree \<or> rb_Type msg = ReelectRSPTypeAlreadyRL then
        do { r \<leftarrow> checkRLResult env (rb_RLResult msg) c;
             case r of
               Inl e \<Rightarrow> Some (Some e, c)
             | Inr _ \<Rightarrow>
                 do { rlResult \<leftarrow> rb_RLResult msg;
                      c' \<leftarrow> finishReelectWithRLConsensus env rlResult c;
                      Some (None, c') } }
      else Some (Some (Errorf ''result type error''), c))"

definition handleBroadcastMsg :: "Env \<Rightarrow> HD_V2_ReelectBroadcastMsg option \<Rightarrow> controller \<Rightarrow> controller option" where
  "handleBroadcastMsg env m c =
     (case m of
        None \<Rightarrow> Some c
      | Some msg \<Rightarrow>
          do { (err, c') \<leftarrow> processResultBroadcastMsg env msg c;
               if err \<noteq> None then Some c' else sendResultBroadcastRsp env msg c' })"

definition handleBroadcastRsp :: "Env \<Rightarrow> HD_V2_ReelectBroadcastRspMsg option \<Rightarrow> controller \<Rightarrow> controller option" where
  "handleBroadcastRsp env m c =
     (case m of
        None \<Rightarrow> Some c
      | Some rsp \<Rightarrow>
          (case SaveBroadcastVote (e_crypto env) (e_chain env) (ct_dc c) (rr_ResultHash rsp) (rr_Sign rsp) (rr_From rsp)
                  (ct_selfCache c) of
             Inl e \<Rightarrow> Some c
           | Inr mc \<Rightarrow>
               (let c1 = c\<lparr>ct_selfCache := mc\<rparr>
                in do { r \<leftarrow> countVotes env (GetBroadcastVotes mc) c1;
                        case r of
                          Inl e \<Rightarrow> Some c1
                        | Inr _ \<Rightarrow>
                            (case GetLocalBroadcastMsg mc of
                               Inl e \<Rightarrow> Some c1
                             | Inr resultMsg \<Rightarrow>
                                 do { (err, c') \<leftarrow> processResultBroadcastMsg env resultMsg c1; Some c' }) })))"

definition reelectTimeOutHandle :: "Env \<Rightarrow> controller \<Rightarrow> controller option" where
  "reelectTimeOutHandle env c =
     (if State c \<noteq> stReelect then Some c
      else
        (let result = GetInquiryResult (ct_selfCache c)
         in do { c' \<leftarrow> (if result = ReelectRSPTypeNone then sendInquiryReq env c
                        else if result = ReelectRSPTypeAgree then sendRLReq env c
                        else if result = ReelectRSPTypePOS \<or> result = ReelectRSPTypeAlreadyRL
                        then sendResultBroadcastMsg env c
                        else Some c);
                 Some (c'\<lparr>ct_reelectTimer := setTimer (tt_reelectHandleInterval (dc_turnTime (ct_dc c')))\<rparr>) }))"

fun handleMsg :: "Env \<Rightarrow> ctrlMsg \<Rightarrow> controller \<Rightarrow> controller option" where
  "handleMsg env NilData c = Some c"
| "handleMsg env (StartMsg m) c = handleStartMsg env m c"
| "handleMsg env (POSFinishedMsg m) c = handleBlockPOSFinishedNotify m c"
| "handleMsg env (InquiryReqMsg m) c = handleInquiryReq env m c"
| "handleMsg env (InquiryRspMsg m) c = handleInquiryRsp env m c"
| "handleMsg env (RLReqMsg m) c = handleRLReq env m c"
| "handleMsg env (RLVoteMsg m) c = handleRLVote env m c"
| "handleMsg env (ResultBroadcastMsg m) c = handleBroadcastMsg env m c"
| "handleMsg env (ResultBroadcastRspMsg m) c = handleBroadcastRsp env m c"
| "handleMsg env UnknownMsg c = Some c"

section \<open>The goroutine\<close>

text \<open>
  One iteration of the loop: a message, or a timer that expired.  A timer that is stopped does not
  fire; one that fired is no longer armed when its handler runs.
\<close>

datatype ctrlEvent = MsgCh ctrlMsg | TimerC | ReelectTimerC

fun ctrlRun :: "Env \<Rightarrow> ctrlEvent \<Rightarrow> controller \<Rightarrow> controller option" where
  "ctrlRun env (MsgCh m) c = handleMsg env m c"
| "ctrlRun env TimerC c =
     (if ct_timer c = None then Some c else timeOutHandle env (c\<lparr>ct_timer := None\<rparr>))"
| "ctrlRun env ReelectTimerC c =
     (if ct_reelectTimer c = None then Some c else reelectTimeOutHandle env (c\<lparr>ct_reelectTimer := None\<rparr>))"

text \<open>The loop over a finite sequence of events, each with the environment its handler reads.\<close>

fun ctrlRuns :: "(Env \<times> ctrlEvent) list \<Rightarrow> controller \<Rightarrow> controller option" where
  "ctrlRuns [] c = Some c"
| "ctrlRuns ((env, ev) # evs) c = do { c' \<leftarrow> ctrlRun env ev c; ctrlRuns evs c' }"

end
