(* ===== verification/CtrlTurns.thy ===== *)
theory CtrlTurns
  imports Controller "HOL-Library.Sublist"
begin

text \<open>
  What the controller of a height keeps, over every message and every timer: the order of the
  consensus turns, and the agreement of the cached leader and master with the turns.
\<close>

section \<open>What a handler leaves alone\<close>

text \<open>
  \<open>follows c c'\<close>: from \<open>c\<close> to \<open>c'\<close> the height is the same, outputs have only been added, and the cached
  leaders are still those of the turns.  \<open>stays c c'\<close>: moreover the consensus turn is the same.
\<close>

definition follows :: "controller \<Rightarrow> controller \<Rightarrow> bool" where
  "follows c c' \<longleftrightarrow> Number c' = Number c \<and> prefix (ct_outs c) (ct_outs c')
     \<and> (leadersOK (ct_dc c) \<longrightarrow> leadersOK (ct_dc c'))"

definition stays :: "controller \<Rightarrow> controller \<Rightarrow> bool" where
  "stays c c' \<longleftrightarrow> follows c c' \<and> ConsensusTurn c' = ConsensusTurn c"

lemma follows_refl: "follows c c"
  by (simp add: follows_def)

lemma follows_trans: "follows c d \<Longrightarrow> follows d e \<Longrightarrow> follows c e"
  by (auto simp: follows_def intro: prefix_order.trans)

lemma stays_refl [simp]: "stays c c"
  by (simp add: stays_def follows_refl)

lemma stays_trans: "stays c d \<Longrightarrow> stays d e \<Longrightarrow> stays c e"
  by (auto simp: stays_def intro: follows_trans)

lemma leadersOK_frame [frame_simps]:
  "leadersOK (dc\<lparr>dc_state := v1\<rparr>) = leadersOK dc"
  "leadersOK (dc\<lparr>dc_selfAddr := v2\<rparr>) = leadersOK dc"
  "leadersOK (dc\<lparr>dc_selfNodeAddr := v3\<rparr>) = leadersOK dc"
  "leadersOK (dc\<lparr>dc_isMaster := v4\<rparr>) = leadersOK dc"
  "leadersOK (dc\<lparr>dc_turnTime := v5\<rparr>) = leadersOK dc"
  by (simp_all add: leadersOK_def frame_simps)

lemma leadersOK_noReelect: "leadersOK dc \<Longrightarrow> leadersOK (dc\<lparr>dc_curReelectTurn := 0\<rparr>)"
  by (simp add: leadersOK_def frame_simps)

text \<open>Changes of fields that these relations do not look at.\<close>

lemma stays_frame:
  assumes "dc_number dc = Number c" "dc_curConsensusTurn dc = ConsensusTurn c" "leadersOK (ct_dc c) \<Longrightarrow> leadersOK dc"
  shows "stays c (c\<lparr>ct_dc := dc\<rparr>)" "stays c (c\<lparr>ct_timer := t\<rparr>)" "stays c (c\<lparr>ct_reelectTimer := r\<rparr>)"
    "stays c (c\<lparr>ct_mp := mp\<rparr>)" "stays c (c\<lparr>ct_selfCache := mc\<rparr>)"
  using assms by (simp_all add: stays_def follows_def Number_def ConsensusTurn_def)

lemma stays_emit: "stays c (emit out c)"
  by (simp add: stays_def follows_def emit_def Number_def ConsensusTurn_def)

lemma stays_iff:
  "stays c c' \<longleftrightarrow> dc_number (ct_dc c') = dc_number (ct_dc c) \<and> dc_curConsensusTurn (ct_dc c') = dc_curConsensusTurn (ct_dc c)
     \<and> prefix (ct_outs c) (ct_outs c') \<and> (leadersOK (ct_dc c) \<longrightarrow> leadersOK (ct_dc c'))"
  by (auto simp: stays_def follows_def Number_def ConsensusTurn_def)

section \<open>Sending keeps the round\<close>

text \<open>Sending changes the master's cache and the outputs only.\<close>

definition sends :: "controller \<Rightarrow> controller \<Rightarrow> bool" where
  "sends c c' \<longleftrightarrow> (\<exists>mc os. c' = c\<lparr>ct_selfCache := mc, ct_outs := ct_outs c @ os\<rparr>)"

lemma sendsI: "c' = c\<lparr>ct_selfCache := mc, ct_outs := ct_outs c @ os\<rparr> \<Longrightarrow> sends c c'"
  by (auto simp: sends_def)

lemma sends_refl [simp]: "sends c c"
  by (rule sendsI [where mc = "ct_selfCache c" and os = "[]"]) simp

lemma sends_trans: "sends c d \<Longrightarrow> sends d e \<Longrightarrow> sends c e"
  unfolding sends_def by fastforce

lemma sends_emit [simp]: "sends c (emit out c)"
  by (rule sendsI [where mc = "ct_selfCache c" and os = "[out]"]) (simp add: emit_def)

lemma sends_cache [simp]: "sends c (c\<lparr>ct_selfCache := mc\<rparr>)"
  by (rule sendsI [where mc = mc and os = "[]"]) simp

lemma sends_both [simp]: "sends c (emit out (c\<lparr>ct_selfCache := mc\<rparr>))"
  by (rule sendsI [where mc = mc and os = "[out]"]) (simp add: emit_def)

lemma sends_stays: "sends c c' \<Longrightarrow> stays c c'"
  by (auto simp: sends_def stays_iff)

lemma sends_fields:
  assumes "sends c c'"
  shows "ct_dc c' = ct_dc c" "ct_mp c' = ct_mp c" "ct_timer c' = ct_timer c" "ct_reelectTimer c' = ct_reelectTimer c"
  using assms by (auto simp: sends_def)

lemma publishLeaderMsg_sends: "publishLeaderMsg c = Some c' \<Longrightarrow> sends c c'"
  by (auto simp: publishLeaderMsg_def split: Option.bind_splits sum.splits)

lemma sendInquiryReq_sends: "sendInquiryReq env c = Some c' \<Longrightarrow> sends c c'"
  by (auto simp: sendInquiryReq_def Let_def split: Option.bind_splits sum.splits)

lemma sendInquiryReqToSingle_sends: "sendInquiryReqToSingle env t c = Some c' \<Longrightarrow> sends c c'"
  by (auto simp: sendInquiryReqToSingle_def Let_def split: Option.bind_splits if_splits)

lemma sendRLReq_sends: "sendRLReq env c = Some c' \<Longrightarrow> sends c c'"
  by (auto simp: sendRLReq_def Let_def split: Option.bind_splits sum.splits)

lemma sendResultBroadcastMsg_sends: "sendResultBroadcastMsg env c = Some c' \<Longrightarrow> sends c c'"
  by (auto simp: sendResultBroadcastMsg_def Let_def split: Option.bind_splits sum.splits)

lemma sendResultBroadcastRsp_sends: "sendResultBroadcastRsp env m c = Some c' \<Longrightarrow> sends c c'"
  by (auto simp: sendResultBroadcastRsp_def Let_def split: Option.bind_splits sum.splits)

lemma sendInquiryRsp_sends [simp]:
  "sends c (sendInquiryRsp rsp t c)" "sends c (sendInquiryRspWithAgree env h t n c)"
  "sends c (sendInquiryRspWithNewBlockReady h t n c)"
  by (simp_all add: sendInquiryRsp_def sendInquiryRspWithAgree_def sendInquiryRspWithNewBlockReady_def
      split: sum.split option.split)

lemma sendInquiryRspWith_sends:
  "sendInquiryRspWithPOS h t n c = Some c' \<Longrightarrow> sends c c'"
  "sendInquiryRspWithRLConsensus h t c = Some c' \<Longrightarrow> sends c c'"
  by (auto simp: sendInquiryRspWithPOS_def sendInquiryRspWithRLConsensus_def Let_def
      split: Option.bind_splits sum.splits)

lemma inquireUnlessMaster_sends: "inquireUnlessMaster env t c = Some c' \<Longrightarrow> sends c c'"
  by (auto simp: inquireUnlessMaster_def sendInquiryReqToSingle_sends split: if_splits)

lemma processNewBlockReadyRsp_sends: "processNewBlockReadyRsp env h p c = Some c' \<Longrightarrow> sends c c'"
  by (auto simp: processNewBlockReadyRsp_def Let_def split: option.splits sum.splits Option.bind_splits)

lemmas sending = publishLeaderMsg_sends sendInquiryReq_sends sendInquiryReqToSingle_sends sendRLReq_sends
  sendResultBroadcastMsg_sends sendResultBroadcastRsp_sends sendInquiryRspWith_sends inquireUnlessMaster_sends
  processNewBlockReadyRsp_sends

lemma handleInquiryReq_sends: "handleInquiryReq env m c = Some c' \<Longrightarrow> sends c c'"
  by (auto simp: handleInquiryReq_def Let_def sending
      split: option.splits sum.splits prod.splits if_splits Option.bind_splits)

lemma handleRLReq_sends: "handleRLReq env m c = Some c' \<Longrightarrow> sends c c'"
  by (auto simp: handleRLReq_def Let_def split: if_splits Option.bind_splits sum.splits)

section \<open>Phases keep the turn, a result moves it on\<close>

lemma processPOSState_stays: "processPOSState c = Some c' \<Longrightarrow> stays c c'"
  by (auto simp: processPOSState_def stays_iff frame_simps split: if_splits Option.bind_splits sum.splits)

lemma startReelect_cases:
  assumes "startReelect env turn c = Some c'"
  obtains (same) "c' = c" "State c \<noteq> stReelect \<or> dc_curReelectTurn (ct_dc c) = turn"
  | (failed) e where "c' = c" "SetReelectTurn turn (ct_dc c) = Some (Inl e)"
  | (entered) dc m t where "SetReelectTurn turn (ct_dc c) = Some (Inr dc)"
      "sends (c\<lparr>ct_dc := dc\<lparr>dc_isMaster := m\<rparr>, ct_reelectTimer := t\<rparr>) c'"
proof (cases "State c \<noteq> stReelect \<or> dc_curReelectTurn (ct_dc c) = turn")
  case True
  with assms show ?thesis by (auto simp: startReelect_def split: if_splits intro: same)
next
  case False
  with assms obtain r where r: "SetReelectTurn turn (ct_dc c) = Some r"
    by (auto simp: startReelect_def split: Option.bind_splits)
  show ?thesis
  proof (cases r)
    case (Inl e)
    with False assms r show ?thesis by (intro failed) (simp_all add: startReelect_def)
  next
    case (Inr dc)
    obtain m t c1 where "sends (c\<lparr>ct_dc := dc\<lparr>dc_isMaster := m\<rparr>, ct_reelectTimer := t\<rparr>) c1" "sends c1 c'"
      using False assms Inr r
      by (auto simp: startReelect_def dest!: sending split: if_splits Option.bind_splits)
    then have "sends (c\<lparr>ct_dc := dc\<lparr>dc_isMaster := m\<rparr>, ct_reelectTimer := t\<rparr>) c'" by (rule sends_trans)
    with r Inr show ?thesis by (intro entered) simp_all
  qed
qed

lemma startReelect_stays:
  assumes "startReelect env turn c = Some c'"
  shows "stays c c'"
  using assms
proof (cases rule: startReelect_cases)
  case (entered dc m t)
  have "dc_number dc = dc_number (ct_dc c)" "dc_curConsensusTurn dc = dc_curConsensusTurn (ct_dc c)"
    using entered(1) by (auto elim: SetReelectTurn_cases)
  then have "stays c (c\<lparr>ct_dc := dc\<lparr>dc_isMaster := m\<rparr>, ct_reelectTimer := t\<rparr>)"
    using SetReelectTurn_leaders [OF _ entered(1)] by (simp add: stays_iff frame_simps)
  with sends_stays [OF entered(2)] show ?thesis by (blast intro: stays_trans)
qed simp_all

lemma enterTurn_stays:
  assumes "enterTurn env (st, remainTime, turn) c = Some c'"
  shows "stays c c'"
proof -
  let ?c = "c\<lparr>ct_dc := (ct_dc c)\<lparr>dc_state := st, dc_curReelectTurn := 0\<rparr>, ct_timer := setTimer remainTime\<rparr>"
  have "stays c ?c" by (simp add: stays_iff frame_simps leadersOK_noReelect)
  moreover have "stays ?c c'"
    using assms processPOSState_stays startReelect_stays by (auto simp: enterTurn_def Let_def split: if_splits)
  ultimately show ?thesis by (rule stays_trans)
qed

lemma timeOutHandle_stays:
  assumes "timeOutHandle env c = Some c'"
  shows "stays c c'"
proof -
  obtain st r t where s: "CalState (dc_turnTime (ct_dc c)) (TotalTurns (dc_curConsensusTurn (ct_dc c))) (e_now env) = (st, r, t)"
    by (metis prod_cases3)
  have "stays c (c\<lparr>ct_timer := setTimer r, ct_dc := (ct_dc c)\<lparr>dc_state := st\<rparr>\<rparr>)"
    by (simp add: stays_iff frame_simps)
  with assms s startReelect_stays stays_trans show ?thesis
    by (auto simp: timeOutHandle_def split: if_splits)
qed

lemma AnalysisState_frame:
  assumes "AnalysisState cr chain ph ps dc = Some (err, dc')"
  shows "dc_number dc' = dc_number dc \<and> dc_curConsensusTurn dc' = dc_curConsensusTurn dc \<and> dc_state dc' = dc_state dc
    \<and> tt_beginTime (dc_turnTime dc') = tt_beginTime (dc_turnTime dc)
    \<and> dc_curReelectTurn dc' = dc_curReelectTurn dc"
  using assms
proof (cases rule: AnalysisState_cases)
  case (analysed st h validators role specials config bc lc)
  from analysed(8) show ?thesis
  proof (cases rule: applyState_cases)
    case (applied l m tt)
    then show ?thesis by (auto simp: SetTimeConfig_def)
  qed simp
qed simp

lemma startTurn_cases:
  assumes "startTurn env h c = Some c'"
  obtains (old) "i64 (h_Time h) \<le> tt_beginTime (dc_turnTime (ct_dc c))" "publishLeaderMsg c = Some c'"
  | (new) c2 c3 where
      "c2 = c\<lparr>ct_dc := (ct_dc c)\<lparr>dc_turnTime := (dc_turnTime (ct_dc c))\<lparr>tt_beginTime := i64 (h_Time h)\<rparr>\<rparr>,
               ct_mp := SaveParentHeader (Some h) (ct_mp c)\<rparr>"
      "c3 = c2 \<or> enterTurn env (CalState (dc_turnTime (ct_dc c2)) 0 (e_now env)) c2 = Some c3"
      "publishLeaderMsg c3 = Some c'"
proof (cases "i64 (h_Time h) \<le> tt_beginTime (dc_turnTime (ct_dc c))")
  case True
  with assms old show ?thesis by (simp add: startTurn_def SetBeginTime_def)
next
  case False
  let ?c2 = "c\<lparr>ct_dc := (ct_dc c)\<lparr>dc_turnTime := (dc_turnTime (ct_dc c))\<lparr>tt_beginTime := i64 (h_Time h)\<rparr>\<rparr>,
    ct_mp := SaveParentHeader (Some h) (ct_mp c)\<rparr>"
  have "\<exists>c3. (if isFirstConsensusTurn (ConsensusTurn ?c2) then enterTurn env (CalState (dc_turnTime (ct_dc ?c2)) 0 (e_now env)) ?c2
      else Some ?c2) = Some c3 \<and> publishLeaderMsg c3 = Some c'"
    using False assms by (simp add: startTurn_def SetBeginTime_def Let_def bind_eq_Some_conv cong: if_cong)
  then obtain c3 where "(if isFirstConsensusTurn (ConsensusTurn ?c2)
      then enterTurn env (CalState (dc_turnTime (ct_dc ?c2)) 0 (e_now env)) ?c2 else Some ?c2) = Some c3"
    "publishLeaderMsg c3 = Some c'" by blast
  then show ?thesis using new [of ?c2 c3] by (simp split: if_splits)
qed

lemma startAnalysed_cases:
  assumes "startAnalysed env h c = Some c'"
  obtains (observer) "c' = c\<lparr>ct_mp := SaveParentHeader (Some h) (ct_mp c)\<rparr>"
  | (broadcast) c1 where "publishLeaderMsg (c\<lparr>ct_dc := (ct_dc c)\<lparr>dc_state := stIdle\<rparr>\<rparr>) = Some c1"
      "c' = c1\<lparr>ct_mp := SaveParentHeader (Some h) (ct_mp c1), ct_dc := (ct_dc c1)\<lparr>dc_state := stWaiting\<rparr>\<rparr>"
  | (turn) "startTurn env h c = Some c'"
proof (cases "dc_role (ct_dc c) = RoleValidator")
  case True
  from assms True obtain bc b where b: "dc_bcInterval (ct_dc c) = Some bc" "IsBroadcastNumber bc (dc_number (ct_dc c)) = Some b"
    by (auto simp: startAnalysed_def bind_eq_Some_conv)
  show ?thesis
  proof (cases b)
    case False
    with assms True b turn show ?thesis by (simp add: startAnalysed_def)
  next
    case True
    then obtain c1 where "publishLeaderMsg (c\<lparr>ct_dc := (ct_dc c)\<lparr>dc_state := stIdle\<rparr>\<rparr>) = Some c1"
      "c' = c1\<lparr>ct_mp := SaveParentHeader (Some h) (ct_mp c1), ct_dc := (ct_dc c1)\<lparr>dc_state := stWaiting\<rparr>\<rparr>"
      using assms b \<open>dc_role (ct_dc c) = RoleValidator\<close> by (auto simp: startAnalysed_def bind_eq_Some_conv)
    then show ?thesis by (rule broadcast)
  qed
qed (use assms observer in \<open>simp add: startAnalysed_def\<close>)

lemma startTurn_stays:
  assumes "startTurn env h c = Some c'"
  shows "stays c c'"
  using assms
proof (cases rule: startTurn_cases)
  case old
  then show ?thesis by (blast intro: publishLeaderMsg_sends sends_stays)
next
  case (new c2 c3)
  obtain st r t where s: "CalState (dc_turnTime (ct_dc c2)) 0 (e_now env) = (st, r, t)" by (metis prod_cases3)
  have "stays c c2" unfolding new(1) by (simp add: stays_iff frame_simps)
  moreover have "stays c2 c3" using new(2) unfolding s by (auto dest: enterTurn_stays)
  moreover have "stays c3 c'" using new(3) by (blast intro: publishLeaderMsg_sends sends_stays)
  ultimately show ?thesis by (blast intro: stays_trans)
qed

lemma startAnalysed_stays:
  assumes "startAnalysed env h c = Some c'"
  shows "stays c c'"
  using assms
proof (cases rule: startAnalysed_cases)
  case (broadcast c1)
  have "stays c (c\<lparr>ct_dc := (ct_dc c)\<lparr>dc_state := stIdle\<rparr>\<rparr>)" by (simp add: stays_iff frame_simps)
  moreover have "stays (c\<lparr>ct_dc := (ct_dc c)\<lparr>dc_state := stIdle\<rparr>\<rparr>) c1"
    using broadcast(1) by (blast intro: publishLeaderMsg_sends sends_stays)
  moreover have "stays c1 c'" unfolding broadcast(2) by (simp add: stays_iff frame_simps)
  ultimately show ?thesis by (blast intro: stays_trans)
next
  case turn
  then show ?thesis by (rule startTurn_stays)
qed (simp add: stays_iff)

text \<open>A start message is ignored, or its parent is analysed without or with success.\<close>

lemma handleStartMsg_cases:
  fixes env :: Env and c :: controller
  defines "c1 \<equiv> SetSelfAddress (sh_depositAddress (e_SignHelper env)) (sh_signAddress (e_SignHelper env)) c"
  assumes "handleStartMsg env m c = Some c'"
  obtains (ignored) "c' = c"
  | (failed) msg h e dc where "m = Some msg" "sc_parentHeader msg = Some h"
      "AnalysisState (e_crypto env) (e_chain env) (Some h) (sc_parentStateDB msg) (ct_dc c1) = Some (Some e, dc)"
      "c' = c1\<lparr>ct_dc := dc\<rparr>"
  | (started) msg h dc where "m = Some msg" "sc_parentHeader msg = Some h"
      "AnalysisState (e_crypto env) (e_chain env) (Some h) (sc_parentStateDB msg) (ct_dc c1) = Some (None, dc)"
      "startAnalysed env h (c1\<lparr>ct_dc := dc\<rparr>) = Some c'"
  using assms(2) ignored failed started unfolding handleStartMsg_def Let_def c1_def [symmetric]
  by (auto split: option.splits if_splits Option.bind_splits)

lemma handleStartMsg_stays:
  assumes "handleStartMsg env m c = Some c'"
  shows "stays c c'"
proof -
  let ?c1 = "SetSelfAddress (sh_depositAddress (e_SignHelper env)) (sh_signAddress (e_SignHelper env)) c"
  have 1: "stays c ?c1" by (simp add: stays_iff SetSelfAddress_def frame_simps)
  have 2: "stays ?c1 (?c1\<lparr>ct_dc := dc\<rparr>)" if "AnalysisState cr ch ph ps (ct_dc ?c1) = Some (err, dc)" for dc cr ch ph ps err
    using AnalysisState_frame [OF that] AnalysisState_leaders [OF _ that] by (simp add: stays_iff)
  from assms show ?thesis
  proof (cases rule: handleStartMsg_cases)
    case (failed msg h e dc)
    from 2 [OF failed(3)] failed(4) 1 show ?thesis by (blast intro: stays_trans)
  next
    case (started msg h dc)
    from 2 [OF started(3)] startAnalysed_stays [OF started(4)] 1 show ?thesis by (blast intro: stays_trans)
  qed simp
qed

lemma handleBlockPOSFinishedNotify_stays:
  assumes "handleBlockPOSFinishedNotify m c = Some c'"
  shows "stays c c'"
proof -
  have "stays c (c\<lparr>ct_mp := mp\<rparr>)" for mp by (simp add: stays_iff)
  with assms show ?thesis
    by (auto simp: handleBlockPOSFinishedNotify_def split: option.splits if_splits Option.bind_splits sum.splits
        dest!: processPOSState_stays intro: stays_trans)
qed

lemma SetReelectTurn_zero:
  "SetReelectTurn 0 dc = Some (Inr (if dc_curReelectTurn dc = 0 then dc
     else dc\<lparr>dc_reelectMaster := 0, dc_curReelectTurn := 0\<rparr>))"
  by (simp add: SetReelectTurn_def)

lemma leadersOK_noMaster: "leadersOK dc \<Longrightarrow> leadersOK (dc\<lparr>dc_reelectMaster := 0, dc_curReelectTurn := 0\<rparr>)"
  by (simp add: leadersOK_def frame_simps)

text \<open>What a finished block leaves behind.\<close>

lemma finishReelectWithPOS_cases:
  assumes "finishReelectWithPOS p a c = Some c'"
  obtains dc os where
    "dc = (ct_dc c)\<lparr>dc_state := stMining\<rparr>
     \<or> dc = (ct_dc c)\<lparr>dc_state := stMining, dc_reelectMaster := 0, dc_curReelectTurn := 0\<rparr>"
    "sends (c\<lparr>ct_outs := ct_outs c @ os, ct_timer := None, ct_reelectTimer := None,
              ct_dc := dc\<lparr>dc_isMaster := False\<rparr>, ct_selfCache := ClearSelfInquiryMsg (ct_selfCache c)\<rparr>) c'"
proof -
  let ?out = "PublishRecovery \<lparr>rs_Type = RecoveryTypePOS, rs_IsBroadcast = False, rs_Header = bq_Header p, rs_From = a\<rparr>"
  let ?dc = "if dc_curReelectTurn (ct_dc c) = 0 then (ct_dc c)\<lparr>dc_state := stMining\<rparr>
    else (ct_dc c)\<lparr>dc_state := stMining, dc_reelectMaster := 0, dc_curReelectTurn := 0\<rparr>"
  have "publishLeaderMsg (c\<lparr>ct_outs := ct_outs c @ [?out], ct_timer := None, ct_reelectTimer := None,
      ct_dc := ?dc\<lparr>dc_isMaster := False\<rparr>, ct_selfCache := ClearSelfInquiryMsg (ct_selfCache c)\<rparr>) = Some c'"
    using assms by (simp add: finishReelectWithPOS_def SetReelectTurn_zero emit_def setTimer_def Let_def
        split: if_splits)
  from publishLeaderMsg_sends [OF this] show ?thesis using that [of ?dc "[?out]"] by simp
qed

lemma finishReelectWithPOS_stays: "finishReelectWithPOS p a c = Some c' \<Longrightarrow> stays c c'"
proof (erule finishReelectWithPOS_cases)
  fix dc os
  let ?c = "c\<lparr>ct_outs := ct_outs c @ os, ct_timer := None, ct_reelectTimer := None,
    ct_dc := dc\<lparr>dc_isMaster := False\<rparr>, ct_selfCache := ClearSelfInquiryMsg (ct_selfCache c)\<rparr>"
  assume "dc = (ct_dc c)\<lparr>dc_state := stMining\<rparr>
     \<or> dc = (ct_dc c)\<lparr>dc_state := stMining, dc_reelectMaster := 0, dc_curReelectTurn := 0\<rparr>" and s: "sends ?c c'"
  then have "stays c ?c" using leadersOK_noMaster [of "(ct_dc c)\<lparr>dc_state := stMining\<rparr>"]
    by (auto simp: stays_iff frame_simps)
  with s show ?thesis by (blast intro: sends_stays stays_trans)
qed

text \<open>
  A result of a re-election that the controller accepts at its parent block, and the consensus turn
  it leads to.
\<close>

definition decided :: "Env \<Rightarrow> controller \<Rightarrow> ConsensusTurnInfo \<Rightarrow> bool" where
  "decided env c turn \<longleftrightarrow>
     (\<exists>r req inquiry. checkRLResult env (Some r) c = Some (Inr ()) \<and> rc_Req r = Some req
        \<and> lr_InquiryReq req = Some inquiry
        \<and> turn = calcNextConsensusTurn (iq_ConsensusTurn inquiry) (iq_ReelectTurn inquiry))"

definition moves :: "Env \<Rightarrow> controller \<Rightarrow> controller \<Rightarrow> bool" where
  "moves env c c' \<longleftrightarrow> follows c c' \<and> (ConsensusTurn c' = ConsensusTurn c \<or> decided env c (ConsensusTurn c'))"

lemma stays_moves: "stays c c' \<Longrightarrow> moves env c c'"
  by (simp add: stays_def moves_def)

lemma moves_stays: "moves env c c' \<Longrightarrow> stays c' c'' \<Longrightarrow> moves env c c''"
  by (auto simp: stays_def moves_def intro: follows_trans)

lemma checkRLResult_frame:
  assumes "ct_dc c' = ct_dc c" "ct_mp c' = ct_mp c"
  shows "checkRLResult env r c' = checkRLResult env r c"
  by (simp only: checkRLResult_def ParentHash_def assms)

lemma sends_moves: "sends c d \<Longrightarrow> moves env d c' \<Longrightarrow> moves env c c'"
  using checkRLResult_frame [of d c env] sends_fields [of c d] sends_stays [of c d]
  by (auto simp: moves_def stays_def decided_def intro: follows_trans)

lemma checkRLResult_cases:
  assumes "checkRLResult env m c = Some (Inr u)"
  obtains r req inquiry h where "m = Some r" "rc_Req r = Some req" "lr_InquiryReq req = Some inquiry"
    "\<not> turnCmp (calcNextConsensusTurn (iq_ConsensusTurn inquiry) (iq_ReelectTurn inquiry)) (ConsensusTurn c) < 0"
    "mp_parentHeader (ct_mp c) = Some h"
proof -
  from assms obtain r where m: "m = Some r" by (cases m) (simp_all add: checkRLResult_def)
  from assms obtain req where q: "rc_Req r = Some req" by (cases "rc_Req r") (simp_all add: checkRLResult_def m)
  from assms obtain inq where i: "lr_InquiryReq req = Some inq"
    by (cases "lr_InquiryReq req") (simp_all add: checkRLResult_def m q)
  from assms show ?thesis using that [OF m q i]
    by (auto simp: checkRLResult_def m q i Let_def ConsensusTurn_def split: if_splits option.splits)
qed

lemma finishReelectWithRLConsensus_cases:
  assumes "finishReelectWithRLConsensus env r c = Some c'"
  obtains (failed) "c' = c"
  | (entered) req inquiry turn dc c2 where "rc_Req r = Some req" "lr_InquiryReq req = Some inquiry"
      "turn = calcNextConsensusTurn (iq_ConsensusTurn inquiry) (iq_ReelectTurn inquiry)"
      "SetConsensusTurn turn (ct_dc c) = Some (Inr dc)"
      "enterTurn env (CalState (dc_turnTime dc) (TotalTurns turn) (e_now env))
         (c\<lparr>ct_mp := SaveRLConsensusMsg (Some r) (ct_mp c), ct_reelectTimer := None,
            ct_selfCache := ClearSelfInquiryMsg (ct_selfCache c), ct_dc := dc\<lparr>dc_isMaster := False\<rparr>\<rparr>) = Some c2"
      "publishLeaderMsg c2 = Some c'"
proof -
  from assms obtain req inq s where r: "rc_Req r = Some req" "lr_InquiryReq req = Some inq"
    and s: "SetConsensusTurn (calcNextConsensusTurn (iq_ConsensusTurn inq) (iq_ReelectTurn inq)) (ct_dc c) = Some s"
    by (auto simp: finishReelectWithRLConsensus_def bind_eq_Some_conv Let_def)
  show ?thesis
  proof (cases s)
    case (Inl e)
    with assms r s failed show ?thesis by (simp add: finishReelectWithRLConsensus_def Let_def)
  next
    case (Inr dc)
    with assms r s obtain c2 where "enterTurn env (CalState (dc_turnTime dc)
        (TotalTurns (calcNextConsensusTurn (iq_ConsensusTurn inq) (iq_ReelectTurn inq))) (e_now env))
         (c\<lparr>ct_mp := SaveRLConsensusMsg (Some r) (ct_mp c), ct_reelectTimer := None,
            ct_selfCache := ClearSelfInquiryMsg (ct_selfCache c), ct_dc := dc\<lparr>dc_isMaster := False\<rparr>\<rparr>) = Some c2"
      "publishLeaderMsg c2 = Some c'"
      by (auto simp: finishReelectWithRLConsensus_def bind_eq_Some_conv setTimer_def Let_def)
    with entered r s Inr show ?thesis by blast
  qed
qed

lemma finishReelectWithRLConsensus_moves:
  assumes "finishReelectWithRLConsensus env r c = Some c'" "checkRLResult env (Some r) c = Some (Inr u)"
  shows "moves env c c'"
  using assms(1)
proof (cases rule: finishReelectWithRLConsensus_cases)
  case failed
  then show ?thesis by (simp add: stays_moves)
next
  case (entered req inquiry turn dc c2)
  let ?c1 = "c\<lparr>ct_mp := SaveRLConsensusMsg (Some r) (ct_mp c), ct_reelectTimer := None,
    ct_selfCache := ClearSelfInquiryMsg (ct_selfCache c), ct_dc := dc\<lparr>dc_isMaster := False\<rparr>\<rparr>"
  have "dc_number dc = dc_number (ct_dc c)" "dc_curConsensusTurn dc = turn"
    using entered(4) by (auto elim: SetConsensusTurn_cases)
  moreover have "decided env c turn" using entered assms(2) unfolding decided_def by auto
  ultimately have "moves env c ?c1"
    using SetConsensusTurn_leaders [OF entered(4)]
    by (simp add: moves_def follows_def Number_def ConsensusTurn_def frame_simps)
  moreover obtain st rt t where "CalState (dc_turnTime dc) (TotalTurns turn) (e_now env) = (st, rt, t)"
    by (metis prod_cases3)
  then have "stays ?c1 c2" using entered(5) by (auto dest: enterTurn_stays)
  ultimately show ?thesis
    using publishLeaderMsg_sends [OF entered(6)] by (blast intro: moves_stays sends_stays)
qed

lemma processResultBroadcastMsg_moves:
  assumes "processResultBroadcastMsg env m c = Some (err, c')"
  shows "moves env c c'"
proof (cases "rb_Type m = ReelectRSPTypePOS")
  case True
  with assms have "c' = c \<or> (\<exists>p. finishReelectWithPOS p (rb_From m) c = Some c')"
    by (auto simp: processResultBroadcastMsg_def split: option.splits if_splits Option.bind_splits sum.splits)
  then show ?thesis using finishReelectWithPOS_stays by (auto intro: stays_moves)
next
  case False
  with assms have "c' = c \<or> (\<exists>r u. rb_RLResult m = Some r \<and> checkRLResult env (Some r) c = Some (Inr u)
      \<and> finishReelectWithRLConsensus env r c = Some c')"
    by (auto simp: processResultBroadcastMsg_def split: if_splits Option.bind_splits sum.splits)
  then show ?thesis using finishReelectWithRLConsensus_moves by (auto intro: stays_moves)
qed

lemma inquiryRspAgree_sends:
  assumes "inquiryRspAgree env rsp c = Some c'"
  shows "sends c c'"
proof (cases "SaveInquiryVote (e_crypto env) (e_chain env) (ct_dc c) (ir_ReqHash rsp) (ir_AgreeSign rsp) (ir_From rsp)
    (ct_selfCache c)")
  case (Inr mc)
  with assms obtain r where r: "countVotes env (GetInquiryVotes mc) (c\<lparr>ct_selfCache := mc\<rparr>) = Some r"
    by (auto simp: inquiryRspAgree_def Let_def split: Option.bind_splits)
  with assms Inr show ?thesis
    by (cases r) (auto simp: inquiryRspAgree_def Let_def split: prod.splits option.splits
        dest!: sendRLReq_sends intro: sends_trans [OF sends_cache])
qed (use assms in \<open>simp add: inquiryRspAgree_def\<close>)

lemma inquiryRspPOS_sends: "inquiryRspPOS env rsp c = Some c' \<Longrightarrow> sends c c'"
  by (auto simp: inquiryRspPOS_def split: Option.bind_splits sum.splits
      dest!: sendResultBroadcastMsg_sends intro: sends_trans [OF sends_cache])

lemma inquiryRspAlreadyRL_cases:
  assumes "inquiryRspAlreadyRL env rsp c = Some c'"
  obtains (ignored) "c' = c"
  | (finished) r u mc c1 where "ir_RLResult rsp = Some r" "checkRLResult env (Some r) c = Some (Inr u)"
      "GenBroadcastMsgWithInquiryResult (ir_Type rsp) rsp (ct_selfCache c) = Inr mc"
      "sendResultBroadcastMsg env (c\<lparr>ct_selfCache := mc\<rparr>) = Some c1" "finishReelectWithRLConsensus env r c1 = Some c'"
  using assms by (auto simp: inquiryRspAlreadyRL_def split: Option.bind_splits sum.splits)

lemma inquiryRspAlreadyRL_moves:
  assumes "inquiryRspAlreadyRL env rsp c = Some c'"
  shows "moves env c c'"
  using assms
proof (cases rule: inquiryRspAlreadyRL_cases)
  case (finished r u mc c1)
  have s: "sends c c1" by (rule sends_trans [OF sends_cache sendResultBroadcastMsg_sends [OF finished(4)]])
  have "checkRLResult env (Some r) c1 = Some (Inr u)"
    using finished(2) checkRLResult_frame [of c1 c] sends_fields [OF s] by simp
  with finished(5) have "moves env c1 c'" by (rule finishReelectWithRLConsensus_moves)
  with s show ?thesis by (rule sends_moves)
qed (simp add: stays_moves)

lemma handleInquiryRsp_moves: "handleInquiryRsp env m c = Some c' \<Longrightarrow> moves env c c'"
  by (auto simp: handleInquiryRsp_def split: Option.bind_splits if_splits
      intro: stays_moves inquiryRspAlreadyRL_moves sends_stays
      dest!: inquiryRspPOS_sends inquiryRspAgree_sends processNewBlockReadyRsp_sends)

lemma handleRLVote_sends:
  assumes "handleRLVote env (Some m) c = Some c'"
  shows "sends c c'"
proof (cases "SaveRLVote (e_crypto env) (e_chain env) (ct_dc c) (cv_SignHash m) (cv_Sign m) (cv_From m) (ct_selfCache c)")
  case (Inr mc)
  with assms obtain r where r: "countVotes env (GetRLVotes mc) (c\<lparr>ct_selfCache := mc\<rparr>) = Some r"
    by (auto simp: handleRLVote_def Let_def split: Option.bind_splits)
  with assms Inr show ?thesis
    by (cases r) (auto simp: handleRLVote_def Let_def split: sum.splits
        dest!: sendResultBroadcastMsg_sends intro: sends_trans [OF sends_cache])
qed (use assms in \<open>simp add: handleRLVote_def\<close>)

lemma handleBroadcastMsg_moves: "handleBroadcastMsg env m c = Some c' \<Longrightarrow> moves env c c'"
  by (auto simp: handleBroadcastMsg_def bind_eq_Some_conv stays_moves split: option.splits if_splits
      dest!: processResultBroadcastMsg_moves sendResultBroadcastRsp_sends sends_stays intro: moves_stays)

lemma handleBroadcastRsp_cases:
  assumes "handleBroadcastRsp env (Some rsp) c = Some c'"
  obtains (ignored) "c' = c"
  | (saved) mc where "SaveBroadcastVote (e_crypto env) (e_chain env) (ct_dc c) (rr_ResultHash rsp) (rr_Sign rsp)
        (rr_From rsp) (ct_selfCache c) = Inr mc" "c' = c\<lparr>ct_selfCache := mc\<rparr>"
  | (processed) mc msg err where "SaveBroadcastVote (e_crypto env) (e_chain env) (ct_dc c) (rr_ResultHash rsp) (rr_Sign rsp)
        (rr_From rsp) (ct_selfCache c) = Inr mc" "GetLocalBroadcastMsg mc = Inr msg"
      "processResultBroadcastMsg env msg (c\<lparr>ct_selfCache := mc\<rparr>) = Some (err, c')"
proof (cases "SaveBroadcastVote (e_crypto env) (e_chain env) (ct_dc c) (rr_ResultHash rsp) (rr_Sign rsp)
    (rr_From rsp) (ct_selfCache c)")
  case (Inr mc)
  with assms obtain r where r: "countVotes env (GetBroadcastVotes mc) (c\<lparr>ct_selfCache := mc\<rparr>) = Some r"
    by (auto simp: handleBroadcastRsp_def Let_def split: Option.bind_splits)
  show ?thesis
  proof (cases "isl r \<or> isl (GetLocalBroadcastMsg mc)")
    case True
    with assms Inr r have "c' = c\<lparr>ct_selfCache := mc\<rparr>"
      by (cases r; cases "GetLocalBroadcastMsg mc") (simp_all add: handleBroadcastRsp_def)
    with Inr show ?thesis by (rule saved)
  next
    case False
    then obtain rs msg where "r = Inr rs" "GetLocalBroadcastMsg mc = Inr msg"
      by (cases r; cases "GetLocalBroadcastMsg mc") simp_all
    moreover from this assms Inr r obtain err where "processResultBroadcastMsg env msg (c\<lparr>ct_selfCache := mc\<rparr>) = Some (err, c')"
      by (auto simp: handleBroadcastRsp_def Let_def split: Option.bind_splits)
    ultimately show ?thesis using processed Inr by blast
  qed
qed (use assms ignored in \<open>simp add: handleBroadcastRsp_def\<close>)

lemma handleBroadcastRsp_moves:
  assumes "handleBroadcastRsp env (Some rsp) c = Some c'"
  shows "moves env c c'"
  using assms
proof (cases rule: handleBroadcastRsp_cases)
  case (processed mc msg err)
  show ?thesis by (rule sends_moves [OF sends_cache processResultBroadcastMsg_moves [OF processed(3)]])
qed (simp_all add: stays_moves sends_stays)

lemma reelectTimeOutHandle_cases:
  assumes "reelectTimeOutHandle env c = Some c'"
  obtains (ignored) "State c \<noteq> stReelect" "c' = c"
  | (sent) c1 where "State c = stReelect" "sends c c1"
      "c' = c1\<lparr>ct_reelectTimer := setTimer (tt_reelectHandleInterval (dc_turnTime (ct_dc c)))\<rparr>"
proof (cases "State c = stReelect")
  case True
  let ?r = "GetInquiryResult (ct_selfCache c)"
  let ?op = "if ?r = ReelectRSPTypeNone then sendInquiryReq env c
    else if ?r = ReelectRSPTypeAgree then sendRLReq env c
    else if ?r = ReelectRSPTypePOS \<or> ?r = ReelectRSPTypeAlreadyRL then sendResultBroadcastMsg env c else Some c"
  have "\<exists>c1. ?op = Some c1 \<and> c' = c1\<lparr>ct_reelectTimer := setTimer (tt_reelectHandleInterval (dc_turnTime (ct_dc c1)))\<rparr>"
    using assms True unfolding reelectTimeOutHandle_def Let_def by (auto simp: bind_eq_Some_conv)
  then obtain c1 where op: "?op = Some c1"
    and c': "c' = c1\<lparr>ct_reelectTimer := setTimer (tt_reelectHandleInterval (dc_turnTime (ct_dc c1)))\<rparr>" by blast
  from op have "sends c c1" by (auto dest: sending split: if_splits)
  with True c' sent show ?thesis by (simp add: sends_fields)
next
  case False
  with assms have "c' = c" by (simp add: reelectTimeOutHandle_def)
  with False show ?thesis by (rule ignored)
qed

lemma reelectTimeOutHandle_stays:
  assumes "reelectTimeOutHandle env c = Some c'"
  shows "stays c c'"
  using assms
proof (cases rule: reelectTimeOutHandle_cases)
  case (sent c1)
  have "stays c1 c'" unfolding sent(3) by (simp add: stays_iff)
  with sent(2) show ?thesis by (blast intro: sends_stays stays_trans)
qed simp

lemma handleMsg_moves:
  assumes "handleMsg env m c = Some c'"
  shows "moves env c c'"
proof (cases m)
  case (InquiryRspMsg x)
  with assms handleInquiryRsp_moves show ?thesis by simp
next
  case (ResultBroadcastMsg x)
  with assms handleBroadcastMsg_moves show ?thesis by simp
next
  case (ResultBroadcastRspMsg x)
  with assms handleBroadcastRsp_moves show ?thesis by (cases x) (auto simp: handleBroadcastRsp_def stays_moves)
next
  case (RLVoteMsg x)
  with assms handleRLVote_sends show ?thesis by (cases x) (auto simp: handleRLVote_def stays_moves sends_stays)
qed (use assms in \<open>auto intro!: stays_moves dest: handleStartMsg_stays handleBlockPOSFinishedNotify_stays
      handleInquiryReq_sends handleRLReq_sends sends_stays\<close>)

lemma ctrlRun_moves:
  assumes "ctrlRun env ev c = Some c'"
  shows "moves env c c'"
proof (cases ev)
  case (MsgCh m)
  with assms handleMsg_moves show ?thesis by simp
next
  case TimerC
  have "stays c (c\<lparr>ct_timer := None\<rparr>)" by (simp add: stays_iff)
  with assms TimerC show ?thesis
    by (auto split: if_splits intro!: stays_moves dest!: timeOutHandle_stays elim: stays_trans)
next
  case ReelectTimerC
  have "stays c (c\<lparr>ct_reelectTimer := None\<rparr>)" by (simp add: stays_iff)
  with assms ReelectTimerC show ?thesis
    by (auto split: if_splits intro!: stays_moves dest!: reelectTimeOutHandle_stays elim: stays_trans)
qed

section \<open>Turns over a sequence of events\<close>

definition advances :: "controller \<Rightarrow> controller \<Rightarrow> bool" where
  "advances c c' \<longleftrightarrow> Number c' = Number c \<and> turnCmp (ConsensusTurn c) (ConsensusTurn c') \<le> 0
     \<and> prefix (ct_outs c) (ct_outs c')"

lemma moves_advances:
  assumes "moves env c c'"
  shows "advances c c'"
proof -
  have "turnCmp (ConsensusTurn c) turn \<le> 0" if "decided env c turn" for turn
  proof -
    from that obtain r req inq where "checkRLResult env (Some r) c = Some (Inr ())" "rc_Req r = Some req"
      "lr_InquiryReq req = Some inq" "turn = calcNextConsensusTurn (iq_ConsensusTurn inq) (iq_ReelectTurn inq)"
      by (auto simp: decided_def)
    then show ?thesis by (auto elim!: checkRLResult_cases simp: turn.not_less)
  qed
  with assms show ?thesis by (auto simp: moves_def follows_def advances_def turn.cmp_refl)
qed

interpretation ctrl: message_machine "\<lambda>(env, ev). ctrlRun env ev" "\<lambda>c. leadersOK (ct_dc c)" advances
proof
  fix s s' t u :: controller and m :: "Env \<times> ctrlEvent"
  obtain env ev where m: "m = (env, ev)" by fastforce
  assume ok: "leadersOK (ct_dc s)"
  assume "(case m of (env, ev) \<Rightarrow> ctrlRun env ev) s = Some s'"
  then have mv: "moves env s s'" using ctrlRun_moves by (simp add: m)
  then show "leadersOK (ct_dc s')" using ok by (simp add: moves_def follows_def)
  from mv show "advances s s'" by (rule moves_advances)
next
  fix s t u
  show "advances s s" by (simp add: advances_def turn.cmp_refl)
  show "advances s t \<Longrightarrow> advances t u \<Longrightarrow> advances s u"
    unfolding advances_def using turn.le_trans prefix_order.trans by (metis (no_types, lifting))
qed

lemma ctrl_run: "ctrl.run evs = ctrlRuns evs"
proof (induction evs)
  case (Cons m evs)
  show ?case by (rule ext, cases m) (simp add: Cons.IH)
qed (simp add: fun_eq_iff)

end
