(* ===== verification/CtrlReturns.thy ===== *)
theory CtrlReturns
  imports CtrlTurns
begin

text \<open>
  No event ends the process: under an invariant of the controller, for messages without the nil
  pointers the code does not check, every handler returns and keeps the invariant.
\<close>

section \<open>The invariant\<close>

text \<open>The pools of the master's cache hold the kind of request they are for.\<close>

definition resultOK :: "HD_V2_ReelectLeaderConsensus \<Rightarrow> bool" where
  "resultOK r \<longleftrightarrow> (\<exists>req inquiry. rc_Req r = Some req \<and> lr_InquiryReq req = Some inquiry)"

definition broadcastOK :: "HD_V2_ReelectBroadcastMsg \<Rightarrow> bool" where
  "broadcastOK b \<longleftrightarrow> (\<forall>p. rb_POSResult b = Some p \<longrightarrow> bq_Header p \<noteq> None)
     \<and> (\<forall>r. rb_RLResult b = Some r \<longrightarrow> resultOK r)"

fun inquirySlot :: "reqMsg \<Rightarrow> bool" where
  "inquirySlot NilMsg = True"
| "inquirySlot (InquiryMsg m) = True"
| "inquirySlot _ = False"

fun leaderSlot :: "reqMsg \<Rightarrow> bool" where
  "leaderSlot NilMsg = True"
| "leaderSlot (LeaderReqMsg m) = (lr_InquiryReq m \<noteq> None)"
| "leaderSlot _ = False"

fun broadcastSlot :: "reqMsg \<Rightarrow> bool" where
  "broadcastSlot NilMsg = True"
| "broadcastSlot (BroadcastMsg m) = broadcastOK m"
| "broadcastSlot _ = False"

definition cacheOK :: "masterCache \<Rightarrow> bool" where
  "cacheOK mc \<longleftrightarrow> inquirySlot (pp_reqMsg (mc_inquiryPool mc)) \<and> leaderSlot (pp_reqMsg (mc_rlReqPool mc))
     \<and> broadcastSlot (pp_reqMsg (mc_broadcastPool mc))"

definition cacheEmpty :: "masterCache \<Rightarrow> bool" where
  "cacheEmpty mc \<longleftrightarrow> pp_reqMsg (mc_inquiryPool mc) = NilMsg \<and> pp_reqMsg (mc_rlReqPool mc) = NilMsg
     \<and> pp_reqMsg (mc_broadcastPool mc) = NilMsg"

text \<open>Before the parent header is known, the controller is idle and has no leader and no request.\<close>

definition started :: "controller \<Rightarrow> bool" where
  "started c \<longleftrightarrow> mp_parentHeader (ct_mp c) \<noteq> None"

definition ctrlOK :: "controller \<Rightarrow> bool" where
  "ctrlOK c \<longleftrightarrow> mpOK (ct_mp c) \<and> cacheOK (ct_selfCache c) \<and> intervalOK (dc_bcInterval (ct_dc c))
     \<and> (started c \<or> State c = stIdle \<and> dc_consensusLeader (ct_dc c) = 0
          \<and> tt_beginTime (dc_turnTime (ct_dc c)) = 0 \<and> cacheEmpty (ct_selfCache c))"

lemma ctrlOK_started:
  "started c \<Longrightarrow> ctrlOK c \<longleftrightarrow> mpOK (ct_mp c) \<and> cacheOK (ct_selfCache c) \<and> intervalOK (dc_bcInterval (ct_dc c))"
  by (simp add: ctrlOK_def)

lemma started_state: "ctrlOK c \<Longrightarrow> State c \<noteq> stIdle \<Longrightarrow> started c"
  by (auto simp: ctrlOK_def)

lemma started_cache: "ctrlOK c \<Longrightarrow> \<not> cacheEmpty (ct_selfCache c) \<Longrightarrow> started c"
  by (auto simp: ctrlOK_def)

section \<open>The master's cache\<close>

lemma saveVoteMsg_req:
  assumes "saveVoteMsg cr chain dc h sign peer pp = Inr pp'"
  shows "pp_reqMsg pp' = pp_reqMsg pp \<and> pp_reqMsg pp \<noteq> NilMsg"
  using assms by (cases rule: saveVoteMsg_cases) simp

lemma SaveVote_cache:
  assumes "SaveInquiryVote cr chain dc h sign peer mc = Inr mc' \<or> SaveRLVote cr chain dc h sign peer mc = Inr mc'
    \<or> SaveBroadcastVote cr chain dc h sign peer mc = Inr mc'"
  shows "cacheOK mc' = cacheOK mc \<and> \<not> cacheEmpty mc \<and> \<not> cacheEmpty mc'"
  using assms
  by (auto simp: SaveInquiryVote_def SaveRLVote_def SaveBroadcastVote_def cacheOK_def cacheEmpty_def
      dest!: saveVoteMsg_req split: sum.splits)

lemma SaveVote_OK:
  shows "SaveInquiryVote cr chain dc h sign peer mc = Inr mc' \<Longrightarrow> cacheOK mc \<Longrightarrow> cacheOK mc'"
    and "SaveRLVote cr chain dc h sign peer mc = Inr mc' \<Longrightarrow> cacheOK mc \<Longrightarrow> cacheOK mc'"
    and "SaveBroadcastVote cr chain dc h sign peer mc = Inr mc' \<Longrightarrow> cacheOK mc \<Longrightarrow> cacheOK mc'"
  using SaveVote_cache [of cr chain dc h sign peer mc mc'] by blast+

lemma ClearSelfInquiryMsg_OK [simp]: "cacheOK (ClearSelfInquiryMsg mc)" "cacheEmpty (ClearSelfInquiryMsg mc)"
  by (simp_all add: ClearSelfInquiryMsg_def cacheOK_def cacheEmpty_def pp_clear_def)

lemma newMasterCache_OK: "cacheOK (newMasterCache n)" "cacheEmpty (newMasterCache n)"
  by (simp_all add: newMasterCache_def cacheOK_def cacheEmpty_def newPosPool_def)

lemma SaveInquiryReq_OK: "\<exists>h mc'. SaveInquiryReq cr req mc = Some (h, mc') \<and> cacheOK mc'"
  by (auto simp: SaveInquiryReq_def ClearSelfInquiryMsg_def saveReqMsgAndHash_def Let_def cacheOK_def pp_clear_def)

lemma GenRLReqMsg_OK: "cacheOK mc \<Longrightarrow> GenRLReqMsg signs mc = (e, mc') \<Longrightarrow> cacheOK mc'"
  by (auto simp: GenRLReqMsg_def cacheOK_def Let_def saveReqMsg_def pp_clear_def getReqMsg_def
      split: if_splits reqMsg.splits)

lemma GetRLReqMsg_OK:
  "cacheOK mc \<Longrightarrow> \<exists>r. GetRLReqMsg cr now mc = Some r \<and> (\<forall>req h mc'. r = Inr (req, h, mc') \<longrightarrow> cacheOK mc')"
  by (cases "pp_reqMsg (mc_rlReqPool mc)")
    (auto simp: GetRLReqMsg_def cacheOK_def saveReqMsgAndHash_def getReqMsg_def Let_def)

lemma VBroadcastMsg_total: "broadcastOK b \<Longrightarrow> \<exists>v. VBroadcastMsg b = Some v"
  by (auto simp: VBroadcastMsg_def VBlkConsensusReq_def broadcastOK_def split: option.splits)

lemma GetBroadcastMsg_OK:
  assumes "cacheOK mc"
  shows "\<exists>r. GetBroadcastMsg cr mc = Some r \<and> (\<forall>b h mc'. r = Inr (b, h, mc') \<longrightarrow> cacheOK mc')"
proof (cases "pp_reqMsg (mc_broadcastPool mc)")
  case (BroadcastMsg b)
  with assms have "broadcastOK b" by (simp add: cacheOK_def)
  with VBroadcastMsg_total obtain v where "VBroadcastMsg b = Some v" by blast
  with BroadcastMsg assms show ?thesis
    by (simp add: GetBroadcastMsg_def getReqMsg_def saveReqMsgAndHash_def cacheOK_def)
qed (simp_all add: GetBroadcastMsg_def getReqMsg_def)

lemma GetLocalBroadcastMsg_OK: "cacheOK mc \<Longrightarrow> GetLocalBroadcastMsg mc = Inr b \<Longrightarrow> broadcastOK b"
  by (auto simp: GetLocalBroadcastMsg_def cacheOK_def getReqMsg_def split: reqMsg.splits)

lemma GenBroadcastMsgWithInquiryResult_OK:
  assumes "cacheOK mc" "GenBroadcastMsgWithInquiryResult t rsp mc = Inr mc'"
    and "\<And>p. ir_POSResult rsp = Some p \<Longrightarrow> bq_Header p \<noteq> None" "\<And>r. ir_RLResult rsp = Some r \<Longrightarrow> resultOK r"
  shows "cacheOK mc'"
  using assms
  by (auto simp: GenBroadcastMsgWithInquiryResult_def cacheOK_def Let_def saveReqMsg_def pp_clear_def broadcastOK_def
      split: if_splits)

lemma GenBroadcastMsgWithRLSuccess_OK:
  assumes "cacheOK mc" "GenBroadcastMsgWithRLSuccess votes mc = Inr mc'"
  shows "cacheOK mc'"
  using assms
  by (cases "pp_reqMsg (mc_rlReqPool mc)")
    (auto simp: GenBroadcastMsgWithRLSuccess_def cacheOK_def Let_def saveReqMsg_def pp_clear_def broadcastOK_def
      resultOK_def getReqMsg_def split: if_splits)

section \<open>Results that are fine\<close>

text \<open>A handler that returns a controller with the invariant.\<close>

definition fine :: "controller option \<Rightarrow> bool" where
  "fine r \<longleftrightarrow> (\<exists>c. r = Some c \<and> ctrlOK c)"

lemma fine_Some [simp]: "fine (Some c) = ctrlOK c"
  by (simp add: fine_def)

lemma fineE: "fine r \<Longrightarrow> (\<And>c. r = Some c \<Longrightarrow> ctrlOK c \<Longrightarrow> P) \<Longrightarrow> P"
  by (auto simp: fine_def)

lemma ctrlOK_frame [simp]:
  "ctrlOK (emit out c) = ctrlOK c" "ctrlOK (c\<lparr>ct_timer := t\<rparr>) = ctrlOK c" "ctrlOK (c\<lparr>ct_reelectTimer := t\<rparr>) = ctrlOK c"
  "ctrlOK (c\<lparr>ct_outs := os\<rparr>) = ctrlOK c"
  by (simp_all add: ctrlOK_def emit_def started_def State_def)

lemma started_frame [simp]:
  "started (emit out c) = started c" "started (c\<lparr>ct_timer := t\<rparr>) = started c" "started (c\<lparr>ct_reelectTimer := t\<rparr>) = started c"
  "started (c\<lparr>ct_dc := dc\<rparr>) = started c" "started (c\<lparr>ct_selfCache := mc\<rparr>) = started c" "started (c\<lparr>ct_outs := os\<rparr>) = started c"
  by (simp_all add: emit_def started_def)

lemma ctrlOK_cache: "ctrlOK c \<Longrightarrow> started c \<Longrightarrow> cacheOK mc \<Longrightarrow> ctrlOK (c\<lparr>ct_selfCache := mc\<rparr>)"
  by (simp add: ctrlOK_started)

lemma ctrlOK_dc: "ctrlOK c \<Longrightarrow> started c \<Longrightarrow> intervalOK (dc_bcInterval dc) \<Longrightarrow> ctrlOK (c\<lparr>ct_dc := dc\<rparr>)"
  by (simp add: ctrlOK_started)

lemma ctrlOK_parts:
  assumes "ctrlOK c"
  shows "mpOK (ct_mp c)" "cacheOK (ct_selfCache c)" "intervalOK (dc_bcInterval (ct_dc c))"
  using assms by (simp_all add: ctrlOK_def)

lemma publishLeaderMsg_fine:
  assumes "ctrlOK c"
  shows "fine (publishLeaderMsg c)"
proof -
  from PrepareLeaderMsg_total [OF ctrlOK_parts(3) [OF assms]] obtain r where "PrepareLeaderMsg (ct_dc c) = Some r" by blast
  then show ?thesis using assms by (cases r) (simp_all add: publishLeaderMsg_def)
qed

lemma sendInquiryReq_fine:
  assumes "ctrlOK c" "started c"
  shows "fine (sendInquiryReq env c)"
proof -
  from assms(2) obtain h where h: "mp_parentHeader (ct_mp c) = Some h" by (auto simp: started_def)
  obtain rh mc where s: "SaveInquiryReq (e_crypto env) (inquiryOf env c h) (ct_selfCache c) = Some (rh, mc)" "cacheOK mc"
    using SaveInquiryReq_OK by blast
  show ?thesis using assms s
    by (auto simp: sendInquiryReq_def h Let_def intro!: ctrlOK_cache dest: SaveVote_OK split: sum.split)
qed

lemma sendInquiryReqToSingle_fine:
  assumes "ctrlOK c" "started c"
  shows "fine (sendInquiryReqToSingle env t c)"
proof -
  from assms(2) obtain h where h: "mp_parentHeader (ct_mp c) = Some h" by (auto simp: started_def)
  obtain rh mc where s: "SaveInquiryReq (e_crypto env) (inquiryOf env c h) (ct_selfCache c) = Some (rh, mc)" "cacheOK mc"
    using SaveInquiryReq_OK by blast
  then have "cacheOK (SetLastSingleInquiryReqTime t mc)" for t by (simp add: SetLastSingleInquiryReqTime_def cacheOK_def)
  with assms s show ?thesis by (simp add: sendInquiryReqToSingle_def h ctrlOK_cache)
qed

lemma inquireUnlessMaster_fine: "ctrlOK c \<Longrightarrow> started c \<Longrightarrow> fine (inquireUnlessMaster env t c)"
  by (simp add: inquireUnlessMaster_def sendInquiryReqToSingle_fine)

lemma sendRLReq_fine:
  assumes "ctrlOK c" "started c"
  shows "fine (sendRLReq env c)"
proof -
  from GetRLReqMsg_OK [OF ctrlOK_parts(2) [OF assms(1)], of "e_crypto env" "e_now env"] obtain r where
    r: "GetRLReqMsg (e_crypto env) (e_now env) (ct_selfCache c) = Some r"
    "\<And>req h mc. r = Inr (req, h, mc) \<Longrightarrow> cacheOK mc" by blast
  show ?thesis
  proof (cases r)
    case (Inr x)
    obtain req h mc where x: "x = (req, h, mc)" by (metis prod_cases3)
    with r Inr have "cacheOK mc" by blast
    with assms r Inr x show ?thesis
      by (auto simp: sendRLReq_def Let_def intro!: ctrlOK_cache dest: SaveVote_OK split: sum.split)
  qed (use assms r in \<open>simp add: sendRLReq_def\<close>)
qed

lemma sendResultBroadcastMsg_fine:
  assumes "ctrlOK c" "started c"
  shows "fine (sendResultBroadcastMsg env c)"
proof -
  from GetBroadcastMsg_OK [OF ctrlOK_parts(2) [OF assms(1)], of "e_crypto env"] obtain r where
    r: "GetBroadcastMsg (e_crypto env) (ct_selfCache c) = Some r"
    "\<And>b h mc. r = Inr (b, h, mc) \<Longrightarrow> cacheOK mc" by blast
  show ?thesis
  proof (cases r)
    case (Inr x)
    obtain b h mc where x: "x = (b, h, mc)" by (metis prod_cases3)
    with r Inr have "cacheOK mc" by blast
    with assms r Inr x show ?thesis
      by (auto simp: sendResultBroadcastMsg_def Let_def intro!: ctrlOK_cache dest: SaveVote_OK split: sum.split)
  qed (use assms r in \<open>simp add: sendResultBroadcastMsg_def\<close>)
qed

section \<open>Phases\<close>

lemma processPOSState_fine:
  assumes "ctrlOK c"
  shows "fine (processPOSState c)"
proof (cases "State c = stPos")
  case True
  then have st: "started c" using assms started_state by simp
  from GetPOSNotifyMsg_total [OF ctrlOK_parts(1) [OF assms]] obtain r where
    "GetPOSNotifyMsg (ct_mp c) (GetConsensusLeader (ct_dc c)) (dc_curConsensusTurn (ct_dc c)) = Some r" by blast
  with assms st True show ?thesis
    by (cases r) (simp_all add: processPOSState_def ctrlOK_dc ctrlOK_parts(3))
qed (use assms in \<open>simp add: processPOSState_def\<close>)

lemma SetReelectTurn_interval: "SetReelectTurn turn dc = Some (Inr dc') \<Longrightarrow> dc_bcInterval dc' = dc_bcInterval dc"
  by (auto elim: SetReelectTurn_cases)

lemma startReelect_fine:
  assumes "ctrlOK c"
  shows "fine (startReelect env turn c)"
proof (cases "State c = stReelect \<and> dc_curReelectTurn (ct_dc c) \<noteq> turn")
  case True
  then have st: "started c" using assms started_state by simp
  from SetReelectTurn_total [OF ctrlOK_parts(3) [OF assms]] obtain r where
    r: "SetReelectTurn turn (ct_dc c) = Some r" by blast
  show ?thesis
  proof (cases r)
    case (Inr dc)
    then have i: "intervalOK (dc_bcInterval dc)"
      using r SetReelectTurn_interval ctrlOK_parts(3) [OF assms] by metis
    let ?c = "\<lambda>m t. c\<lparr>ct_dc := dc\<lparr>dc_isMaster := m\<rparr>, ct_reelectTimer := t\<rparr>"
    have c: "ctrlOK (?c m t)" "started (?c m t)" for m t using assms st i by (simp_all add: ctrlOK_dc)
    have "fine (if GetReelectMaster dc = dc_selfAddr dc then sendInquiryReq env (?c True t) else Some (?c False t'))" for t t'
      using c sendInquiryReq_fine by simp
    then obtain c' where c': "(if GetReelectMaster dc = dc_selfAddr dc
        then sendInquiryReq env (?c True (setTimer (tt_reelectHandleInterval (dc_turnTime dc))))
        else Some (?c False (setTimer 0))) = Some c'" "ctrlOK c'" by (blast elim: fineE)
    have "startReelect env turn c = publishLeaderMsg c'"
      using True r Inr c'(1) by (simp only: startReelect_def) simp
    with c'(2) publishLeaderMsg_fine show ?thesis by simp
  qed (use assms True r in \<open>simp add: startReelect_def\<close>)
qed (use assms in \<open>auto simp: startReelect_def\<close>)

lemma enterTurn_fine:
  assumes "ctrlOK c" "started c"
  shows "fine (enterTurn env (st, remainTime, turn) c)"
proof -
  let ?c = "c\<lparr>ct_dc := (ct_dc c)\<lparr>dc_state := st, dc_curReelectTurn := 0\<rparr>, ct_timer := setTimer remainTime\<rparr>"
  have ok: "ctrlOK ?c" using assms ctrlOK_parts(3) [OF assms(1)] by (simp add: ctrlOK_dc)
  show ?thesis
    using processPOSState_fine [OF ok] startReelect_fine [OF ok] ok by (auto simp: enterTurn_def Let_def)
qed

lemma timeOutHandle_fine:
  assumes "ctrlOK c"
  shows "fine (timeOutHandle env c)"
proof (cases "State c = stPos \<or> State c = stReelect")
  case True
  then have "started c" using assms started_state by auto
  then have "ctrlOK (c\<lparr>ct_timer := t, ct_dc := (ct_dc c)\<lparr>dc_state := st\<rparr>\<rparr>)" for t st
    using assms ctrlOK_parts(3) [OF assms] by (simp add: ctrlOK_started started_def)
  then show ?thesis using True startReelect_fine by (auto simp: timeOutHandle_def split: prod.split)
qed (use assms in \<open>simp add: timeOutHandle_def split: prod.split\<close>)

lemma handleBlockPOSFinishedNotify_fine:
  assumes "ctrlOK c"
  shows "fine (handleBlockPOSFinishedNotify m c)"
proof (cases "m = None \<or> pn_Header (the m) = None")
  case False
  then obtain msg where m: "m = Some msg" "pn_Header msg \<noteq> None" by auto
  from SavePOSNotifyMsg_total [OF ctrlOK_parts(1) [OF assms]] obtain r where r: "SavePOSNotifyMsg msg (ct_mp c) = Some r" by blast
  have "ctrlOK (c\<lparr>ct_mp := mp\<rparr>)" if "r = Inr mp" for mp
  proof -
    have "mpOK mp" "mp_parentHeader mp = mp_parentHeader (ct_mp c)"
      using r that SavePOSNotifyMsg_OK [OF ctrlOK_parts(1) [OF assms], of msg mp]
        SavePOSNotifyMsg_key [OF ctrlOK_parts(1) [OF assms], of msg mp] by simp_all
    with assms show ?thesis by (simp add: ctrlOK_def started_def State_def)
  qed
  with m r assms processPOSState_fine show ?thesis
    by (cases r) (simp_all add: handleBlockPOSFinishedNotify_def)
qed (use assms in \<open>auto simp: handleBlockPOSFinishedNotify_def split: option.split\<close>)

section \<open>Starting a height\<close>

text \<open>
  A start message with a parent of positive time, whose state has a positive broadcast period and
  from which the chain leads back to an ordinary block.
\<close>

definition startOK :: "BlockChain \<Rightarrow> startControllerMsg \<Rightarrow> bool" where
  "startOK chain msg \<longleftrightarrow>
     (\<forall>h st bc. sc_parentHeader msg = Some h \<longrightarrow> sc_parentStateDB msg = Some st \<longrightarrow> st_BroadcastInterval st = Inr bc
        \<longrightarrow> 0 < i64 (h_Time h) \<and> BCInterval bc \<noteq> 0 \<and> headersNumbered (bc_GetHeader chain)
            \<and> (\<exists>f s. preLeaderPath (bc_GetHeader chain) bc h f s))"

lemma calLeaderList_total: "BCInterval bc \<noteq> 0 \<Longrightarrow> \<exists>ll. calLeaderList l n s vs bc = Some ll"
  using schedule_total(2) [of bc "n - 1"] schedule_total(2) [of bc n]
  by (auto simp: calLeaderList_def leaderStartPos_def)

lemma applyState_total: "BCInterval bc \<noteq> 0 \<Longrightarrow> \<exists>r. applyState st role config bc dc = Some r"
proof -
  assume "BCInterval bc \<noteq> 0"
  then have i: "intervalOK (Some bc)" by (simp add: intervalOK_def)
  let ?i = "TotalTurns (dc_curConsensusTurn dc)"
  obtain r m where "cdcGetLeader dc ?i (Some bc) = Some r" "cdcGetLeader dc (?i + dc_curReelectTurn dc) (Some bc) = Some m"
    using cdcGetLeader_total [OF i] by metis
  then show ?thesis by (cases r; cases m) (auto simp: applyState_def Let_def SetTimeConfig_def)
qed

lemma AnalysisState_total:
  assumes "startOK chain msg" "sc_parentHeader msg = Some h"
  shows "\<exists>r. AnalysisState cr chain (Some h) (sc_parentStateDB msg) dc = Some r"
proof (cases "sc_parentStateDB msg")
  case (Some st)
  show ?thesis
  proof (cases "st_BroadcastInterval st")
    case (Inr bc)
    with assms Some have ok: "BCInterval bc \<noteq> 0" "headersNumbered (bc_GetHeader chain)"
      "\<exists>f s. preLeaderPath (bc_GetHeader chain) bc h f s" by (auto simp: startOK_def)
    then obtain l s where "getRealPreLeader (bc_GetHeader chain) h bc = Some (Inr (l, s))"
      using getRealPreLeader_path by blast
    then have "\<exists>lc. SetValidatorsAndSpecials cr (bc_GetHeader chain) (Some h) (Some v) (Some sp) (Some bc)
        (dc_leaderCal dc) = Some (Inr lc)" for v sp
    proof -
      obtain ll where "calLeaderList l (lc_number (dc_leaderCal dc)) s v bc = Some ll"
        using calLeaderList_total [OF ok(1)] by blast
      with \<open>getRealPreLeader (bc_GetHeader chain) h bc = Some (Inr (l, s))\<close> show ?thesis
        by (simp add: SetValidatorsAndSpecials_def)
    qed
    then obtain lc where lc: "SetValidatorsAndSpecials cr (bc_GetHeader chain) (Some h) (Some v) (Some sp) (Some bc)
        (dc_leaderCal dc) = Some (Inr (lc v sp))" for v sp by metis
    show ?thesis
      using Some Inr applyState_total [OF ok(1)]
      by (simp add: AnalysisState_def readBroadCastIntervalFromState_def lc split: sum.split)
  qed (use Some in \<open>simp add: AnalysisState_def readBroadCastIntervalFromState_def split: sum.split\<close>)
qed (simp add: AnalysisState_def)

lemma AnalysisState_interval:
  assumes "startOK chain msg" "sc_parentHeader msg = Some h" "intervalOK (dc_bcInterval dc)"
    and "AnalysisState cr chain (Some h) (sc_parentStateDB msg) dc = Some (err, dc')"
  shows "intervalOK (dc_bcInterval dc')"
    and "err \<noteq> None \<Longrightarrow> dc_consensusLeader dc' = dc_consensusLeader dc"
    and "err = None \<Longrightarrow> 0 < i64 (h_Time h) \<and> dc_bcInterval dc' \<noteq> None"
proof -
  have "intervalOK (dc_bcInterval dc') \<and> (err \<noteq> None \<longrightarrow> dc_consensusLeader dc' = dc_consensusLeader dc)
    \<and> (err = None \<longrightarrow> 0 < i64 (h_Time h) \<and> dc_bcInterval dc' \<noteq> None)"
    using assms(4)
  proof (cases rule: AnalysisState_cases)
    case (analysed st h' validators role specials config bc lc)
    then have "0 < i64 (h_Time h) \<and> BCInterval bc \<noteq> 0" using assms(1,2) by (simp add: startOK_def)
    with analysed(8) assms(3) show ?thesis
      by (cases rule: applyState_cases) (auto simp: intervalOK_def)
  qed (use assms(3) in simp)
  then show "intervalOK (dc_bcInterval dc')" "err \<noteq> None \<Longrightarrow> dc_consensusLeader dc' = dc_consensusLeader dc"
    "err = None \<Longrightarrow> 0 < i64 (h_Time h) \<and> dc_bcInterval dc' \<noteq> None" by blast+
qed

lemma publishLeaderMsg_outs:
  assumes "intervalOK (dc_bcInterval (ct_dc c))"
  shows "\<exists>os. publishLeaderMsg c = Some (c\<lparr>ct_outs := ct_outs c @ os\<rparr>)"
proof -
  from PrepareLeaderMsg_total [OF assms] obtain r where "PrepareLeaderMsg (ct_dc c) = Some r" by blast
  then show ?thesis
    by (cases r) (auto simp: publishLeaderMsg_def emit_def intro: exI [of _ "[]"])
qed

lemma SaveParentHeader_Some: "mp_parentHeader (SaveParentHeader (Some h) mp) = Some h"
  by (simp add: SaveParentHeader_def)

lemma startTurn_fine:
  assumes "mpOK (ct_mp c)" "cacheOK (ct_selfCache c)" "intervalOK (dc_bcInterval (ct_dc c))"
    and "started c \<or> tt_beginTime (dc_turnTime (ct_dc c)) = 0" "0 < i64 (h_Time h)"
  shows "fine (startTurn env h c)"
proof (cases "i64 (h_Time h) \<le> tt_beginTime (dc_turnTime (ct_dc c))")
  case True
  then have "startTurn env h c = publishLeaderMsg c" by (simp add: startTurn_def SetBeginTime_def)
  moreover have "ctrlOK c" using True assms by (auto simp: ctrlOK_started)
  ultimately show ?thesis using publishLeaderMsg_fine by simp
next
  case False
  let ?tt = "(dc_turnTime (ct_dc c))\<lparr>tt_beginTime := i64 (h_Time h)\<rparr>"
  let ?c = "c\<lparr>ct_dc := (ct_dc c)\<lparr>dc_turnTime := ?tt\<rparr>, ct_mp := SaveParentHeader (Some h) (ct_mp c)\<rparr>"
  have st: "started ?c" by (simp add: started_def SaveParentHeader_Some)
  then have ok: "ctrlOK ?c" using assms by (simp add: ctrlOK_started SaveParentHeader_OK)
  obtain s r t where s: "CalState ?tt 0 (e_now env) = (s, r, t)" by (metis prod_cases3)
  have "fine (if isFirstConsensusTurn (ConsensusTurn ?c) then enterTurn env (CalState ?tt 0 (e_now env)) ?c else Some ?c)"
    using ok enterTurn_fine [OF ok st] by (simp add: s)
  then obtain c3 where "(if isFirstConsensusTurn (ConsensusTurn ?c) then enterTurn env (CalState ?tt 0 (e_now env)) ?c
      else Some ?c) = Some c3" "ctrlOK c3" by (rule fineE)
  moreover from this False have "startTurn env h c = publishLeaderMsg c3"
    by (simp add: startTurn_def SetBeginTime_def Let_def)
  ultimately show ?thesis using publishLeaderMsg_fine by simp
qed

lemma startAnalysed_fine:
  assumes "mpOK (ct_mp c)" "cacheOK (ct_selfCache c)" "intervalOK (dc_bcInterval (ct_dc c))"
    and "started c \<or> tt_beginTime (dc_turnTime (ct_dc c)) = 0" "0 < i64 (h_Time h)" "dc_bcInterval (ct_dc c) = Some bc"
  shows "fine (startAnalysed env h c)"
proof -
  obtain b where b: "IsBroadcastNumber bc (dc_number (ct_dc c)) = Some b"
    using assms(3,6) schedule_total(1) by (auto simp: intervalOK_def)
  obtain os where os: "publishLeaderMsg (c\<lparr>ct_dc := (ct_dc c)\<lparr>dc_state := stIdle\<rparr>\<rparr>)
      = Some (c\<lparr>ct_dc := (ct_dc c)\<lparr>dc_state := stIdle\<rparr>, ct_outs := ct_outs c @ os\<rparr>)"
    using publishLeaderMsg_outs [of "c\<lparr>ct_dc := (ct_dc c)\<lparr>dc_state := stIdle\<rparr>\<rparr>"] assms(3) by auto
  have "ctrlOK (c\<lparr>ct_mp := SaveParentHeader (Some h) (ct_mp c)\<rparr>)"
    "ctrlOK (c\<lparr>ct_outs := xs, ct_mp := SaveParentHeader (Some h) (ct_mp c), ct_dc := (ct_dc c)\<lparr>dc_state := st\<rparr>\<rparr>)" for st xs
    using assms by (simp_all add: ctrlOK_def started_def SaveParentHeader_Some SaveParentHeader_OK)
  then show ?thesis
    using assms(6) b os startTurn_fine [OF assms(1-5)] by (simp add: startAnalysed_def)
qed

lemma handleStartMsg_fine:
  assumes "ctrlOK c" "\<And>msg. m = Some msg \<Longrightarrow> startOK (e_chain env) msg"
  shows "fine (handleStartMsg env m c)"
proof -
  let ?c1 = "SetSelfAddress (sh_depositAddress (e_SignHelper env)) (sh_signAddress (e_SignHelper env)) c"
  have c1: "ctrlOK ?c1" "mpOK (ct_mp ?c1)" "cacheOK (ct_selfCache ?c1)" "intervalOK (dc_bcInterval (ct_dc ?c1))"
    using assms(1) by (auto simp: SetSelfAddress_def ctrlOK_def started_def State_def cacheOK_def cacheEmpty_def)
  have "fine (do { (err, dc) \<leftarrow> AnalysisState (e_crypto env) (e_chain env) (Some h) (sc_parentStateDB msg) (ct_dc ?c1);
                  if err \<noteq> None then Some (?c1\<lparr>ct_dc := dc\<rparr>) else startAnalysed env h (?c1\<lparr>ct_dc := dc\<rparr>) })"
    if m: "m = Some msg" "sc_parentHeader msg = Some h" for msg h
  proof -
    note ok = assms(2) [OF m(1)]
    from AnalysisState_total [OF ok m(2), of "e_crypto env" "ct_dc ?c1"] obtain err dc where
      a: "AnalysisState (e_crypto env) (e_chain env) (Some h) (sc_parentStateDB msg) (ct_dc ?c1) = Some (err, dc)" by auto
    note i = AnalysisState_interval [OF ok m(2) c1(4) a] and fr = AnalysisState_frame [OF a]
    show ?thesis
    proof (cases err)
      case None
      then obtain bc where "dc_bcInterval dc = Some bc" "0 < i64 (h_Time h)" using i(3) by auto
      with None a i(1) fr c1 startAnalysed_fine [of "?c1\<lparr>ct_dc := dc\<rparr>" h bc env] show ?thesis
        by (auto simp: ctrlOK_def)
    next
      case (Some e)
      with i fr c1 have "ctrlOK (?c1\<lparr>ct_dc := dc\<rparr>)" by (auto simp: ctrlOK_def State_def)
      with Some a show ?thesis by simp
    qed
  qed
  with assms(1) show ?thesis by (simp add: handleStartMsg_def Let_def split: option.split)
qed

section \<open>Results of a re-election\<close>

lemma finishReelectWithPOS_fine:
  assumes "ctrlOK c" "started c"
  shows "fine (finishReelectWithPOS p a c)"
proof -
  let ?dc = "(ct_dc c)\<lparr>dc_state := stMining\<rparr>"
  have "ctrlOK (c\<lparr>ct_outs := os, ct_timer := t, ct_reelectTimer := r, ct_dc := dc,
      ct_selfCache := ClearSelfInquiryMsg (ct_selfCache c)\<rparr>)" if "dc_bcInterval dc = dc_bcInterval (ct_dc c)" for os t r dc
    using that assms by (simp add: ctrlOK_started started_def)
  then show ?thesis
    using publishLeaderMsg_fine
    by (auto simp: finishReelectWithPOS_def SetReelectTurn_zero Let_def emit_def)
qed

lemma SaveRLConsensusMsg_parent: "mp_parentHeader (SaveRLConsensusMsg m mp) = mp_parentHeader mp"
  by (simp add: SaveRLConsensusMsg_def Let_def split: option.split)

lemma finishReelectWithRLConsensus_fine:
  assumes "ctrlOK c" "started c" "resultOK r"
  shows "fine (finishReelectWithRLConsensus env r c)"
proof -
  from assms(3) obtain req inq where r: "rc_Req r = Some req" "lr_InquiryReq req = Some inq" by (auto simp: resultOK_def)
  let ?turn = "calcNextConsensusTurn (iq_ConsensusTurn inq) (iq_ReelectTurn inq)"
  obtain s where s: "SetConsensusTurn ?turn (ct_dc c) = Some s"
    using SetConsensusTurn_total [OF ctrlOK_parts(3) [OF assms(1)]] by blast
  show ?thesis
  proof (cases s)
    case (Inr dc)
    then have i: "dc_bcInterval dc = dc_bcInterval (ct_dc c)" using s by (auto elim: SetConsensusTurn_cases)
    let ?c = "c\<lparr>ct_mp := SaveRLConsensusMsg (Some r) (ct_mp c), ct_reelectTimer := setTimer 0,
      ct_selfCache := ClearSelfInquiryMsg (ct_selfCache c), ct_dc := dc\<lparr>dc_isMaster := False\<rparr>\<rparr>"
    have st: "started ?c" using assms(2) by (simp add: started_def SaveRLConsensusMsg_parent)
    then have ok: "ctrlOK ?c" using assms i by (simp add: ctrlOK_started SaveRLConsensusMsg_OK)
    obtain x y z where cs: "CalState (dc_turnTime dc) (TotalTurns ?turn) (e_now env) = (x, y, z)" by (metis prod_cases3)
    from enterTurn_fine [OF ok st] obtain c' where "enterTurn env (x, y, z) ?c = Some c'" "ctrlOK c'" by (rule fineE)
    with r s Inr cs publishLeaderMsg_fine show ?thesis by (simp add: finishReelectWithRLConsensus_def Let_def)
  qed (use assms r s in \<open>simp add: finishReelectWithRLConsensus_def Let_def\<close>)
qed

lemma DPOSEngine_total: "DPOSEngine env version = Some (NewMtxDPOS (e_SimpleMode env))"
  by (simp add: DPOSEngine_def dposEngineMap_def Let_def map_specs)

lemma checkRLResult_total:
  assumes "\<And>r. m = Some r \<Longrightarrow> resultOK r"
  shows "\<exists>r. checkRLResult env m c = Some r"
  using assms
  by (cases m) (fastforce simp: checkRLResult_def resultOK_def DPOSEngine_total Let_def split: option.split)+

text \<open>The chain has no broadcast period of 0.\<close>

definition envOK :: "Env \<Rightarrow> bool" where
  "envOK env \<longleftrightarrow> (\<forall>h bc. chainGetBroadcastIntervalByHash (e_chain env) h = Inr bc \<longrightarrow> BCInterval bc \<noteq> 0)"

lemma VerifyBlock_total:
  assumes "\<And>h bc. sr_GetBroadcastIntervalByHash reader h = Inr bc \<Longrightarrow> BCInterval bc \<noteq> 0"
  shows "\<exists>r. VerifyBlock md cr reader (Some header) = Some r"
proof (cases "sr_GetBroadcastIntervalByHash reader (h_ParentHash header)")
  case (Inr bc)
  then obtain b where "IsBroadcastNumber bc (Uint64 (h_Number header)) = Some b"
    using schedule_total(1) [OF assms [OF Inr]] by blast
  with Inr show ?thesis by (auto simp: VerifyBlock_def split: sum.split)
qed (simp add: VerifyBlock_def split: sum.split)

lemma VerifyBlock_cdc_total:
  assumes "envOK env" "ctrlOK c"
  shows "\<exists>r. VerifyBlock md cr (cdcReader (e_chain env) (ct_dc c)) (Some header) = Some r"
proof (rule VerifyBlock_total)
  fix h bc
  assume "sr_GetBroadcastIntervalByHash (cdcReader (e_chain env) (ct_dc c)) h = Inr bc"
  then show "BCInterval bc \<noteq> 0"
    using assms(1) ctrlOK_parts(3) [OF assms(2)]
    by (auto simp: cdcReader_def cdcGetBroadcastIntervalByHash_def envOK_def intervalOK_def
        split: if_splits option.splits)
qed

lemma checkPOSResult_total:
  assumes "envOK env" "ctrlOK c" "\<And>p. m = Some p \<Longrightarrow> bq_Header p \<noteq> None"
  shows "\<exists>r. checkPOSResult env m c = Some r"
proof (cases m)
  case (Some p)
  then obtain h where h: "bq_Header p = Some h" using assms(3) by auto
  obtain r where "VerifyBlock (NewMtxDPOS (e_SimpleMode env)) (e_crypto env) (cdcReader (e_chain env) (ct_dc c)) (Some h) = Some r"
    using VerifyBlock_cdc_total [OF assms(1,2)] by blast
  with Some h show ?thesis by (simp add: checkPOSResult_def DPOSEngine_total split: option.split)
qed (simp add: checkPOSResult_def)

lemma checked_started:
  shows "checkRLReqMsg env m c = Some (Inr u) \<Longrightarrow> started c"
    and "checkRLResult env m' c = Some (Inr u) \<Longrightarrow> started c"
    and "checkPOSResult env m'' c = Some (Inr u) \<Longrightarrow> started c"
  by (auto simp: checkRLReqMsg_def checkRLResult_def checkPOSResult_def started_def Let_def
      split: option.splits if_splits Option.bind_splits sum.splits)

lemma checkRLReqMsg_total: "\<exists>r. checkRLReqMsg env m c = Some r"
  by (simp add: checkRLReqMsg_def DPOSEngine_total Let_def split: option.split sum.split)

lemma checkRLReqMsg_parts: "checkRLReqMsg env m c = Some (Inr u) \<Longrightarrow> \<exists>req inq. m = Some req \<and> lr_InquiryReq req = Some inq"
  by (auto simp: checkRLReqMsg_def Let_def split: option.splits)

lemma countVotes_total: "started c \<Longrightarrow> \<exists>r. countVotes env signs c = Some r"
  by (auto simp: countVotes_def started_def DPOSEngine_total)

section \<open>Handlers\<close>

lemma sendInquiryRsp_fine: "ctrlOK (sendInquiryRsp rsp t c) = ctrlOK c"
  by (simp add: sendInquiryRsp_def)

lemma sendInquiryRspWithPOS_fine:
  assumes "ctrlOK c"
  shows "fine (sendInquiryRspWithPOS h t n c)"
proof -
  from GetPOSNotifyMsg_total [OF ctrlOK_parts(1) [OF assms]] obtain r where
    "GetPOSNotifyMsg (ct_mp c) (GetConsensusLeader (ct_dc c)) (dc_curConsensusTurn (ct_dc c)) = Some r" by blast
  with assms show ?thesis by (cases r) (simp_all add: sendInquiryRspWithPOS_def Let_def sendInquiryRsp_fine)
qed

lemma sendInquiryRspWithRLConsensus_fine:
  assumes "ctrlOK c"
  shows "fine (sendInquiryRspWithRLConsensus h t c)"
proof (cases "GetRLConsensusMsg (ct_mp c) (dc_curConsensusTurn (ct_dc c))")
  case (Inr r)
  from GetRLConsensusMsg_entry [OF ctrlOK_parts(1) [OF assms] Inr] Inr assms show ?thesis
    by (auto simp: rlEntryOK_def sendInquiryRspWithRLConsensus_def sendInquiryRsp_fine)
qed (use assms in \<open>simp add: sendInquiryRspWithRLConsensus_def\<close>)

lemma sendInquiryRsp_ctrlOK:
  "ctrlOK (sendInquiryRspWithNewBlockReady h t n c) = ctrlOK c" "ctrlOK (sendInquiryRspWithAgree env h t n c) = ctrlOK c"
  by (simp_all add: sendInquiryRspWithNewBlockReady_def sendInquiryRspWithAgree_def sendInquiryRsp_fine
      split: option.split sum.split)

lemma handleInquiryReq_fine:
  assumes "ctrlOK c"
  shows "fine (handleInquiryReq env m c)"
proof (cases "State c = stIdle")
  case False
  then have st: "started c" using assms started_state by blast
  then obtain h where h: "mp_parentHeader (ct_mp c) = Some h" by (auto simp: started_def)
  have "\<exists>r. cdcGetLeader (ct_dc c) t (dc_bcInterval (ct_dc c)) = Some r" for t
    using cdcGetLeader_total ctrlOK_parts(3) [OF assms] by blast
  then obtain f where f: "cdcGetLeader (ct_dc c) t (dc_bcInterval (ct_dc c)) = Some (f t)" for t by metis
  show ?thesis
    using assms st
    by (simp add: handleInquiryReq_def h f sendInquiryRsp_ctrlOK sendInquiryRspWithPOS_fine
        sendInquiryRspWithRLConsensus_fine inquireUnlessMaster_fine Let_def split: option.split sum.split)
qed (use assms in \<open>simp add: handleInquiryReq_def split: option.split\<close>)

lemma processNewBlockReadyRsp_fine:
  assumes "envOK env" "ctrlOK c"
  shows "fine (processNewBlockReadyRsp env m peer c)"
proof (cases m)
  case (Some header)
  obtain g where g: "VerifyBlock md cr (cdcReader (e_chain env) (ct_dc c)) (Some h) = Some (g md cr h)" for md cr h
    using VerifyBlock_cdc_total [OF assms] by metis
  show ?thesis
  proof (cases "chainGetBroadcastIntervalByHash (e_chain env) (h_ParentHash header)")
    case (Inr bc)
    then obtain b where b: "IsBroadcastNumber bc (Uint64 (h_Number header)) = Some b"
      using assms(1) schedule_total(1) by (metis envOK_def)
    show ?thesis using assms(2)
      by (simp add: processNewBlockReadyRsp_def Some Inr b g DPOSEngine_total Let_def split: option.split sum.split)
  qed (use assms(2) Some in \<open>simp add: processNewBlockReadyRsp_def Let_def split: option.split\<close>)
qed (use assms(2) in \<open>simp add: processNewBlockReadyRsp_def\<close>)

lemma inquiryRspAlreadyRL_fine:
  assumes "ctrlOK c" "\<And>p. ir_POSResult rsp = Some p \<Longrightarrow> bq_Header p \<noteq> None" "\<And>r. ir_RLResult rsp = Some r \<Longrightarrow> resultOK r"
  shows "fine (inquiryRspAlreadyRL env rsp c)"
proof -
  from checkRLResult_total [OF assms(3)] obtain r where r: "checkRLResult env (ir_RLResult rsp) c = Some r" by blast
  show ?thesis
  proof (cases "\<exists>u mc. r = Inr u \<and> GenBroadcastMsgWithInquiryResult (ir_Type rsp) rsp (ct_selfCache c) = Inr mc")
    case True
    then obtain u mc where i: "r = Inr u" and g: "GenBroadcastMsgWithInquiryResult (ir_Type rsp) rsp (ct_selfCache c) = Inr mc"
      by blast
    have st: "started c" using r i checked_started(2) by blast
    have "cacheOK mc" using GenBroadcastMsgWithInquiryResult_OK [OF ctrlOK_parts(2) [OF assms(1)] g] assms(2,3) by blast
    with assms(1) st have "ctrlOK (c\<lparr>ct_selfCache := mc\<rparr>)" by (rule ctrlOK_cache)
    with st sendResultBroadcastMsg_fine [of "c\<lparr>ct_selfCache := mc\<rparr>" env] obtain c' where
      c': "sendResultBroadcastMsg env (c\<lparr>ct_selfCache := mc\<rparr>) = Some c'" "ctrlOK c'" by (auto elim: fineE)
    have "started c'" using sendResultBroadcastMsg_sends [OF c'(1)] st by (auto simp: sends_def started_def)
    moreover obtain rl where rl: "ir_RLResult rsp = Some rl" using r i by (cases "ir_RLResult rsp") (auto simp: checkRLResult_def)
    ultimately have "fine (finishReelectWithRLConsensus env rl c')"
      using finishReelectWithRLConsensus_fine [OF c'(2)] assms(3) by blast
    with r i g c'(1) rl show ?thesis by (simp add: inquiryRspAlreadyRL_def)
  qed (use assms(1) r in \<open>auto simp: inquiryRspAlreadyRL_def split: sum.split\<close>)
qed

lemma inquiryRspPOS_fine:
  assumes "envOK env" "ctrlOK c" "\<And>p. ir_POSResult rsp = Some p \<Longrightarrow> bq_Header p \<noteq> None" "\<And>r. ir_RLResult rsp = Some r \<Longrightarrow> resultOK r"
  shows "fine (inquiryRspPOS env rsp c)"
proof -
  from checkPOSResult_total [OF assms(1-3)] obtain r where r: "checkPOSResult env (ir_POSResult rsp) c = Some r" by blast
  have "fine (sendResultBroadcastMsg env (c\<lparr>ct_selfCache := mc\<rparr>))"
    if g: "r = Inr u" "GenBroadcastMsgWithInquiryResult (ir_Type rsp) rsp (ct_selfCache c) = Inr mc" for u mc
  proof -
    have st: "started c" using r g(1) checked_started(3) by blast
    have "cacheOK mc" using GenBroadcastMsgWithInquiryResult_OK [OF ctrlOK_parts(2) [OF assms(2)] g(2)] assms(3,4) by blast
    with assms(2) st show ?thesis by (simp add: ctrlOK_cache sendResultBroadcastMsg_fine)
  qed
  with r assms(2) show ?thesis by (auto simp: inquiryRspPOS_def split: sum.split)
qed

lemma inquiryRspAgree_fine:
  assumes "ctrlOK c"
  shows "fine (inquiryRspAgree env rsp c)"
proof (cases "SaveInquiryVote (e_crypto env) (e_chain env) (ct_dc c) (ir_ReqHash rsp) (ir_AgreeSign rsp) (ir_From rsp) (ct_selfCache c)")
  case (Inr mc)
  note saved = SaveVote_cache [OF disjI1, OF Inr]
  have st: "started c" using started_cache [OF assms] saved by blast
  have mc: "cacheOK mc" using ctrlOK_parts(2) [OF assms] saved by blast
  from st obtain r where r: "countVotes env (GetInquiryVotes mc) (c\<lparr>ct_selfCache := mc\<rparr>) = Some r"
    using countVotes_total [of "c\<lparr>ct_selfCache := mc\<rparr>"] st by auto
  have "fine (sendRLReq env (c\<lparr>ct_selfCache := mc'\<rparr>))" "ctrlOK (c\<lparr>ct_selfCache := mc'\<rparr>)" if "cacheOK mc'" for mc'
    using that assms st by (simp_all add: ctrlOK_cache sendRLReq_fine)
  with GenRLReqMsg_OK [OF mc] mc Inr r show ?thesis
    by (auto simp: inquiryRspAgree_def Let_def split: sum.split prod.split option.split)
qed (use assms in \<open>simp add: inquiryRspAgree_def\<close>)

lemma handleRLReq_fine:
  assumes "ctrlOK c"
  shows "fine (handleRLReq env m c)"
proof -
  obtain r where r: "checkRLReqMsg env m c = Some r" using checkRLReqMsg_total by blast
  show ?thesis
  proof (cases r)
    case (Inr u)
    with r checkRLReqMsg_parts obtain req inq where "m = Some req" "lr_InquiryReq req = Some inq" by blast
    with r Inr assms show ?thesis by (auto simp: handleRLReq_def Let_def split: sum.split)
  qed (use r assms in \<open>simp add: handleRLReq_def\<close>)
qed

lemma handleRLVote_fine:
  assumes "ctrlOK c"
  shows "fine (handleRLVote env m c)"
proof (cases m)
  case (Some msg)
  show ?thesis
  proof (cases "SaveRLVote (e_crypto env) (e_chain env) (ct_dc c) (cv_SignHash msg) (cv_Sign msg) (cv_From msg) (ct_selfCache c)")
    case (Inr mc)
    note saved = SaveVote_cache [OF disjI2, OF disjI1, OF Inr]
    have st: "started c" using started_cache [OF assms] saved by blast
    have mc: "cacheOK mc" using ctrlOK_parts(2) [OF assms] saved by blast
    from st obtain r where r: "countVotes env (GetRLVotes mc) (c\<lparr>ct_selfCache := mc\<rparr>) = Some r"
      using countVotes_total [of "c\<lparr>ct_selfCache := mc\<rparr>"] st by auto
    have "fine (sendResultBroadcastMsg env (c\<lparr>ct_selfCache := mc'\<rparr>))" if "cacheOK mc'" for mc'
      using that assms st by (simp add: ctrlOK_cache sendResultBroadcastMsg_fine)
    with GenBroadcastMsgWithRLSuccess_OK [OF mc] assms st mc Some Inr r show ?thesis
      by (auto simp: handleRLVote_def Let_def ctrlOK_cache split: sum.split)
  qed (use assms Some in \<open>simp add: handleRLVote_def\<close>)
qed (use assms in \<open>simp add: handleRLVote_def\<close>)

section \<open>Broadcast results\<close>

lemma processResultBroadcastMsg_fine:
  assumes "envOK env" "ctrlOK c" "broadcastOK b"
    and "\<And>p h. \<not> started c \<Longrightarrow> rb_POSResult b = Some p \<Longrightarrow> bq_Header p = Some h \<Longrightarrow> h_Leader h \<noteq> 0"
  shows "\<exists>e c'. processResultBroadcastMsg env b c = Some (e, c') \<and> ctrlOK c'"
proof -
  have pos: "\<exists>c'. finishReelectWithPOS p a c = Some c' \<and> ctrlOK c'" if "rb_POSResult b = Some p" "bq_Header p = Some h"
      "h_Leader h = GetConsensusLeader (ct_dc c)" for p h a
  proof -
    have "started c" using assms(2) assms(4) [OF _ that(1,2)] that(3) by (auto simp: ctrlOK_def GetConsensusLeader_def)
    then show ?thesis using finishReelectWithPOS_fine [OF assms(2)] by (auto simp: fine_def)
  qed
  obtain g where g: "VerifyBlock md cr (cdcReader (e_chain env) (ct_dc c)) (Some h) = Some (g md cr h)" for md cr h
    using VerifyBlock_cdc_total [OF assms(1,2)] by metis
  have res: "\<And>r. rb_RLResult b = Some r \<Longrightarrow> resultOK r" using assms(3) by (simp add: broadcastOK_def)
  from checkRLResult_total [OF res] obtain r where r: "checkRLResult env (rb_RLResult b) c = Some r" by blast
  have rl: "\<exists>rl c'. rb_RLResult b = Some rl \<and> finishReelectWithRLConsensus env rl c = Some c' \<and> ctrlOK c'" if u: "r = Inr u" for u
  proof -
    have "started c" using r u checked_started(2) by blast
    moreover obtain x where x: "rb_RLResult b = Some x" using r u by (cases "rb_RLResult b") (auto simp: checkRLResult_def)
    ultimately have "fine (finishReelectWithRLConsensus env x c)"
      using finishReelectWithRLConsensus_fine [OF assms(2)] res by blast
    with x show ?thesis by (simp add: fine_def)
  qed
  show ?thesis
  proof (cases "rb_Type b = ReelectRSPTypePOS")
    case True
    show ?thesis
    proof (cases "\<exists>p h u. rb_POSResult b = Some p \<and> bq_Header p = Some h \<and> h_Leader h = GetConsensusLeader (ct_dc c)
        \<and> g (NewMtxDPOS (e_SimpleMode env)) (e_crypto env) h = Inr u")
      case ok: True
      then obtain p h u where p: "rb_POSResult b = Some p" "bq_Header p = Some h" "h_Leader h = GetConsensusLeader (ct_dc c)"
        "g (NewMtxDPOS (e_SimpleMode env)) (e_crypto env) h = Inr u" by blast
      from pos [OF p(1-3)] obtain c' where "finishReelectWithPOS p (rb_From b) c = Some c'" "ctrlOK c'" by blast
      with True p g show ?thesis by (simp add: processResultBroadcastMsg_def DPOSEngine_total)
    qed (use True assms(2) g in \<open>auto simp: processResultBroadcastMsg_def DPOSEngine_total split: option.split sum.split\<close>)
  next
    case False
    show ?thesis
    proof (cases r)
      case (Inr u)
      from rl [OF this] obtain x c' where "rb_RLResult b = Some x" "finishReelectWithRLConsensus env x c = Some c'" "ctrlOK c'"
        by blast
      with False Inr r assms(2) show ?thesis by (simp add: processResultBroadcastMsg_def)
    qed (use False assms(2) r in \<open>simp add: processResultBroadcastMsg_def\<close>)
  qed
qed

lemma sendResultBroadcastRsp_fine: "ctrlOK c \<Longrightarrow> broadcastOK b \<Longrightarrow> fine (sendResultBroadcastRsp env b c)"
  using VBroadcastMsg_total [of b] by (auto simp: sendResultBroadcastRsp_def Let_def split: sum.split)

lemma handleBroadcastRsp_fine:
  assumes "envOK env" "ctrlOK c"
  shows "fine (handleBroadcastRsp env m c)"
proof (cases m)
  case (Some rsp)
  show ?thesis
  proof (cases "SaveBroadcastVote (e_crypto env) (e_chain env) (ct_dc c) (rr_ResultHash rsp) (rr_Sign rsp) (rr_From rsp) (ct_selfCache c)")
    case (Inr mc)
    note saved = SaveVote_cache [OF disjI2, OF disjI2, OF Inr]
    have st: "started c" using started_cache [OF assms(2)] saved by blast
    have mc: "cacheOK mc" using ctrlOK_parts(2) [OF assms(2)] saved by blast
    let ?c = "c\<lparr>ct_selfCache := mc\<rparr>"
    have ok: "ctrlOK ?c" "started ?c" using assms(2) st mc by (simp_all add: ctrlOK_cache)
    then obtain r where r: "countVotes env (GetBroadcastVotes mc) ?c = Some r" using countVotes_total by blast
    have "\<exists>e c'. processResultBroadcastMsg env b ?c = Some (e, c') \<and> ctrlOK c'" if "GetLocalBroadcastMsg mc = Inr b" for b
      using processResultBroadcastMsg_fine [OF assms(1) ok(1) GetLocalBroadcastMsg_OK [OF mc that]] ok(2) by blast
    with Some Inr r ok show ?thesis by (fastforce simp: handleBroadcastRsp_def Let_def split: sum.split)
  qed (use assms Some in \<open>simp add: handleBroadcastRsp_def\<close>)
qed (use assms in \<open>simp add: handleBroadcastRsp_def\<close>)

lemma reelectTimeOutHandle_fine:
  assumes "ctrlOK c"
  shows "fine (reelectTimeOutHandle env c)"
proof (cases "State c = stReelect")
  case True
  then have st: "started c" using assms started_state by simp
  show ?thesis
    using sendInquiryReq_fine [OF assms st, of env] sendRLReq_fine [OF assms st, of env]
      sendResultBroadcastMsg_fine [OF assms st, of env] assms
    by (auto simp: reelectTimeOutHandle_def Let_def elim!: fineE)
qed (use assms in \<open>simp add: reelectTimeOutHandle_def\<close>)

section \<open>Events\<close>

text \<open>
  The messages the code trusts: their pointers are set where a handler reads through them, and a
  broadcast block result names a leader.
\<close>

fun msgOK :: "BlockChain \<Rightarrow> ctrlMsg \<Rightarrow> bool" where
  "msgOK chain (StartMsg m) = (case m of None \<Rightarrow> True | Some msg \<Rightarrow> startOK chain msg)"
| "msgOK chain (InquiryRspMsg m) =
     (case m of None \<Rightarrow> False
      | Some rsp \<Rightarrow> (\<forall>p. ir_POSResult rsp = Some p \<longrightarrow> bq_Header p \<noteq> None) \<and> (\<forall>r. ir_RLResult rsp = Some r \<longrightarrow> resultOK r))"
| "msgOK chain (ResultBroadcastMsg m) =
     (case m of None \<Rightarrow> True
      | Some b \<Rightarrow> broadcastOK b \<and> (\<forall>p h. rb_POSResult b = Some p \<longrightarrow> bq_Header p = Some h \<longrightarrow> h_Leader h \<noteq> 0))"
| "msgOK chain _ = True"

fun eventOK :: "Env \<Rightarrow> ctrlEvent \<Rightarrow> bool" where
  "eventOK env (MsgCh m) = (envOK env \<and> msgOK (e_chain env) m)"
| "eventOK env _ = True"

lemma handleInquiryRsp_fine:
  assumes "envOK env" "ctrlOK c" "msgOK (e_chain env) (InquiryRspMsg m)"
  shows "fine (handleInquiryRsp env m c)"
proof (cases m)
  case (Some rsp)
  with assms(3) have ok: "\<And>p. ir_POSResult rsp = Some p \<Longrightarrow> bq_Header p \<noteq> None" "\<And>r. ir_RLResult rsp = Some r \<Longrightarrow> resultOK r"
    by auto
  note fine = processNewBlockReadyRsp_fine [OF assms(1,2)] inquiryRspAlreadyRL_fine [OF assms(2) ok]
    inquiryRspPOS_fine [OF assms(1,2) ok] inquiryRspAgree_fine [OF assms(2)]
  show ?thesis using assms(2) by (simp add: handleInquiryRsp_def Some fine)
qed (use assms(3) in simp)

lemma handleBroadcastMsg_fine:
  assumes "envOK env" "ctrlOK c" "msgOK (e_chain env) (ResultBroadcastMsg m)"
  shows "fine (handleBroadcastMsg env m c)"
proof (cases m)
  case (Some b)
  with assms(3) have b: "broadcastOK b" "\<And>p h. rb_POSResult b = Some p \<Longrightarrow> bq_Header p = Some h \<Longrightarrow> h_Leader h \<noteq> 0" by auto
  have "\<exists>e c'. processResultBroadcastMsg env b c = Some (e, c') \<and> ctrlOK c'"
    by (rule processResultBroadcastMsg_fine [OF assms(1,2) b(1)]) (use b(2) in blast)
  then obtain e c' where "processResultBroadcastMsg env b c = Some (e, c')" "ctrlOK c'" by blast
  with Some sendResultBroadcastRsp_fine b(1) show ?thesis by (simp add: handleBroadcastMsg_def)
qed (use assms in \<open>simp add: handleBroadcastMsg_def\<close>)

lemma handleMsg_fine:
  assumes "ctrlOK c" "envOK env" "msgOK (e_chain env) m"
  shows "fine (handleMsg env m c)"
proof (cases m)
  case (StartMsg x)
  with assms handleStartMsg_fine [of c x env] show ?thesis by (cases x) simp_all
qed (use assms in \<open>simp_all del: msgOK.simps add: handleInquiryRsp_fine handleBroadcastMsg_fine handleInquiryReq_fine
      handleBlockPOSFinishedNotify_fine handleRLReq_fine handleRLVote_fine handleBroadcastRsp_fine\<close>)

lemma ctrlRun_fine: "ctrlOK c \<Longrightarrow> eventOK env ev \<Longrightarrow> fine (ctrlRun env ev c)"
  using handleMsg_fine timeOutHandle_fine [of "c\<lparr>ct_timer := None\<rparr>"] reelectTimeOutHandle_fine [of "c\<lparr>ct_reelectTimer := None\<rparr>"]
  by (cases ev) simp_all

lemma newController_fine:
  assumes "newController number = Some c"
  shows "ctrlOK c"
  using assms newMasterCache_OK mpOK_new
  by (auto simp: newController_def ctrlOK_def State_def newCDC_def newTurnTimes_def intervalOK_def split: if_splits)

end
