(* ===== verification/Reelection.thy ===== *)
theory Reelection
  imports CtrlReturns
begin

text \<open>
  What the controllers of the leader service promise: no message without missing parts ends the
  process, the consensus turn only moves forward and only by a result a quorum approved, the timer
  leads every validator into the re-election turn of the clock, and validators vote for the
  scheduled master only.
\<close>

section \<open>An example height\<close>

text \<open>Height 5 of the example chain, seen by validator 10, after the parent of time 1000.\<close>

definition exampleEnv :: Env where
  "exampleEnv =
     \<lparr>e_crypto = exampleCrypto, e_chain = exampleBlockChain, e_SimpleMode = False,
      e_VerifyHeader = (\<lambda>v h seal. None), e_SignHelper = \<lparr>sh_keyStore = None, sh_depositAddress = 10, sh_signAddress = 10\<rparr>,
      e_now = 1105\<rparr>"

definition exampleStart :: startControllerMsg where
  "exampleStart = \<lparr>sc_parentHeader = Some exampleParent, sc_parentStateDB = Some exampleState\<rparr>"

definition exampleSchedule :: cdc where
  "exampleSchedule = exampleRound\<lparr>dc_leaderCal := (newLeaderCalculator 5)\<lparr>lc_preHash := 7,
       lc_leaderList := [(0, 12), (1, 13), (2, 10), (3, 11)], lc_validators := exampleNodes\<rparr>,
     dc_bcInterval := Some exampleInterval, dc_role := RoleValidator, dc_consensusLeader := 12,
     dc_turnTime := exampleTimes, dc_state := stPos\<rparr>"

definition exampleCtrl :: controller where
  "exampleCtrl =
     \<lparr>ct_timer = Some 1000000000, ct_reelectTimer = None, ct_dc = exampleSchedule,
      ct_mp = newMsgPool\<lparr>mp_parentHeader := Some exampleParent\<rparr>, ct_selfCache = newMasterCache 5, ct_outs = []\<rparr>"

lemma exampleEnv_OK: "envOK exampleEnv"
  by (simp add: envOK_def exampleEnv_def chainGetBroadcastIntervalByHash_def readAt_def StateAtBlockHash_def
      exampleBlockChain_def exampleState_def exampleInterval_def)

lemma exampleStart_OK: "startOK exampleBlockChain exampleStart"
proof -
  have "headersNumbered exampleChain" by (simp add: headersNumbered_def exampleChain_def Uint64_def split: if_splits)
  moreover have "preLeaderPath exampleChain exampleInterval exampleParent (exampleHeader\<lparr>h_Number := 3, h_Leader := 11\<rparr>)
      (IsSuperHeader exampleParent \<or> False)"
  proof (rule preLeaderPath.skip)
    show "preLeaderPath exampleChain exampleInterval (exampleHeader\<lparr>h_Number := 3, h_Leader := 11\<rparr>)
        (exampleHeader\<lparr>h_Number := 3, h_Leader := 11\<rparr>) False"
      by (rule preLeaderPath.ordinary)
        (simp_all add: IsSuperHeader_def exampleHeader_def IsBroadcastNumber_def exampleInterval_def Uint64_def)
  qed (simp_all add: isSkipped_def exampleParent_def exampleHeader_def IsBroadcastNumber_def exampleInterval_def
      exampleChain_def Uint64_def)
  ultimately show ?thesis
    by (auto simp: startOK_def exampleStart_def exampleBlockChain_def exampleState_def exampleInterval_def exampleParent_def
        exampleHeader_def i64_def)
qed

lemma exampleCtrl_OK: "ctrlOK exampleCtrl"
  using newMasterCache_OK mpOK_new
  by (simp add: ctrlOK_def exampleCtrl_def started_def exampleSchedule_def intervalOK_def exampleInterval_def mpOK_def newMsgPool_def)

lemma exampleSchedule_leader:
  "cdcGetLeader exampleSchedule t (Some exampleInterval) = Some (Inr (leaderAt (dc_leaderCal exampleSchedule) t))"
  "leaderAt (dc_leaderCal exampleSchedule) 0 = 12" "leaderAt (dc_leaderCal exampleSchedule) 2 = 10"
  by (simp_all add: cdcGetLeader_def lcGetLeader_def exampleSchedule_def newLeaderCalculator_def IsReElectionNumber_def
      IsBroadcastNumber_def exampleInterval_def leaderAt_def mapGet_def mapLen_def Let_def)

lemma exampleSchedule_fields:
  "dc_number exampleSchedule = 5" "dc_curConsensusTurn exampleSchedule = \<lparr>PreConsensusTurn = 0, UsedReelectTurn = 0\<rparr>"
  "dc_curReelectTurn exampleSchedule = 0" "dc_bcInterval exampleSchedule = Some exampleInterval"
  "dc_consensusLeader exampleSchedule = 12" "dc_turnTime exampleSchedule = exampleTimes"
  "dc_preHash exampleSchedule = 7" "dc_parentState exampleSchedule = Some exampleState" "dc_state exampleSchedule = stPos"
  by (simp_all add: exampleSchedule_def exampleRound_def exampleCdc_def newCDC_def)

lemma exampleCtrl_fields:
  "ct_dc exampleCtrl = exampleSchedule" "mp_parentHeader (ct_mp exampleCtrl) = Some exampleParent"
  by (simp_all add: exampleCtrl_def)

lemma exampleCtrl_leaders: "leadersOK (ct_dc exampleCtrl)"
  by (simp add: leadersOK_def exampleCtrl_fields exampleSchedule_fields TotalTurns_def exampleSchedule_leader)

section \<open>Handlers return\<close>

lemma ctrlRuns_fine: "ctrlOK c \<Longrightarrow> \<forall>(env, ev) \<in> set evs. eventOK env ev \<Longrightarrow> fine (ctrlRuns evs c)"
proof (induction evs arbitrary: c)
  case (Cons m evs)
  obtain env ev where m: "m = (env, ev)" by fastforce
  with Cons.prems have "fine (ctrlRun env ev c)" by (simp add: ctrlRun_fine)
  then obtain c' where "ctrlRun env ev c = Some c'" "ctrlOK c'" by (rule fineE)
  with Cons m show ?case by simp
qed simp



text \<open>C22. A peer can end the process: a broadcast re-election result whose request is missing makes the
  handler read through a nil pointer, in every state of the controller, and so does a request
  without its inquiry.\<close>

theorem handleBroadcastMsg_nil:
  assumes "rb_Type b = ReelectRSPTypeAgree \<or> rb_Type b = ReelectRSPTypeAlreadyRL" "rb_RLResult b = Some r"
    and "rc_Req r = None \<or> (\<exists>req. rc_Req r = Some req \<and> lr_InquiryReq req = None)"
  shows "ctrlRun env (MsgCh (ResultBroadcastMsg (Some b))) c = None"
  using assms by (auto simp: handleBroadcastMsg_def processResultBroadcastMsg_def checkRLResult_def)

theorem handleBroadcastMsg_nil_witness:
  "let b = \<lparr>rb_Number = 5, rb_Type = ReelectRSPTypeAgree, rb_POSResult = None,
            rb_RLResult = Some \<lparr>rc_Req = None, rc_Votes = []\<rparr>, rb_TimeStamp = 1100, rb_From = 11\<rparr>
   in ctrlRun exampleEnv (MsgCh (ResultBroadcastMsg (Some b))) exampleCtrl = None"
  unfolding Let_def by (rule handleBroadcastMsg_nil [where r = "\<lparr>rc_Req = None, rc_Votes = []\<rparr>"]) simp_all

section \<open>Consensus turns\<close>

text \<open>C5. Over every sequence of messages and timers a controller keeps its height, never goes back to an
  earlier consensus turn, withdraws nothing it has sent, and its consensus leader and re-election
  master are those the schedule gives for its turns.\<close>

theorem ctrlRuns_order:
  assumes "leadersOK (ct_dc c)" "ctrlRuns evs c = Some c'"
  shows "leadersOK (ct_dc c') \<and> Number c' = Number c \<and> turnCmp (ConsensusTurn c) (ConsensusTurn c') \<le> 0
    \<and> prefix (ct_outs c) (ct_outs c')"
  using ctrl.run_inv_le [of c evs c'] assms by (simp add: ctrl_run advances_def)

theorem ctrlRuns_order_witness:
  "\<exists>c'. ctrlRuns [(exampleEnv, TimerC), (exampleEnv, ReelectTimerC)] exampleCtrl = Some c'
     \<and> Number c' = 5 \<and> leadersOK (ct_dc c')"
proof -
  obtain c' where c': "ctrlRuns [(exampleEnv, TimerC), (exampleEnv, ReelectTimerC)] exampleCtrl = Some c'"
    using ctrlRuns_fine [OF exampleCtrl_OK, of "[(exampleEnv, TimerC), (exampleEnv, ReelectTimerC)]"] by (auto elim: fineE)
  from ctrlRuns_order [OF exampleCtrl_leaders this] c' show ?thesis
    by (simp add: Number_def exampleCtrl_fields exampleSchedule_fields)
qed

text \<open>The voters for a request, as the engine counts them at the parent block of a controller.\<close>

definition requestVoters :: "Env \<Rightarrow> controller \<Rightarrow> TopologyGraph \<Rightarrow> HD_V2_ReelectLeaderReqMsg \<Rightarrow> signature list \<Rightarrow> address set" where
  "requestVoters env c g req votes =
     approvedBy (e_crypto env) (cdcReader (e_chain env) (ct_dc c)) (ParentHash c)
       (rlpHash (e_crypto env) (VLeaderReq req)) votes g"

lemma checkRLResult_verified:
  assumes "checkRLResult env (Some r) c = Some (Inr u)" "rc_Req r = Some req"
  shows "\<exists>rs. VerifyHashWithBlock (NewMtxDPOS (e_SimpleMode env)) (e_crypto env) (cdcReader (e_chain env) (ct_dc c))
    (rlpHash (e_crypto env) (VLeaderReq req)) (rc_Votes r) (ParentHash c) = Inr rs"
  using assms
  by (auto simp: checkRLResult_def DPOSEngine_total Let_def split: Option.bind_splits option.splits if_splits sum.splits)

lemma decided_quorum:
  assumes "decided env c turn"
    and "cdcGetGraphByHash (e_chain env) (ct_dc c) (ParentHash c) = Inr (g, eg)" "length (NodeList g) < 2 ^ 48"
  shows "\<exists>req inquiry votes. lr_InquiryReq req = Some inquiry
    \<and> turn = calcNextConsensusTurn (iq_ConsensusTurn inquiry) (iq_ReelectTurn inquiry)
    \<and> c_MinStockCount (NewMtxDPOS (e_SimpleMode env)) \<le> int (card (set (validatorAccounts g)))
    \<and> targetCount (card (set (validatorAccounts g))) \<le> card (requestVoters env c g req votes)"
proof -
  from assms(1) obtain r req inquiry where r: "checkRLResult env (Some r) c = Some (Inr ())" "rc_Req r = Some req"
    "lr_InquiryReq req = Some inquiry" "turn = calcNextConsensusTurn (iq_ConsensusTurn inquiry) (iq_ReelectTurn inquiry)"
    by (auto simp: decided_def)
  have "sr_GetGraphByHash (cdcReader (e_chain env) (ct_dc c)) (ParentHash c) = Inr (g, eg)"
    using assms(2) by (simp add: cdcReader_def)
  from VerifyHashWithBlock_approved [OF this assms(3)] checkRLResult_verified [OF r(1,2)]
  have "c_MinStockCount (NewMtxDPOS (e_SimpleMode env)) \<le> int (card (set (validatorAccounts g)))
    \<and> targetCount (card (set (validatorAccounts g))) \<le> card (requestVoters env c g req (rc_Votes r))"
    unfolding requestVoters_def by blast
  with r show ?thesis by blast
qed

text \<open>C2. A controller enters another consensus turn only by a certified re-election: it is the turn after
  the re-election turn of an inquiry, and more than two thirds of the validators of the parent block
  (all of them, when they are at most seven) approved the leader request with that inquiry.\<close>

theorem consensus_turn_quorum:
  assumes "ctrlRun env ev c = Some c'" "ConsensusTurn c' \<noteq> ConsensusTurn c"
    and "cdcGetGraphByHash (e_chain env) (ct_dc c) (ParentHash c) = Inr (g, eg)" "length (NodeList g) < 2 ^ 48"
  shows "\<exists>req inquiry votes. lr_InquiryReq req = Some inquiry
    \<and> ConsensusTurn c' = calcNextConsensusTurn (iq_ConsensusTurn inquiry) (iq_ReelectTurn inquiry)
    \<and> targetCount (card (set (validatorAccounts g))) \<le> card (requestVoters env c g req votes)"
proof -
  have "decided env c (ConsensusTurn c')" using ctrlRun_moves [OF assms(1)] assms(2) by (simp add: moves_def)
  from decided_quorum [OF this assms(3,4)] show ?thesis by blast
qed

text \<open>A result of the re-election of turn 1 of the example height, with the votes of all validators.\<close>

definition exampleRequest :: HD_V2_ReelectLeaderReqMsg where
  "exampleRequest =
     \<lparr>lr_InquiryReq = Some (exampleInquiry\<lparr>iq_Number := 5, iq_Master := 13, iq_From := 13\<rparr>),
      lr_AgreeSigns = [(10, 0), (11, 0), (12, 0), (13, 0)], lr_TimeStamp = 1080\<rparr>"

definition exampleResult :: HD_V2_ReelectBroadcastMsg where
  "exampleResult =
     \<lparr>rb_Number = 5, rb_Type = ReelectRSPTypeAgree, rb_POSResult = None,
      rb_RLResult = Some \<lparr>rc_Req = Some exampleRequest, rc_Votes = [(10, 0), (11, 0), (12, 0), (13, 0)]\<rparr>,
      rb_TimeStamp = 1090, rb_From = 13\<rparr>"

lemma exampleReader_approved:
  "approvedBy exampleCrypto (cdcReader exampleBlockChain exampleSchedule) 7 h [(10, 0), (11, 0), (12, 0), (13, 0)] exampleGraph
   = {10, 11, 12, 13}"
  "cdcGetGraphByHash exampleBlockChain exampleSchedule 7
   = Inr (exampleGraph, \<lparr>eg_Number = 0, ElectList = [], NextMinerElect = [], NextValidatorElect = []\<rparr>)"
proof -
  have "sr_GetA0AccountFromAnyAccount (cdcReader exampleBlockChain exampleSchedule) a 7 = Inr (a, a)" if "a \<in> {10, 11, 12, 13}" for a
    using that by (auto simp: cdcReader_def cdcGetA0AccountFromAnyAccount_def exampleSchedule_fields getA0Account_def exampleState_def)
  then show "approvedBy exampleCrypto (cdcReader exampleBlockChain exampleSchedule) 7 h [(10, 0), (11, 0), (12, 0), (13, 0)]
      exampleGraph = {10, 11, 12, 13}"
    by (auto simp: approvedBy_def approves_def exampleReader_graph VerifySignWithValidate_def exampleCrypto_def)
  show "cdcGetGraphByHash exampleBlockChain exampleSchedule 7
      = Inr (exampleGraph, \<lparr>eg_Number = 0, ElectList = [], NextMinerElect = [], NextValidatorElect = []\<rparr>)"
    by (simp add: cdcGetGraphByHash_def exampleSchedule_fields exampleState_def GetGraphByState_def)
qed

lemma exampleSchedule_verified:
  "\<exists>rs. VerifyHashWithBlock (NewMtxDPOS False) exampleCrypto (cdcReader exampleBlockChain exampleSchedule)
    h [(10, 0), (11, 0), (12, 0), (13, 0)] 7 = Inr rs"
proof -
  have "sr_GetGraphByHash (cdcReader exampleBlockChain exampleSchedule) 7
      = Inr (exampleGraph, \<lparr>eg_Number = 0, ElectList = [], NextMinerElect = [], NextValidatorElect = []\<rparr>)"
    using exampleReader_approved(2) by (simp add: cdcReader_def)
  from VerifyHashWithBlock_approved [OF this, of False exampleCrypto h "[(10, 0), (11, 0), (12, 0), (13, 0)]"]
  show ?thesis by (simp only: exampleReader_approved exampleReader_graph) (simp add: targetCount_def)
qed

lemma exampleResult_checked: "checkRLResult exampleEnv (rb_RLResult exampleResult) exampleCtrl = Some (Inr ())"
proof -
  obtain f where f: "VerifyHashWithBlock (NewMtxDPOS False) exampleCrypto (cdcReader exampleBlockChain exampleSchedule)
      h [(10, 0), (11, 0), (12, 0), (13, 0)] 7 = Inr (f h)" for h using exampleSchedule_verified by metis
  then show ?thesis
    by (simp add: checkRLResult_def exampleResult_def exampleRequest_def exampleInquiry_def exampleCtrl_fields DPOSEngine_total
        ParentHash_def exampleSchedule_fields exampleEnv_def Let_def turnCmp_def calcNextConsensusTurn_def TotalTurns_def)
qed

lemma finishReelectWithRLConsensus_turn:
  assumes "finishReelectWithRLConsensus env r c = Some c'" "rc_Req r = Some req" "lr_InquiryReq req = Some inquiry"
    and "turn = calcNextConsensusTurn (iq_ConsensusTurn inquiry) (iq_ReelectTurn inquiry)"
    and "SetConsensusTurn turn (ct_dc c) = Some (Inr dc)"
  shows "ConsensusTurn c' = turn"
proof -
  obtain st rt t where cs: "CalState (dc_turnTime dc) (TotalTurns turn) (e_now env) = (st, rt, t)" by (metis prod_cases3)
  let ?c = "c\<lparr>ct_mp := SaveRLConsensusMsg (Some r) (ct_mp c), ct_reelectTimer := setTimer 0,
    ct_selfCache := ClearSelfInquiryMsg (ct_selfCache c), ct_dc := dc\<lparr>dc_isMaster := False\<rparr>\<rparr>"
  from assms cs obtain c2 where c2: "enterTurn env (st, rt, t) ?c = Some c2" "publishLeaderMsg c2 = Some c'"
    by (auto simp: finishReelectWithRLConsensus_def Let_def split: Option.bind_splits)
  have "ConsensusTurn c' = ConsensusTurn ?c"
    using enterTurn_stays [OF c2(1)] publishLeaderMsg_sends [OF c2(2)] by (auto dest: sends_stays simp: stays_def)
  moreover have "dc_curConsensusTurn dc = turn" using assms(5) by (auto elim: SetConsensusTurn_cases)
  ultimately show ?thesis by (simp add: ConsensusTurn_def)
qed

lemma exampleResult_step:
  obtains c' where "ctrlRun exampleEnv (MsgCh (ResultBroadcastMsg (Some exampleResult))) exampleCtrl = Some c'"
    "ConsensusTurn c' = \<lparr>PreConsensusTurn = 0, UsedReelectTurn = 1\<rparr>" "ConsensusTurn c' \<noteq> ConsensusTurn exampleCtrl"
proof -
  let ?ev = "MsgCh (ResultBroadcastMsg (Some exampleResult))" and ?turn = "\<lparr>PreConsensusTurn = 0, UsedReelectTurn = 1\<rparr>"
  have "broadcastOK exampleResult" by (simp add: broadcastOK_def resultOK_def exampleResult_def exampleRequest_def)
  then have "eventOK exampleEnv ?ev" using exampleEnv_OK by (simp add: exampleResult_def)
  then obtain c' where c': "ctrlRun exampleEnv ?ev exampleCtrl = Some c'"
    using ctrlRun_fine [OF exampleCtrl_OK] by (blast elim: fineE)
  obtain rl where rl: "rb_RLResult exampleResult = Some rl" "rc_Req rl = Some exampleRequest"
    by (simp add: exampleResult_def)
  then obtain c2 where c2: "finishReelectWithRLConsensus exampleEnv rl exampleCtrl = Some c2"
      "sendResultBroadcastRsp exampleEnv exampleResult c2 = Some c'"
    using c' exampleResult_checked
    by (auto simp: handleBroadcastMsg_def processResultBroadcastMsg_def exampleResult_def split: Option.bind_splits)
  have "\<exists>dc. SetConsensusTurn ?turn (ct_dc exampleCtrl) = Some (Inr dc)"
    by (simp add: SetConsensusTurn_def exampleCtrl_fields exampleSchedule_fields exampleSchedule_leader)
  then have "ConsensusTurn c2 = ?turn"
    using finishReelectWithRLConsensus_turn [OF c2(1) rl(2)]
    by (auto simp: exampleRequest_def exampleInquiry_def calcNextConsensusTurn_def TotalTurns_def)
  moreover have "sends c2 c'" using c2(2) by (auto simp: sendResultBroadcastRsp_def Let_def split: Option.bind_splits sum.splits)
  ultimately have t: "ConsensusTurn c' = ?turn" by (auto dest: sends_stays simp: stays_def)
  then have "ConsensusTurn c' \<noteq> ConsensusTurn exampleCtrl"
    by (simp add: ConsensusTurn_def exampleCtrl_fields exampleSchedule_fields)
  with c' t show thesis by (rule that)
qed

lemma exampleCtrl_graph:
  "cdcGetGraphByHash (e_chain exampleEnv) (ct_dc exampleCtrl) (ParentHash exampleCtrl)
   = Inr (exampleGraph, \<lparr>eg_Number = 0, ElectList = [], NextMinerElect = [], NextValidatorElect = []\<rparr>)"
  using exampleReader_approved(2) by (simp add: exampleEnv_def exampleCtrl_fields ParentHash_def exampleSchedule_fields)

theorem consensus_turn_quorum_witness:
  "\<exists>c' req votes. ctrlRun exampleEnv (MsgCh (ResultBroadcastMsg (Some exampleResult))) exampleCtrl = Some c'
     \<and> ConsensusTurn c' = \<lparr>PreConsensusTurn = 0, UsedReelectTurn = 1\<rparr>
     \<and> 4 \<le> card (requestVoters exampleEnv exampleCtrl exampleGraph req votes)"
proof -
  obtain c' where c': "ctrlRun exampleEnv (MsgCh (ResultBroadcastMsg (Some exampleResult))) exampleCtrl = Some c'"
    "ConsensusTurn c' = \<lparr>PreConsensusTurn = 0, UsedReelectTurn = 1\<rparr>" "ConsensusTurn c' \<noteq> ConsensusTurn exampleCtrl"
    by (rule exampleResult_step)
  have "targetCount (card (set (validatorAccounts exampleGraph))) = 4" by (simp add: exampleReader_graph targetCount_def)
  with consensus_turn_quorum [OF c'(1,3) exampleCtrl_graph] obtain req votes where
    "4 \<le> card (requestVoters exampleEnv exampleCtrl exampleGraph req votes)" by (auto simp: exampleReader_graph(2))
  with c'(1,2) show ?thesis by blast
qed

section \<open>Votes\<close>

lemma checkRLReqMsg_cases:
  assumes "checkRLReqMsg env (Some req) c = Some (Inr u)"
  obtains inquiry where "lr_InquiryReq req = Some inquiry" "iq_ConsensusTurn inquiry = ConsensusTurn c"
    "iq_ReelectTurn inquiry = dc_curReelectTurn (ct_dc c)" "iq_Master inquiry = GetReelectMaster (ct_dc c)"
    "CheckTimeLegal (dc_turnTime (ct_dc c)) (TotalTurns (ConsensusTurn c)) (dc_curReelectTurn (ct_dc c))
       (sint (lr_TimeStamp req)) = Inr ()"
  using assms
  by (auto simp: checkRLReqMsg_def Let_def ConsensusTurn_def split: option.splits if_splits sum.splits)

text \<open>C3. Validators of a height do not vote for two masters at a time: when two of them, with the same
  schedule and the same clock of the height but perhaps different consensus turns, accept leader
  requests with the same time stamp in re-election turns, then the requests are for the same turn and
  the same master, the one the schedule gives for the turn.\<close>

theorem votes_same_master:
  assumes "checkRLReqMsg env1 (Some req1) c1 = Some (Inr ())" "checkRLReqMsg env2 (Some req2) c2 = Some (Inr ())"
    and "lr_InquiryReq req1 = Some inquiry1" "lr_InquiryReq req2 = Some inquiry2" "lr_TimeStamp req1 = lr_TimeStamp req2"
    and "leadersOK (ct_dc c1)" "leadersOK (ct_dc c2)"
    and "dc_curReelectTurn (ct_dc c1) \<noteq> 0" "dc_curReelectTurn (ct_dc c2) \<noteq> 0"
    and "dc_turnTime (ct_dc c1) = dc_turnTime (ct_dc c2)" "timesOK (dc_turnTime (ct_dc c2))"
    and "dc_leaderCal (ct_dc c1) = dc_leaderCal (ct_dc c2)" "dc_bcInterval (ct_dc c1) = dc_bcInterval (ct_dc c2)"
    and "cdcGetLeader (ct_dc c1) (TotalTurns (ConsensusTurn c1) + dc_curReelectTurn (ct_dc c1)) (dc_bcInterval (ct_dc c1))
      = Some (Inr leader)"
  shows "TotalTurns (iq_ConsensusTurn inquiry1) + iq_ReelectTurn inquiry1
      = TotalTurns (iq_ConsensusTurn inquiry2) + iq_ReelectTurn inquiry2
    \<and> iq_Master inquiry1 = leader \<and> iq_Master inquiry2 = leader"
proof -
  from assms(1,3) have i1: "iq_ConsensusTurn inquiry1 = ConsensusTurn c1" "iq_ReelectTurn inquiry1 = dc_curReelectTurn (ct_dc c1)"
    "iq_Master inquiry1 = GetReelectMaster (ct_dc c1)"
    "CheckTimeLegal (dc_turnTime (ct_dc c1)) (TotalTurns (ConsensusTurn c1)) (dc_curReelectTurn (ct_dc c1)) (sint (lr_TimeStamp req1)) = Inr ()"
    by (auto elim: checkRLReqMsg_cases)
  from assms(2,4) have i2: "iq_ConsensusTurn inquiry2 = ConsensusTurn c2" "iq_ReelectTurn inquiry2 = dc_curReelectTurn (ct_dc c2)"
    "iq_Master inquiry2 = GetReelectMaster (ct_dc c2)"
    "CheckTimeLegal (dc_turnTime (ct_dc c2)) (TotalTurns (ConsensusTurn c2)) (dc_curReelectTurn (ct_dc c2)) (sint (lr_TimeStamp req2)) = Inr ()"
    by (auto elim: checkRLReqMsg_cases)
  have t: "TotalTurns (ConsensusTurn c1) + dc_curReelectTurn (ct_dc c1) = TotalTurns (ConsensusTurn c2) + dc_curReelectTurn (ct_dc c2)"
    using CheckTimeLegal_turn [OF assms(11)] i1(4) i2(4) assms(5,10) by metis
  have m1: "GetReelectMaster (ct_dc c1) = leader"
    using assms(6,8,14) by (simp add: leadersOK_def GetReelectMaster_def ConsensusTurn_def)
  have "cdcGetLeader (ct_dc c2) (TotalTurns (ConsensusTurn c2) + dc_curReelectTurn (ct_dc c2)) (dc_bcInterval (ct_dc c2))
      = Some (Inr leader)"
    using assms(12,13,14) t cdcGetLeader_cong by metis
  then have "GetReelectMaster (ct_dc c2) = leader"
    using assms(7,9) by (simp add: leadersOK_def GetReelectMaster_def ConsensusTurn_def)
  with m1 t i1 i2 show ?thesis by simp
qed

definition exampleAt :: "u32 \<Rightarrow> u32 \<Rightarrow> address \<Rightarrow> controller" where
  "exampleAt used rt leader = exampleCtrl\<lparr>ct_dc := exampleSchedule\<lparr>dc_state := stReelect,
     dc_curConsensusTurn := \<lparr>PreConsensusTurn = 0, UsedReelectTurn = used\<rparr>, dc_consensusLeader := leader,
     dc_curReelectTurn := rt, dc_reelectMaster := 10\<rparr>\<rparr>"

definition exampleRequestAt :: "u32 \<Rightarrow> u32 \<Rightarrow> HD_V2_ReelectLeaderReqMsg" where
  "exampleRequestAt used rt =
     \<lparr>lr_InquiryReq = Some (exampleInquiry\<lparr>iq_Number := 5, iq_ConsensusTurn := \<lparr>PreConsensusTurn = 0, UsedReelectTurn = used\<rparr>,
        iq_ReelectTurn := rt, iq_TimeStamp := 1104, iq_Master := 10, iq_From := 10\<rparr>),
      lr_AgreeSigns = [(10, 0), (11, 0), (12, 0), (13, 0)], lr_TimeStamp = 1105\<rparr>"

lemma exampleAt_fields:
  "dc_leaderCal (ct_dc (exampleAt used rt l)) = dc_leaderCal exampleSchedule"
  "dc_bcInterval (ct_dc (exampleAt used rt l)) = Some exampleInterval" "dc_turnTime (ct_dc (exampleAt used rt l)) = exampleTimes"
  "dc_curConsensusTurn (ct_dc (exampleAt used rt l)) = \<lparr>PreConsensusTurn = 0, UsedReelectTurn = used\<rparr>"
  "dc_curReelectTurn (ct_dc (exampleAt used rt l)) = rt" "dc_reelectMaster (ct_dc (exampleAt used rt l)) = 10"
  "dc_consensusLeader (ct_dc (exampleAt used rt l)) = l" "dc_preHash (ct_dc (exampleAt used rt l)) = 7"
  "mp_parentHeader (ct_mp (exampleAt used rt l)) = Some exampleParent"
  "cdcReader exampleBlockChain (ct_dc (exampleAt used rt l)) = cdcReader exampleBlockChain exampleSchedule"
  "cdcGetLeader (ct_dc (exampleAt used rt l)) = cdcGetLeader exampleSchedule"
  by (simp_all add: exampleAt_def exampleSchedule_fields exampleCtrl_fields frame_simps)
    (simp_all add: cdcReader_def fun_eq_iff cdcGetCurrentHash_def cdcGetGraphByHash_def cdcGetBroadcastAccounts_def
      cdcGetVersionSuperAccounts_def cdcGetBlockSuperAccounts_def cdcGetBroadcastIntervalByHash_def
      cdcGetA0AccountFromAnyAccount_def getA0Account_def exampleSchedule_fields cong: if_cong option.case_cong)

lemma exampleAt_leaders: "used + rt = 2 \<Longrightarrow> l = leaderAt (dc_leaderCal exampleSchedule) used \<Longrightarrow> leadersOK (ct_dc (exampleAt used rt l))"
  by (simp add: leadersOK_def exampleAt_fields TotalTurns_def exampleSchedule_leader)

lemma exampleAt_checked:
  assumes "used + rt = 2"
  shows "checkRLReqMsg exampleEnv (Some (exampleRequestAt used rt)) (exampleAt used rt l) = Some (Inr ())"
proof -
  obtain f where f: "VerifyHashWithBlock (NewMtxDPOS False) exampleCrypto (cdcReader exampleBlockChain exampleSchedule)
      h [(10, 0), (11, 0), (12, 0), (13, 0)] 7 = Inr (f h)" for h using exampleSchedule_verified by metis
  have "CheckTimeLegal exampleTimes used rt 1105 = Inr ()"
    using assms by (simp add: CheckTimeLegal_iff example_defs)
  then show ?thesis
    by (simp add: checkRLReqMsg_def exampleRequestAt_def exampleInquiry_def exampleAt_fields GetReelectMaster_def TotalTurns_def
        DPOSEngine_total ParentHash_def exampleSchedule_fields exampleEnv_def f)
qed

theorem votes_same_master_witness:
  "checkRLReqMsg exampleEnv (Some (exampleRequestAt 0 2)) (exampleAt 0 2 12) = Some (Inr ())
   \<and> checkRLReqMsg exampleEnv (Some (exampleRequestAt 1 1)) (exampleAt 1 1 13) = Some (Inr ())
   \<and> iq_Master (the (lr_InquiryReq (exampleRequestAt 1 1))) = 10"
proof -
  have l: "leaderAt (dc_leaderCal exampleSchedule) 1 = 13"
    by (simp add: leaderAt_def exampleSchedule_def newLeaderCalculator_def mapGet_def mapLen_def)
  obtain i1 i2 where i: "lr_InquiryReq (exampleRequestAt 0 2) = Some i1" "lr_InquiryReq (exampleRequestAt 1 1) = Some i2"
    by (simp add: exampleRequestAt_def)
  have t: "timesOK exampleTimes" by (simp add: example_defs)
  note c = exampleAt_checked [of 0 2 12] exampleAt_checked [of 1 1 13]
  have "iq_Master i2 = 10"
    using votes_same_master [of exampleEnv "exampleRequestAt 0 2" "exampleAt 0 2 12" exampleEnv "exampleRequestAt 1 1"
        "exampleAt 1 1 13" i1 i2 10] c i exampleAt_leaders [of 0 2 12] exampleAt_leaders [of 1 1 13] t l
    by (simp add: exampleAt_fields exampleSchedule_leader exampleRequestAt_def ConsensusTurn_def TotalTurns_def)
  with c i show ?thesis by simp
qed

section \<open>Time-outs\<close>

lemma setTimer_positive: "0 < t \<Longrightarrow> setTimer t \<noteq> None"
  by (simp add: setTimer_def)

lemma GetBeginTime_le: "timesOK tt \<Longrightarrow> GetBeginTime tt ct \<le> GetPosEndTime tt ct"
  by (simp add: GetBeginTime_def GetPosEndTime_def CalTurnTime_exact) (simp add: timesOK_def)

lemma startReelect_keeps:
  assumes "startReelect env turn c = Some c'"
  shows "State c' = State c \<and> ct_timer c' = ct_timer c"
  using assms
proof (cases rule: startReelect_cases)
  case (entered dc m t)
  from entered(1) have "dc_state dc = State c" by (cases rule: SetReelectTurn_cases) (auto simp: State_def)
  with sends_fields [OF entered(2)] show ?thesis by (simp add: State_def)
qed simp_all

lemma startReelect_reaches:
  assumes "startReelect env turn c = Some c'" "State c = stReelect" "turn \<noteq> 0" "leadersOK (ct_dc c)"
    and "cdcGetLeader (ct_dc c) (TotalTurns (ConsensusTurn c) + turn) (dc_bcInterval (ct_dc c)) = Some (Inr leader)"
  shows "dc_curReelectTurn (ct_dc c') = turn \<and> GetReelectMaster (ct_dc c') = leader"
  using assms(1)
proof (cases rule: startReelect_cases)
  case same
  with assms show ?thesis by (simp add: leadersOK_def GetReelectMaster_def ConsensusTurn_def)
next
  case failed
  with assms show ?thesis by (auto simp: SetReelectTurn_def ConsensusTurn_def split: if_splits)
next
  case (entered dc m t)
  from entered(1) have "dc_curReelectTurn dc = turn \<and> GetReelectMaster dc = leader"
    by (cases rule: SetReelectTurn_cases) (use assms in \<open>auto simp: leadersOK_def GetReelectMaster_def ConsensusTurn_def\<close>)
  with sends_fields [OF entered(2)] show ?thesis by (simp add: GetReelectMaster_def)
qed

text \<open>C8. A time-out makes progress: when the timer fires in a POS or re-election phase after the POS time
  of the consensus turn, the handler returns, the controller is in the re-election phase with the timer
  armed again for the rest of the turn the clock is in, and, if the schedule has a leader for that turn,
  its re-election turn is that turn of the clock and its master is that leader.\<close>

theorem timeOutHandle_progress:
  assumes "ctrlOK c" "leadersOK (ct_dc c)" "State c = stPos \<or> State c = stReelect"
    and "tt = dc_turnTime (ct_dc c)" "timesOK tt" "ct = TotalTurns (ConsensusTurn c)"
    and "GetPosEndTime tt ct \<le> e_now env" "e_now env < horizon tt"
  shows "\<exists>c' rt. timeOutHandle env c = Some c' \<and> uint ct + uint rt = turnNumber tt (e_now env) \<and> rt \<noteq> 0
    \<and> State c' = stReelect \<and> ct_timer c' = setTimer (snd (CalTurnTime tt ct rt) - e_now env) \<and> ct_timer c' \<noteq> None
    \<and> (\<forall>leader. cdcGetLeader (ct_dc c) (ct + rt) (dc_bcInterval (ct_dc c)) = Some (Inr leader)
         \<longrightarrow> dc_curReelectTurn (ct_dc c') = rt \<and> GetReelectMaster (ct_dc c') = leader)"
proof -
  have b: "GetBeginTime tt ct \<le> e_now env" using GetBeginTime_le [OF assms(5), of ct] assms(7) by linarith
  obtain st remain rt where cs: "CalState tt ct (e_now env) = (st, remain, rt)" by (metis prod_cases3)
  note turn = CalState_in_turn [OF assms(5) b assms(8) cs]
  have st: "st = stReelect" using CalState_reelect(1) [OF assms(5,7,8)] cs by simp
  then have rt: "rt \<noteq> 0" using turn by auto
  let ?c = "c\<lparr>ct_timer := setTimer remain, ct_dc := (ct_dc c)\<lparr>dc_state := st\<rparr>\<rparr>"
  have s: "timeOutHandle env c = startReelect env rt ?c"
    using cs assms(3,4,6) by (simp add: timeOutHandle_def ConsensusTurn_def)
  from timeOutHandle_fine [OF assms(1), of env] obtain c' where c': "startReelect env rt ?c = Some c'" unfolding s by (rule fineE)
  have k: "State c' = stReelect \<and> ct_timer c' = setTimer remain" using startReelect_keeps [OF c'] st by (simp add: State_def)
  have "dc_curReelectTurn (ct_dc c') = rt \<and> GetReelectMaster (ct_dc c') = leader"
    if "cdcGetLeader (ct_dc c) (ct + rt) (dc_bcInterval (ct_dc c)) = Some (Inr leader)" for leader
    using startReelect_reaches [OF c' _ rt, of leader] that assms(2,6) st
    by (simp add: State_def ConsensusTurn_def frame_simps leadersOK_def)
  moreover have "0 < remain" "remain = snd (CalTurnTime tt ct rt) - e_now env" using turn by auto
  ultimately show ?thesis using s c' k turn rt setTimer_positive by metis
qed

theorem timeOutHandle_progress_witness:
  "\<exists>c'. timeOutHandle exampleEnv exampleCtrl = Some c' \<and> State c' = stReelect \<and> ct_timer c' \<noteq> None
     \<and> dc_curReelectTurn (ct_dc c') = 2 \<and> GetReelectMaster (ct_dc c') = 10"
proof -
  have t: "timesOK exampleTimes" "GetPosEndTime exampleTimes 0 \<le> 1105" "1105 < horizon exampleTimes"
    "turnNumber exampleTimes 1105 = 2"
    by (simp_all add: example_defs GetPosEndTime_def turnNumber_def)
  have c: "State exampleCtrl = stPos \<or> State exampleCtrl = stReelect" "exampleTimes = dc_turnTime (ct_dc exampleCtrl)"
    "0 = TotalTurns (ConsensusTurn exampleCtrl)" "e_now exampleEnv = 1105"
    by (simp_all add: State_def ConsensusTurn_def TotalTurns_def exampleCtrl_fields exampleSchedule_fields exampleEnv_def)
  obtain c' rt where c': "timeOutHandle exampleEnv exampleCtrl = Some c'" "State c' = stReelect" "ct_timer c' \<noteq> None"
    and rt: "uint (0 :: u32) + uint rt = turnNumber exampleTimes 1105"
    and l: "\<And>leader. cdcGetLeader (ct_dc exampleCtrl) (0 + rt) (dc_bcInterval (ct_dc exampleCtrl)) = Some (Inr leader)
      \<Longrightarrow> dc_curReelectTurn (ct_dc c') = rt \<and> GetReelectMaster (ct_dc c') = leader"
    using timeOutHandle_progress [OF exampleCtrl_OK exampleCtrl_leaders c(1,2) t(1) c(3), of exampleEnv] t(2,3) unfolding c(4)
    by blast
  have "rt = 2" using rt t(4) by (simp add: word_uint_eq_iff)
  with l [of 10] c' show ?thesis
    by (simp add: exampleCtrl_fields exampleSchedule_fields exampleSchedule_leader)
qed

end
