(* ===== verification/CtrlManager.thy ===== *)
theory CtrlManager
  imports Reelection
begin

text \<open>
  The manager of the controllers and the leader service (\<open>leaderelect2.0/ctrlManager.go\<close>,
  \<open>leaderReElection.go\<close>).  The service starts a goroutine for every event it receives; the manager's
  mutex makes each of its operations one step.  A controller is a goroutine of its own that reads a
  channel of ten messages.  The state holds the controllers of the map and those that were closed and
  removed, which may still handle messages before they see the closed channel.
\<close>

section \<open>Controllers as goroutines\<close>

definition mangerCacheMax :: u64 where
  "mangerCacheMax = 2"

definition msgChSize :: nat where
  "msgChSize = 10"

record ctrlProc =
  cp_ctrl :: controller
  cp_msgCh :: "ctrlMsg list"

definition ReceiveMsg :: "ctrlMsg \<Rightarrow> ctrlProc \<Rightarrow> ctrlProc" where
  "ReceiveMsg msg p = p\<lparr>cp_msgCh := cp_msgCh p @ [msg]\<rparr>"

definition newProc :: "u64 \<Rightarrow> ctrlProc option" where
  "newProc number = do { c \<leftarrow> newController number; Some \<lparr>cp_ctrl = c, cp_msgCh = []\<rparr> }"

section \<open>The manager\<close>

record ControllerManager =
  cm_curChainState :: ChainState
  cm_ctrlMap :: "(u64, ctrlProc) gomap"
  cm_closed :: "ctrlProc list"

definition NewControllerManager :: ControllerManager where
  "NewControllerManager = \<lparr>cm_curChainState = \<lparr>cs_superSeq = 0, cs_curNumber = 0\<rparr>, cm_ctrlMap = mapMake, cm_closed = []\<rparr>"

definition isLegalNumber :: "u64 \<Rightarrow> ControllerManager \<Rightarrow> error option" where
  "isLegalNumber number cm =
     (if number < cs_curNumber (cm_curChainState cm) then Some (Errorf ''number is less than current number'')
      else if number > cs_curNumber (cm_curChainState cm) + mangerCacheMax
      then Some (Errorf ''number is too big than current number'')
      else None)"

definition fixCtrlMap :: "ControllerManager \<Rightarrow> ControllerManager" where
  "fixCtrlMap cm =
     (let del = filter (\<lambda>(key, ctrl). isLegalNumber key cm \<noteq> None) (cm_ctrlMap cm)
      in cm\<lparr>cm_ctrlMap := fold mapDelete (map fst del) (cm_ctrlMap cm), cm_closed := cm_closed cm @ map snd del\<rparr>)"

definition clearCtrlMap :: "ControllerManager \<Rightarrow> ControllerManager" where
  "clearCtrlMap cm = cm\<lparr>cm_ctrlMap := mapMake, cm_closed := cm_closed cm @ map snd (cm_ctrlMap cm)\<rparr>"

definition getController :: "u64 \<Rightarrow> ControllerManager \<Rightarrow> (ctrlProc \<times> ControllerManager) option" where
  "getController number cm =
     (case mapGet (cm_ctrlMap cm) number of
        Some ctrl \<Rightarrow> Some (ctrl, cm)
      | None \<Rightarrow> do { ctrl \<leftarrow> newProc number; Some (ctrl, cm\<lparr>cm_ctrlMap := mapSet number ctrl (cm_ctrlMap cm)\<rparr>) })"

text \<open>The message goes to the controller the map points to.\<close>

definition sendTo :: "u64 \<Rightarrow> ctrlMsg \<Rightarrow> ControllerManager \<Rightarrow> ControllerManager option" where
  "sendTo number msg cm =
     do { (ctrl, cm') \<leftarrow> getController number cm;
          Some (cm'\<lparr>cm_ctrlMap := mapSet number (ReceiveMsg msg ctrl) (cm_ctrlMap cm')\<rparr>) }"

definition StartController :: "u64 \<Rightarrow> u64 \<Rightarrow> startControllerMsg \<Rightarrow> ControllerManager \<Rightarrow> ControllerManager option" where
  "StartController number superBlkSeq msg cm =
     (let order = chainCmp (cm_curChainState cm) superBlkSeq number
      in if order = 1 then Some cm
         else
           (let cm' = (if order = -1 then
                         (let cm1 = (if cs_superSeq (cm_curChainState cm) < superBlkSeq then clearCtrlMap cm else cm)
                          in fixCtrlMap (cm1\<lparr>cm_curChainState := chainReset superBlkSeq number\<rparr>))
                       else cm)
            in sendTo number (StartMsg (Some msg)) cm'))"

definition ReceiveMsgByCur :: "ctrlMsg \<Rightarrow> ControllerManager \<Rightarrow> ControllerManager option" where
  "ReceiveMsgByCur msg cm =
     (if cs_curNumber (cm_curChainState cm) \<le> 0 then Some cm
      else sendTo (cs_curNumber (cm_curChainState cm)) msg cm)"

definition cmReceiveMsg :: "u64 \<Rightarrow> ctrlMsg \<Rightarrow> ControllerManager \<Rightarrow> (error option \<times> ControllerManager) option" where
  "cmReceiveMsg number msg cm =
     (if number \<le> 0 then Some (Some (Errorf ''number(0) is illegal''), cm)
      else
        (case isLegalNumber number cm of
           Some e \<Rightarrow> Some (Some e, cm)
         | None \<Rightarrow> do { cm' \<leftarrow> sendTo number msg cm; Some (None, cm') }))"

section \<open>The leader service\<close>

record NewBlockReadyMsg =
  nb_Header :: "Header option"
  nb_State :: "StateDB option"

record RoleUpdatedMsg =
  ru_Role :: RoleType
  ru_BlockNum :: u64
  ru_BlockHash :: hash
  ru_Leader :: address
  ru_SuperSeq :: u64

definition newBlockReadyBCHandle :: "NewBlockReadyMsg option \<Rightarrow> ControllerManager \<Rightarrow> ControllerManager option" where
  "newBlockReadyBCHandle m cm =
     (case m of
        None \<Rightarrow> Some cm
      | Some msg \<Rightarrow>
          (case nb_Header msg of
             None \<Rightarrow> Some cm
           | Some header \<Rightarrow>
               (let curNumber = Uint64 (h_Number header)
                in do { st \<leftarrow> nb_State msg;
                        case st_SuperBlockCfg st of
                          Inl e \<Rightarrow> Some cm
                        | Inr supBlkState \<Rightarrow>
                            StartController (curNumber + 1) (sb_Seq supBlkState)
                              \<lparr>sc_parentHeader = Some header, sc_parentStateDB = Some st\<rparr> cm })))"

definition roleUpdateMsgHandle :: "BlockChain \<Rightarrow> RoleUpdatedMsg option \<Rightarrow> ControllerManager \<Rightarrow> ControllerManager option" where
  "roleUpdateMsgHandle chain m cm =
     (case m of
        None \<Rightarrow> Some cm
      | Some msg \<Rightarrow>
          (if ru_Leader msg = 0 then Some cm
           else
             (case bc_GetHeaderByHash chain (ru_BlockHash msg) of
                None \<Rightarrow> Some cm
              | Some header \<Rightarrow>
                  (case bc_StateAt chain (h_Roots header) of
                     Inl e \<Rightarrow> Some cm
                   | Inr parentState \<Rightarrow>
                       StartController (ru_BlockNum msg + 1) (ru_SuperSeq msg)
                         \<lparr>sc_parentHeader = Some header, sc_parentStateDB = Some parentState\<rparr> cm))))"

text \<open>The error of the manager is only logged.\<close>

definition receiveLogged :: "u64 \<Rightarrow> ctrlMsg \<Rightarrow> ControllerManager \<Rightarrow> ControllerManager option" where
  "receiveLogged number msg cm = do { (err, cm') \<leftarrow> cmReceiveMsg number msg cm; Some cm' }"

definition blockPOSFinishedMsgHandle :: "BlockPOSFinishedNotify option \<Rightarrow> ControllerManager \<Rightarrow> ControllerManager option" where
  "blockPOSFinishedMsgHandle m cm =
     (case m of
        None \<Rightarrow> Some cm
      | Some msg \<Rightarrow>
          do { header \<leftarrow> pn_Header msg;
               if h_Leader header = 0 then Some cm
               else if VersionCmp (h_Version header) VersionGamma < 0 then Some cm
               else receiveLogged (pn_Number msg) (POSFinishedMsg (Some msg)) cm })"

definition rlInquiryReqHandle :: "HD_V2_ReelectInquiryReqMsg option \<Rightarrow> ControllerManager \<Rightarrow> ControllerManager option" where
  "rlInquiryReqHandle m cm = (case m of None \<Rightarrow> Some cm | Some req \<Rightarrow> ReceiveMsgByCur (InquiryReqMsg (Some req)) cm)"

definition rlInquiryRspHandle :: "HD_V2_ReelectInquiryRspMsg option \<Rightarrow> ControllerManager \<Rightarrow> ControllerManager option" where
  "rlInquiryRspHandle m cm =
     (case m of None \<Rightarrow> Some cm | Some rsp \<Rightarrow> receiveLogged (ir_Number rsp) (InquiryRspMsg (Some rsp)) cm)"

definition rlReqMsgHandle :: "HD_V2_ReelectLeaderReqMsg option \<Rightarrow> ControllerManager \<Rightarrow> ControllerManager option" where
  "rlReqMsgHandle m cm =
     (case m of
        None \<Rightarrow> Some cm
      | Some req \<Rightarrow>
          do { inquiry \<leftarrow> lr_InquiryReq req; receiveLogged (iq_Number inquiry) (RLReqMsg (Some req)) cm })"

definition rlVoteMsgHandle :: "HD_V2_ConsensusVote option \<Rightarrow> ControllerManager \<Rightarrow> ControllerManager option" where
  "rlVoteMsgHandle m cm =
     (case m of None \<Rightarrow> Some cm | Some req \<Rightarrow> receiveLogged (cv_Number req) (RLVoteMsg (Some req)) cm)"

definition rlBroadcastHandle :: "HD_V2_ReelectBroadcastMsg option \<Rightarrow> ControllerManager \<Rightarrow> ControllerManager option" where
  "rlBroadcastHandle m cm =
     (case m of None \<Rightarrow> Some cm | Some msg \<Rightarrow> receiveLogged (rb_Number msg) (ResultBroadcastMsg (Some msg)) cm)"

definition rlBroadcastRspHandle :: "HD_V2_ReelectBroadcastRspMsg option \<Rightarrow> ControllerManager \<Rightarrow> ControllerManager option" where
  "rlBroadcastRspHandle m cm =
     (case m of None \<Rightarrow> Some cm | Some rsp \<Rightarrow> receiveLogged (rr_Number rsp) (ResultBroadcastRspMsg (Some rsp)) cm)"

text \<open>The events the service subscribes to.\<close>

datatype leaderEvent =
    NewBlockReady "NewBlockReadyMsg option"
  | RoleUpdated "RoleUpdatedMsg option"
  | POSFinished "BlockPOSFinishedNotify option"
  | InquiryReq "HD_V2_ReelectInquiryReqMsg option"
  | InquiryRsp "HD_V2_ReelectInquiryRspMsg option"
  | RLReq "HD_V2_ReelectLeaderReqMsg option"
  | RLVote "HD_V2_ConsensusVote option"
  | RLBroadcast "HD_V2_ReelectBroadcastMsg option"
  | RLBroadcastRsp "HD_V2_ReelectBroadcastRspMsg option"

fun leaderRun :: "BlockChain \<Rightarrow> leaderEvent \<Rightarrow> ControllerManager \<Rightarrow> ControllerManager option" where
  "leaderRun chain (NewBlockReady m) cm = newBlockReadyBCHandle m cm"
| "leaderRun chain (RoleUpdated m) cm = roleUpdateMsgHandle chain m cm"
| "leaderRun chain (POSFinished m) cm = blockPOSFinishedMsgHandle m cm"
| "leaderRun chain (InquiryReq m) cm = rlInquiryReqHandle m cm"
| "leaderRun chain (InquiryRsp m) cm = rlInquiryRspHandle m cm"
| "leaderRun chain (RLReq m) cm = rlReqMsgHandle m cm"
| "leaderRun chain (RLVote m) cm = rlVoteMsgHandle m cm"
| "leaderRun chain (RLBroadcast m) cm = rlBroadcastHandle m cm"
| "leaderRun chain (RLBroadcastRsp m) cm = rlBroadcastRspHandle m cm"

section \<open>Interleavings\<close>

text \<open>
  One step of a controller: it takes the first message of its channel, or one of its timers fires.
\<close>

inductive procStep :: "ctrlProc \<Rightarrow> ctrlProc \<Rightarrow> bool" where
  take_msg: "cp_msgCh p = m # ms \<Longrightarrow> ctrlRun env (MsgCh m) (cp_ctrl p) = Some c
    \<Longrightarrow> procStep p \<lparr>cp_ctrl = c, cp_msgCh = ms\<rparr>"
| timer: "ctrlRun env TimerC (cp_ctrl p) = Some c \<Longrightarrow> procStep p (p\<lparr>cp_ctrl := c\<rparr>)"
| reelect_timer: "ctrlRun env ReelectTimerC (cp_ctrl p) = Some c \<Longrightarrow> procStep p (p\<lparr>cp_ctrl := c\<rparr>)"

text \<open>
  One step of the node: an event of the service, when the channel it sends to has room; a step of a
  controller of the map or of a closed one; or the end of a closed one.
\<close>

inductive leaderStep :: "ControllerManager \<Rightarrow> ControllerManager \<Rightarrow> bool" where
  event: "leaderRun chain ev cm = Some cm' \<Longrightarrow> \<forall>n p. mapGet (cm_ctrlMap cm') n = Some p \<longrightarrow> length (cp_msgCh p) \<le> msgChSize
    \<Longrightarrow> leaderStep cm cm'"
| live: "mapGet (cm_ctrlMap cm) n = Some p \<Longrightarrow> procStep p p'
    \<Longrightarrow> leaderStep cm (cm\<lparr>cm_ctrlMap := mapSet n p' (cm_ctrlMap cm)\<rparr>)"
| closed: "i < length (cm_closed cm) \<Longrightarrow> procStep (cm_closed cm ! i) p'
    \<Longrightarrow> leaderStep cm (cm\<lparr>cm_closed := (cm_closed cm)[i := p']\<rparr>)"
| quit: "i < length (cm_closed cm) \<Longrightarrow> leaderStep cm (cm\<lparr>cm_closed := take i (cm_closed cm) @ drop (Suc i) (cm_closed cm)\<rparr>)"

inductive reachable :: "ControllerManager \<Rightarrow> bool" where
  init: "reachable NewControllerManager"
| step: "reachable cm \<Longrightarrow> leaderStep cm cm' \<Longrightarrow> reachable cm'"

section \<open>Every controller is a run of its own\<close>

text \<open>
  Whatever the interleaving, a controller is the result of one sequence of events from its creation.
\<close>

definition runOf :: "u64 \<Rightarrow> ctrlProc \<Rightarrow> bool" where
  "runOf n p \<longleftrightarrow> (\<exists>c evs. newController n = Some c \<and> ctrlRuns evs c = Some (cp_ctrl p))"

lemma ctrlRuns_append: "ctrlRuns (evs @ evs') c = do { c' \<leftarrow> ctrlRuns evs c; ctrlRuns evs' c' }"
proof (induction evs arbitrary: c)
  case (Cons m evs)
  show ?case
  proof (cases m)
    case (Pair env ev)
    with Cons.IH show ?thesis by (cases "ctrlRun env ev c") simp_all
  qed
qed simp

lemma runOf_step: "runOf n p \<Longrightarrow> ctrlRun env ev (cp_ctrl p) = Some (cp_ctrl p') \<Longrightarrow> runOf n p'"
  unfolding runOf_def
proof (elim exE conjE)
  fix c evs
  assume "newController n = Some c" "ctrlRuns evs c = Some (cp_ctrl p)" "ctrlRun env ev (cp_ctrl p) = Some (cp_ctrl p')"
  then have "ctrlRuns (evs @ [(env, ev)]) c = Some (cp_ctrl p')" by (simp add: ctrlRuns_append)
  with \<open>newController n = Some c\<close> show "\<exists>c evs. newController n = Some c \<and> ctrlRuns evs c = Some (cp_ctrl p')" by blast
qed

lemma procStep_runOf:
  assumes "procStep p p'" "runOf n p"
  shows "runOf n p'"
  using assms(1)
proof (cases rule: procStep.cases)
  case (take_msg m ms env c)
  then show ?thesis by (intro runOf_step [OF assms(2), of env "MsgCh m"]) simp
next
  case (timer env c)
  then show ?thesis by (intro runOf_step [OF assms(2), of env TimerC]) simp
next
  case (reelect_timer env c)
  then show ?thesis by (intro runOf_step [OF assms(2), of env ReelectTimerC]) simp
qed

lemma newProc_runOf: "newProc n = Some p \<Longrightarrow> runOf n p"
  unfolding newProc_def runOf_def bind_eq_Some_conv using ctrlRuns.simps(1) by (metis ctrlProc.select_convs(1) option.inject)

lemma ReceiveMsg_runOf: "runOf n (ReceiveMsg msg p) = runOf n p"
  by (simp add: runOf_def ReceiveMsg_def)

lemma runOf_keeps: "runOf n p \<Longrightarrow> Number (cp_ctrl p) = n \<and> leadersOK (ct_dc (cp_ctrl p))"
proof -
  assume "runOf n p"
  then obtain c evs where c: "newController n = Some c" "ctrlRuns evs c = Some (cp_ctrl p)" by (auto simp: runOf_def)
  then have "Number c = n" "leadersOK (ct_dc c)"
    using leadersOK_new by (auto simp: newController_def Number_def newCDC_def split: if_splits)
  with c(2) show ?thesis using ctrl.run_inv_le [of c evs] by (simp add: ctrl_run advances_def)
qed

section \<open>The window of heights\<close>

definition inWindow :: "ControllerManager \<Rightarrow> u64 \<Rightarrow> bool" where
  "inWindow cm n \<longleftrightarrow> cs_curNumber (cm_curChainState cm) \<le> n \<and> unat n \<le> unat (cs_curNumber (cm_curChainState cm)) + 2"

definition managerOK :: "ControllerManager \<Rightarrow> bool" where
  "managerOK cm \<longleftrightarrow> mapOK (cm_ctrlMap cm)
     \<and> (\<forall>n p. mapGet (cm_ctrlMap cm) n = Some p \<longrightarrow> inWindow cm n \<and> runOf n p)
     \<and> (\<forall>p \<in> set (cm_closed cm). \<exists>n. runOf n p)"

lemma legal_inWindow: "isLegalNumber n cm = None \<Longrightarrow> inWindow cm n"
proof -
  assume "isLegalNumber n cm = None"
  then have "cs_curNumber (cm_curChainState cm) \<le> n" "n \<le> cs_curNumber (cm_curChainState cm) + 2"
    by (simp_all add: isLegalNumber_def mangerCacheMax_def not_less split: if_splits)
  moreover have "unat (cs_curNumber (cm_curChainState cm) + 2) \<le> unat (cs_curNumber (cm_curChainState cm)) + 2"
    by (simp add: unat_word_ariths)
  ultimately show ?thesis by (auto simp: inWindow_def word_le_nat_alt)
qed

lemma fold_mapDelete:
  "mapOK m \<Longrightarrow> mapOK (fold mapDelete ks m) \<and> (\<forall>k. mapGet (fold mapDelete ks m) k = (if k \<in> set ks then None else mapGet m k))"
  by (induction ks arbitrary: m) (auto simp: alist.ok_del alist.get_del)

lemma mapGet_in: "mapOK m \<Longrightarrow> mapGet m k = Some v \<longleftrightarrow> (k, v) \<in> set m"
  by (simp add: mapGet_def mapOK_def)

lemma fixCtrlMap_get:
  assumes "mapOK (cm_ctrlMap cm)"
  shows "mapOK (cm_ctrlMap (fixCtrlMap cm))"
    and "mapGet (cm_ctrlMap (fixCtrlMap cm)) n = (if isLegalNumber n cm = None then mapGet (cm_ctrlMap cm) n else None)"
    and "set (cm_closed (fixCtrlMap cm)) \<subseteq> set (cm_closed cm) \<union> {p. \<exists>n. mapGet (cm_ctrlMap cm) n = Some p}"
proof -
  let ?del = "filter (\<lambda>(key, ctrl). isLegalNumber key cm \<noteq> None) (cm_ctrlMap cm)"
  have k: "n \<in> set (map fst ?del) \<longleftrightarrow> isLegalNumber n cm \<noteq> None \<and> mapGet (cm_ctrlMap cm) n \<noteq> None" for n
    by (force simp: mapGet_def map_of_eq_None_iff)
  show "mapOK (cm_ctrlMap (fixCtrlMap cm))"
    using fold_mapDelete [OF assms, of "map fst ?del"] by (simp add: fixCtrlMap_def Let_def)
  show "mapGet (cm_ctrlMap (fixCtrlMap cm)) n = (if isLegalNumber n cm = None then mapGet (cm_ctrlMap cm) n else None)"
    using fold_mapDelete [OF assms, of "map fst ?del"] k [of n] by (simp add: fixCtrlMap_def Let_def)
  show "set (cm_closed (fixCtrlMap cm)) \<subseteq> set (cm_closed cm) \<union> {p. \<exists>n. mapGet (cm_ctrlMap cm) n = Some p}"
    by (auto simp: fixCtrlMap_def Let_def mapGet_in [OF assms])
qed

lemma fixCtrlMap_state [simp]: "cm_curChainState (fixCtrlMap cm) = cm_curChainState cm"
  by (simp add: fixCtrlMap_def Let_def)

lemma fixCtrlMap_OK:
  assumes "managerOK cm"
  shows "managerOK (fixCtrlMap (cm\<lparr>cm_curChainState := cs\<rparr>))"
proof -
  let ?cm = "cm\<lparr>cm_curChainState := cs\<rparr>"
  have ok: "mapOK (cm_ctrlMap ?cm)" using assms by (simp add: managerOK_def)
  note f = fixCtrlMap_get [OF ok]
  have "inWindow (fixCtrlMap ?cm) n" if "isLegalNumber n ?cm = None" for n
    using legal_inWindow [OF that] by (simp add: inWindow_def)
  moreover have "\<exists>n. runOf n p" if "p \<in> set (cm_closed (fixCtrlMap ?cm))" for p
  proof -
    from that f(3) consider "p \<in> set (cm_closed cm)" | n where "mapGet (cm_ctrlMap cm) n = Some p" by auto
    then show ?thesis using assms unfolding managerOK_def by cases blast+
  qed
  ultimately show ?thesis using f(1,2) assms by (simp add: managerOK_def split: if_splits)
qed

lemma clearCtrlMap_OK: "managerOK cm \<Longrightarrow> managerOK (clearCtrlMap cm)"
proof -
  assume ok: "managerOK cm"
  have "\<exists>n. runOf n p" if "(k, p) \<in> set (cm_ctrlMap cm)" for k p
    using that ok mapGet_in unfolding managerOK_def by metis
  with ok show ?thesis by (auto simp: managerOK_def clearCtrlMap_def alist.ok_make alist.get_make)
qed

lemma sendTo_total: "n \<noteq> 0 \<Longrightarrow> \<exists>cm'. sendTo n msg cm = Some cm'"
  by (simp add: sendTo_def getController_def newProc_def newController_def word_less_1 split: option.split)

lemma getController_cases:
  assumes "getController n cm = Some (p, cm1)"
  obtains "mapGet (cm_ctrlMap cm) n = Some p" "cm1 = cm"
  | "mapGet (cm_ctrlMap cm) n = None" "newProc n = Some p" "cm1 = cm\<lparr>cm_ctrlMap := mapSet n p (cm_ctrlMap cm)\<rparr>"
  using assms by (auto simp: getController_def bind_eq_Some_conv split: option.splits)

lemma sendTo_effect:
  assumes "mapOK (cm_ctrlMap cm)" "sendTo n msg cm = Some cm'"
  shows "cm_curChainState cm' = cm_curChainState cm
    \<and> (\<exists>p. mapGet (cm_ctrlMap cm') n = Some p \<and> last (cp_msgCh p) = msg)
    \<and> (\<forall>k. k \<noteq> n \<longrightarrow> mapGet (cm_ctrlMap cm') k = mapGet (cm_ctrlMap cm) k)"
proof -
  from assms(2) obtain p cm1 where g: "getController n cm = Some (p, cm1)"
    and cm': "cm' = cm1\<lparr>cm_ctrlMap := mapSet n (ReceiveMsg msg p) (cm_ctrlMap cm1)\<rparr>"
    by (auto simp: sendTo_def bind_eq_Some_conv)
  from g show ?thesis
    by (cases rule: getController_cases) (simp_all add: cm' assms(1) alist.ok_put alist.get_put ReceiveMsg_def)
qed

lemma sendTo_spec:
  assumes "managerOK cm" "sendTo n msg cm = Some cm'" "inWindow cm n"
  shows "managerOK cm' \<and> cm_curChainState cm' = cm_curChainState cm"
proof -
  from assms(2) obtain p cm1 where g: "getController n cm = Some (p, cm1)"
    and cm': "cm' = cm1\<lparr>cm_ctrlMap := mapSet n (ReceiveMsg msg p) (cm_ctrlMap cm1)\<rparr>"
    by (auto simp: sendTo_def bind_eq_Some_conv)
  have "runOf n p \<and> (cm1 = cm \<or> cm1 = cm\<lparr>cm_ctrlMap := mapSet n p (cm_ctrlMap cm)\<rparr>)"
    using g assms(1) by (auto simp: getController_def managerOK_def bind_eq_Some_conv newProc_runOf split: option.splits)
  then show ?thesis
    using assms(1,3) by (auto simp: cm' managerOK_def inWindow_def alist.ok_put alist.get_put ReceiveMsg_runOf split: if_splits)
qed

definition notBefore :: "ControllerManager \<Rightarrow> ControllerManager \<Rightarrow> bool" where
  "notBefore cm cm' \<longleftrightarrow> chainStateCmp (cm_curChainState cm) (cm_curChainState cm') \<le> 0"

lemma notBefore_refl: "cm_curChainState cm' = cm_curChainState cm \<Longrightarrow> notBefore cm cm'"
  by (simp add: notBefore_def chain_state.cmp_refl)

lemma StartController_OK:
  assumes "managerOK cm" "StartController n seq msg cm = Some cm'"
  shows "managerOK cm' \<and> notBefore cm cm'"
proof (cases "chainCmp (cm_curChainState cm) seq n = 1")
  case True
  with assms show ?thesis by (simp add: StartController_def notBefore_refl)
next
  case False
  let ?cm1 = "if cs_superSeq (cm_curChainState cm) < seq then clearCtrlMap cm else cm"
  let ?cm = "if chainCmp (cm_curChainState cm) seq n = -1 then fixCtrlMap (?cm1\<lparr>cm_curChainState := chainReset seq n\<rparr>) else cm"
  have s: "sendTo n (StartMsg (Some msg)) ?cm = Some cm'" using assms(2) False unfolding StartController_def Let_def by simp
  have ok: "managerOK ?cm" using assms(1) clearCtrlMap_OK fixCtrlMap_OK by auto
  have e: "cs_curNumber (cm_curChainState ?cm) = n"
    using False by (auto simp: chainReset_def chainCmp_def split: if_splits)
  then have "inWindow ?cm n" by (simp add: inWindow_def)
  from sendTo_spec [OF ok s this] have r: "managerOK cm'" "cm_curChainState cm' = cm_curChainState ?cm" by simp_all
  have "chainStateCmp (cm_curChainState cm) (cm_curChainState ?cm) \<le> 0"
    using chain_state.cmp_refl by (auto simp: chainStateCmp_def chainReset_def)
  with r show ?thesis by (simp add: notBefore_def)
qed

lemma sendTo_OK: "managerOK cm \<Longrightarrow> sendTo n msg cm = Some cm' \<Longrightarrow> inWindow cm n \<Longrightarrow> managerOK cm' \<and> notBefore cm cm'"
  using sendTo_spec notBefore_refl by blast

lemma ReceiveMsgByCur_OK:
  assumes "managerOK cm" "ReceiveMsgByCur msg cm = Some cm'"
  shows "managerOK cm' \<and> notBefore cm cm'"
proof (cases "cs_curNumber (cm_curChainState cm) \<le> 0")
  case False
  have "inWindow cm (cs_curNumber (cm_curChainState cm))" by (simp add: inWindow_def)
  with assms False show ?thesis by (intro sendTo_OK) (simp_all add: ReceiveMsgByCur_def)
qed (use assms in \<open>simp add: ReceiveMsgByCur_def notBefore_refl\<close>)

lemma receiveLogged_OK:
  assumes "managerOK cm" "receiveLogged n msg cm = Some cm'"
  shows "managerOK cm' \<and> notBefore cm cm'"
proof (cases "n \<noteq> 0 \<and> isLegalNumber n cm = None")
  case True
  with assms(2) have "sendTo n msg cm = Some cm'"
    by (cases "sendTo n msg cm") (simp_all add: receiveLogged_def cmReceiveMsg_def)
  then show ?thesis using True by (intro sendTo_OK [OF assms(1)]) (blast intro: legal_inWindow)+
qed (use assms in \<open>auto simp: receiveLogged_def cmReceiveMsg_def notBefore_refl split: if_splits option.splits\<close>)

lemma leaderRun_OK:
  assumes "managerOK cm" "leaderRun chain ev cm = Some cm'"
  shows "managerOK cm' \<and> notBefore cm cm'"
proof (cases ev)
  case (NewBlockReady m)
  with assms show ?thesis
    by (auto simp: newBlockReadyBCHandle_def notBefore_refl Let_def split: option.splits sum.splits Option.bind_splits
        dest: StartController_OK)
next
  case (RoleUpdated m)
  with assms show ?thesis
    by (auto simp: roleUpdateMsgHandle_def notBefore_refl split: option.splits sum.splits if_splits dest: StartController_OK)
next
  case (POSFinished m)
  with assms show ?thesis
    by (auto simp: blockPOSFinishedMsgHandle_def notBefore_refl bind_eq_Some_conv split: option.splits if_splits
        dest: receiveLogged_OK)
next
  case (RLReq m)
  with assms show ?thesis
    by (auto simp: rlReqMsgHandle_def notBefore_refl bind_eq_Some_conv split: option.splits dest: receiveLogged_OK)
qed (use assms in \<open>auto simp: rlInquiryReqHandle_def rlInquiryRspHandle_def rlVoteMsgHandle_def rlBroadcastHandle_def
      rlBroadcastRspHandle_def notBefore_refl split: option.splits dest: ReceiveMsgByCur_OK receiveLogged_OK\<close>)

interpretation manager: message_machine "\<lambda>(chain, ev). leaderRun chain ev" managerOK notBefore
proof
  fix s s' t u :: ControllerManager and m :: "BlockChain \<times> leaderEvent"
  obtain chain ev where m: "m = (chain, ev)" by fastforce
  assume ok: "managerOK s" and "(case m of (chain, ev) \<Rightarrow> leaderRun chain ev) s = Some s'"
  then have r: "leaderRun chain ev s = Some s'" by (simp add: m)
  from leaderRun_OK [OF ok r] show "managerOK s'" "notBefore s s'" by simp_all
next
  fix s t u
  show "notBefore s s" by (simp add: notBefore_refl)
  show "notBefore s t \<Longrightarrow> notBefore t u \<Longrightarrow> notBefore s u"
    unfolding notBefore_def by (rule chain_state.le_trans)
qed

lemma leaderStep_OK:
  assumes "leaderStep cm cm'" "managerOK cm"
  shows "managerOK cm' \<and> notBefore cm cm'"
  using assms(1)
proof (cases rule: leaderStep.cases)
  case (event chain ev)
  with leaderRun_OK [OF assms(2)] show ?thesis by blast
next
  case (live n p p')
  have "runOf n p'" using procStep_runOf live assms(2) by (auto simp: managerOK_def)
  then show ?thesis using live assms(2)
    by (auto simp: managerOK_def inWindow_def notBefore_refl alist.ok_put alist.get_put split: if_splits)
next
  case (closed i p')
  then obtain n where "runOf n (cm_closed cm ! i)" using assms(2) by (fastforce simp: managerOK_def)
  with closed procStep_runOf have "\<exists>n. runOf n p'" by blast
  then show ?thesis using closed assms(2) set_update_subset_insert [of "cm_closed cm" i p']
    by (auto simp: managerOK_def inWindow_def notBefore_refl)
next
  case (quit i)
  have "set (take i (cm_closed cm) @ drop (Suc i) (cm_closed cm)) \<subseteq> set (cm_closed cm)"
    using set_take_subset set_drop_subset by fastforce
  with quit assms(2) show ?thesis by (auto simp: managerOK_def inWindow_def notBefore_refl)
qed

lemma reachable_OK: "reachable cm \<Longrightarrow> managerOK cm"
proof (induction rule: reachable.induct)
  case init
  show ?case by (simp add: managerOK_def NewControllerManager_def alist.ok_make alist.get_make)
qed (use leaderStep_OK in blast)

section \<open>What the node keeps\<close>


text \<open>The example node after the parent of height 5 arrived and its controller handled the start message.\<close>

definition exampleReady :: leaderEvent where
  "exampleReady = NewBlockReady (Some \<lparr>nb_Header = Some exampleParent, nb_State = Some exampleState\<rparr>)"

lemma exampleReady_run:
  "leaderRun chain exampleReady NewControllerManager = sendTo 5 (StartMsg (Some exampleStart))
     (NewControllerManager\<lparr>cm_curChainState := \<lparr>cs_superSeq = 0, cs_curNumber = 5\<rparr>\<rparr>)"
  by (simp add: exampleReady_def newBlockReadyBCHandle_def exampleParent_def exampleHeader_def Uint64_def exampleState_def
      StartController_def NewControllerManager_def chainCmp_def chainReset_def fixCtrlMap_def mapMake_def exampleStart_def)

lemma exampleNode:
  obtains c cm where "reachable cm" "newController 5 = Some c" "leaderStep NewControllerManager cm"
    "mapGet (cm_ctrlMap cm) 5 = Some \<lparr>cp_ctrl = c, cp_msgCh = [StartMsg (Some exampleStart)]\<rparr>"
    "cm_curChainState cm = \<lparr>cs_superSeq = 0, cs_curNumber = 5\<rparr>" "mapLen (cm_ctrlMap cm) = 1"
proof -
  obtain c where c: "newController 5 = Some c" by (simp add: newController_def)
  let ?p = "\<lparr>cp_ctrl = c, cp_msgCh = [StartMsg (Some exampleStart)]\<rparr>"
  let ?cm = "\<lparr>cm_curChainState = \<lparr>cs_superSeq = 0, cs_curNumber = 5\<rparr>, cm_ctrlMap = [(5, ?p)], cm_closed = []\<rparr>"
  have r: "leaderRun chain exampleReady NewControllerManager = Some ?cm"
    unfolding exampleReady_run
    by (simp add: sendTo_def getController_def newProc_def c NewControllerManager_def mapMake_def mapGet_def
        mapSet_def ReceiveMsg_def)
  have step: "leaderStep NewControllerManager ?cm"
    by (rule leaderStep.event [OF r]) (simp add: mapGet_def msgChSize_def)
  then have "reachable ?cm" using reachable.init reachable.step by blast
  with c step show thesis by (intro that [where cm = ?cm and c = c]) (simp_all add: mapGet_def mapLen_def)
qed


text \<open>C7. The manager holds at most three controllers, those of the current height and the two after it,
  each under the height it was created for, and along every step the current chain state, ordered by
  super block sequence and then height, does not go back.\<close>

theorem reachable_window:
  assumes "reachable cm" "leaderStep cm cm'"
  shows "mapLen (cm_ctrlMap cm') \<le> 3
    \<and> (\<forall>n p. mapGet (cm_ctrlMap cm') n = Some p \<longrightarrow> cs_curNumber (cm_curChainState cm') \<le> n
         \<and> unat n \<le> unat (cs_curNumber (cm_curChainState cm')) + 2 \<and> Number (cp_ctrl p) = n)
    \<and> chainStateCmp (cm_curChainState cm) (cm_curChainState cm') \<le> 0"
proof -
  let ?cur = "cs_curNumber (cm_curChainState cm')"
  note ok = leaderStep_OK [OF assms(2) reachable_OK [OF assms(1)]]
  have w: "cs_curNumber (cm_curChainState cm') \<le> n \<and> unat n \<le> unat ?cur + 2 \<and> Number (cp_ctrl p) = n"
    if "mapGet (cm_ctrlMap cm') n = Some p" for n p
    using that ok runOf_keeps unfolding managerOK_def inWindow_def by blast
  have "dom (mapGet (cm_ctrlMap cm')) \<subseteq> of_nat ` {unat ?cur .. unat ?cur + 2}"
  proof
    fix n
    assume "n \<in> dom (mapGet (cm_ctrlMap cm'))"
    then have "unat n \<in> {unat ?cur .. unat ?cur + 2}" using w by (fastforce simp: word_le_nat_alt)
    then show "n \<in> of_nat ` {unat ?cur .. unat ?cur + 2}" by (intro image_eqI [where x = "unat n"]) simp_all
  qed
  then have "mapLen (cm_ctrlMap cm') \<le> card ((of_nat :: nat \<Rightarrow> u64) ` {unat ?cur .. unat ?cur + 2})"
    using ok by (intro alist.len_le_of_keys) (simp_all add: managerOK_def)
  also have "\<dots> \<le> 3" using card_image_le [of "{unat ?cur .. unat ?cur + 2}" "of_nat :: nat \<Rightarrow> u64"] by simp
  finally show ?thesis using w ok by (simp add: notBefore_def)
qed

theorem reachable_window_witness:
  "\<exists>cm p. reachable cm \<and> mapGet (cm_ctrlMap cm) 5 = Some p \<and> mapLen (cm_ctrlMap cm) = 1 \<and> Number (cp_ctrl p) = 5"
proof -
  obtain c cm where cm: "reachable cm" "leaderStep NewControllerManager cm"
    "mapGet (cm_ctrlMap cm) 5 = Some \<lparr>cp_ctrl = c, cp_msgCh = [StartMsg (Some exampleStart)]\<rparr>" "mapLen (cm_ctrlMap cm) = 1"
    by (rule exampleNode)
  from reachable_window [OF reachable.init cm(2)] cm show ?thesis by blast
qed



section \<open>Events that end the process\<close>

fun nilEvent :: "leaderEvent \<Rightarrow> bool" where
  "nilEvent (NewBlockReady (Some m)) = (nb_Header m \<noteq> None \<and> nb_State m = None)"
| "nilEvent (POSFinished (Some m)) = (pn_Header m = None)"
| "nilEvent (RLReq (Some m)) = (lr_InquiryReq m = None)"
| "nilEvent _ = False"

fun lastHeight :: "leaderEvent \<Rightarrow> bool" where
  "lastHeight (NewBlockReady (Some m)) = (\<exists>h. nb_Header m = Some h \<and> Uint64 (h_Number h) + 1 = 0)"
| "lastHeight (RoleUpdated (Some m)) = (ru_BlockNum m + 1 = 0)"
| "lastHeight _ = False"

lemma sent: "n \<noteq> 0 \<Longrightarrow> sendTo n msg cm \<noteq> None"
  using sendTo_total by fastforce

lemma handled:
  "n \<noteq> 0 \<Longrightarrow> StartController n seq msg' cm \<noteq> None" "ReceiveMsgByCur msg cm \<noteq> None" "receiveLogged n' msg cm \<noteq> None"
  by (simp_all add: StartController_def ReceiveMsgByCur_def receiveLogged_def cmReceiveMsg_def Let_def sent
      del: not_None_eq split: option.split Option.bind_split)

lemmas returns = handled handled [unfolded not_None_eq]



end
