(* ===== verification/TrieKeys.thy ===== *)
theory TrieKeys
  imports ChainTypes
begin

text \<open>
  The key encodings of the Merkle Patricia trie, \<open>src/trie/encoding.go\<close>: KEYBYTES (the key
  itself), HEX (a nibble per byte, closed by the terminator 16) and COMPACT (the form written to
  disk).  A byte string is a list of bytes, an index outside a slice is the panic \<open>None\<close>.
\<close>

section \<open>The encodings\<close>

definition hasTerm :: "bytes \<Rightarrow> bool" where
  "hasTerm s \<longleftrightarrow> length s > 0 \<and> s ! (length s - 1) = 16"

text \<open>\<open>decodeNibbles\<close> fills the slice it is given, which has half the length of the nibbles.\<close>

fun decodeNibbles :: "bytes \<Rightarrow> bytes option" where
  "decodeNibbles [] = Some []"
| "decodeNibbles [x] = None"
| "decodeNibbles (x # y # nibbles) = do {
     bs \<leftarrow> decodeNibbles nibbles;
     Some ((push_bit 4 x OR y) # bs) }"

definition hexToCompact :: "bytes \<Rightarrow> bytes option" where
  "hexToCompact hex =
     (let terminator = (if hasTerm hex then 1 else 0);
          hex = (if hasTerm hex then take (length hex - 1) hex else hex);
          buf0 = push_bit 5 terminator;
          odd = (length hex mod 2 = 1);
          buf0 = (if odd then buf0 OR push_bit 4 1 OR hd hex else buf0)
      in do { buf \<leftarrow> decodeNibbles (if odd then tl hex else hex); Some (buf0 # buf) })"

fun keybytesToHex :: "bytes \<Rightarrow> bytes" where
  "keybytesToHex [] = [16]"
| "keybytesToHex (b # str) = (b div 16) # (b mod 16) # keybytesToHex str"

definition compactToHex :: "bytes \<Rightarrow> bytes option" where
  "compactToHex compact =
     (let base = keybytesToHex compact;
          base = take (length base - 1) base
      in if length base = 0 then None
         else let base = (if base ! 0 \<ge> 2 then base @ [16] else base);
                  chop = 2 - (base ! 0 AND 1)
              in Some (drop (unat chop) base))"

definition hexToKeybytes :: "bytes \<Rightarrow> bytes option" where
  "hexToKeybytes hex =
     (let hex = (if hasTerm hex then take (length hex - 1) hex else hex)
      in if length hex mod 2 \<noteq> 0 then None else decodeNibbles hex)"

fun prefixLen :: "bytes \<Rightarrow> bytes \<Rightarrow> nat" where
  "prefixLen (x # a) (y # b) = (if x \<noteq> y then 0 else Suc (prefixLen a b))"
| "prefixLen _ _ = 0"

section \<open>Nibbles\<close>

abbreviation nibbles :: "bytes \<Rightarrow> bool" where
  "nibbles xs \<equiv> \<forall>x \<in> set xs. x < 16"

text \<open>The keys of the trie in HEX form: nibbles and the terminator.\<close>

definition hexKey :: "bytes \<Rightarrow> bool" where
  "hexKey k \<longleftrightarrow> (\<exists>ks. k = ks @ [16] \<and> nibbles ks)"

lemma byte_nibbles: "b div 16 < 16" "b mod 16 < 16" "push_bit 4 (b div 16) OR (b mod 16) = (b :: u8)"
proof -
  have "b div 16 < 16 \<and> b mod 16 < 16 \<and> push_bit 4 (b div 16) OR (b mod 16) = b"
    by (rule all_bytes [where P = "\<lambda>b. b div 16 < 16 \<and> b mod 16 < 16 \<and> push_bit 4 (b div 16) OR (b mod 16) = b"])
      code_simp
  then show "b div 16 < 16" "b mod 16 < 16" "push_bit 4 (b div 16) OR (b mod 16) = b" by blast+
qed

lemma all_nibbles:
  assumes "\<forall>n \<in> set [0..<16]. P (of_nat n :: u8)" and "x < 16"
  shows "P x"
proof -
  have "unat x \<in> set [0..<16]" using assms(2) by (simp add: word_less_nat_alt)
  with assms(1) have "P (of_nat (unat x))" by blast
  then show ?thesis by simp
qed

lemma nibble_pair:
  assumes "x < 16" "y < (16 :: u8)"
  shows "(push_bit 4 x OR y) div 16 = x" "(push_bit 4 x OR y) mod 16 = y"
proof -
  have "\<forall>y. y < 16 \<longrightarrow> (push_bit 4 x OR y) div 16 = x \<and> (push_bit 4 x OR y) mod 16 = y"
  proof (intro allI impI)
    fix y :: u8
    assume y: "y < 16"
    have "\<forall>n \<in> set [0..<16]. \<forall>m \<in> set [0..<16].
        (push_bit 4 (of_nat n :: u8) OR of_nat m) div 16 = of_nat n \<and> (push_bit 4 (of_nat n :: u8) OR of_nat m) mod 16 = of_nat m"
      by code_simp
    then have "\<forall>n \<in> set [0..<16].
        (push_bit 4 (of_nat n :: u8) OR y) div 16 = of_nat n \<and> (push_bit 4 (of_nat n :: u8) OR y) mod 16 = y"
      using all_nibbles [OF _ y, where P = "\<lambda>y. \<forall>n \<in> set [0..<16].
        (push_bit 4 (of_nat n :: u8) OR y) div 16 = of_nat n \<and> (push_bit 4 (of_nat n :: u8) OR y) mod 16 = y"] by blast
    then show "(push_bit 4 x OR y) div 16 = x \<and> (push_bit 4 x OR y) mod 16 = y"
      by (rule all_nibbles [OF _ assms(1)])
  qed
  with assms(2) show "(push_bit 4 x OR y) div 16 = x" "(push_bit 4 x OR y) mod 16 = y" by blast+
qed

lemma hasTerm_iff: "hasTerm s \<longleftrightarrow> (\<exists>ks. s = ks @ [16])"
  by (cases s rule: rev_cases) (simp_all add: hasTerm_def)

lemma hasTerm_simps [simp]:
  "hasTerm (ks @ [16])" "nibbles ks \<Longrightarrow> \<not> hasTerm ks"
  by (auto simp: hasTerm_iff)

section \<open>Keys and nibbles\<close>

lemma keybytesToHex_hexKey: "hexKey (keybytesToHex b)"
  unfolding hexKey_def
proof (induction b)
  case (Cons x b)
  then obtain ks where "keybytesToHex b = ks @ [16]" "nibbles ks" by blast
  then have "keybytesToHex (x # b) = (x div 16 # x mod 16 # ks) @ [16] \<and> nibbles (x div 16 # x mod 16 # ks)"
    by (auto simp: byte_nibbles)
  then show ?case by blast
qed simp

lemma length_keybytesToHex [simp]: "length (keybytesToHex b) = 2 * length b + 1"
  by (induction b) simp_all

lemma keybytesToHex_not_Nil [simp]: "keybytesToHex b \<noteq> []"
  by (cases b) simp_all

lemma decodeNibbles_keybytes: "decodeNibbles (butlast (keybytesToHex b)) = Some b"
  by (induction b) (simp_all add: byte_nibbles)

lemma hexToKeybytes_keybytesToHex: "hexToKeybytes (keybytesToHex b) = Some b"
proof -
  have "hasTerm (keybytesToHex b)" using keybytesToHex_hexKey [of b] by (auto simp: hexKey_def)
  then show ?thesis using decodeNibbles_keybytes [of b] by (simp add: hexToKeybytes_def butlast_conv_take)
qed

lemma keybytesToHex_inj: "keybytesToHex a = keybytesToHex b \<Longrightarrow> a = b"
  by (metis hexToKeybytes_keybytesToHex option.inject)

lemma decodeNibbles_even:
  "length ns mod 2 = 0 \<Longrightarrow> nibbles ns
    \<Longrightarrow> \<exists>bs. decodeNibbles ns = Some bs \<and> keybytesToHex bs = ns @ [16] \<and> length bs = length ns div 2"
proof (induction ns rule: decodeNibbles.induct)
  case (3 x y ns)
  then obtain bs where "decodeNibbles ns = Some bs" "keybytesToHex bs = ns @ [16]" "length bs = length ns div 2"
    by auto
  then show ?case using 3(3) by (auto simp: nibble_pair)
qed simp_all

text \<open>The flag byte of the compact form.\<close>

lemma flag_byte:
  assumes "x < (16 :: u8)"
  shows "(32 OR 16 OR x) div 16 = 3" "(16 OR x) div 16 = 1" "(32 OR 16 OR x) mod 16 = x" "(16 OR x) mod 16 = x"
proof -
  have "(32 OR 16 OR x) div 16 = 3 \<and> (16 OR x) div 16 = 1 \<and> (32 OR 16 OR x) mod 16 = x \<and> (16 OR x) mod 16 = x"
    by (rule all_nibbles [OF _ assms, where P = "\<lambda>x. (32 OR 16 OR x) div 16 = 3 \<and> (16 OR x) div 16 = 1
      \<and> (32 OR 16 OR x) mod 16 = x \<and> (16 OR x) mod 16 = x"]) code_simp
  then show "(32 OR 16 OR x) div 16 = 3" "(16 OR x) div 16 = 1" "(32 OR 16 OR x) mod 16 = x" "(16 OR x) mod 16 = x"
    by blast+
qed

lemma compactToHex_Cons:
  "compactToHex (b # bs) =
     (let base = (b div 16) # (b mod 16) # butlast (keybytesToHex bs);
          base = (if b div 16 \<ge> 2 then base @ [16] else base)
      in Some (drop (unat (2 - (b div 16 AND 1))) base))"
  by (simp add: compactToHex_def butlast_conv_take Let_def)

lemma hexToCompact_nibbles:
  assumes "nibbles ks" and "t = [] \<or> t = [16]"
  shows "\<exists>c. hexToCompact (ks @ t) = Some c \<and> compactToHex c = Some (ks @ t) \<and> length c = length ks div 2 + 1"
proof (cases "length ks mod 2 = 1")
  case True
  then obtain x xs where x: "ks = x # xs" by (cases ks) auto
  then obtain bs where bs: "decodeNibbles xs = Some bs" "keybytesToHex bs = xs @ [16]" "length bs = length xs div 2"
    using decodeNibbles_even [of xs] True assms(1) by (auto simp: mod_Suc split: if_splits)
  moreover have "hasTerm (x # xs @ [16])" by (simp add: hasTerm_def)
  ultimately show ?thesis using x assms(2) True flag_byte [of x] assms(1)
    by (auto simp: hexToCompact_def compactToHex_Cons Let_def mod_Suc word_le_nat_alt push_bit_eq_mult or.assoc split: if_splits)
next
  case False
  then obtain bs where bs: "decodeNibbles ks = Some bs" "keybytesToHex bs = ks @ [16]" "length bs = length ks div 2"
    using decodeNibbles_even [of ks] assms(1) by auto
  then show ?thesis using assms False
    by (auto simp: hexToCompact_def compactToHex_Cons Let_def word_le_nat_alt push_bit_eq_mult split: if_splits)
qed

lemma prefixLen_le: "prefixLen a b \<le> length a" "prefixLen a b \<le> length b"
  by (induction a b rule: prefixLen.induct) auto

lemma prefixLen_take: "take (prefixLen a b) a = take (prefixLen a b) b"
  by (induction a b rule: prefixLen.induct) auto

lemma prefixLen_differ:
  "prefixLen a b < length a \<Longrightarrow> prefixLen a b < length b \<Longrightarrow> a ! prefixLen a b \<noteq> b ! prefixLen a b"
  by (induction a b rule: prefixLen.induct) auto

lemma prefixLen_append [simp]: "prefixLen (c @ a) (c @ b) = length c + prefixLen a b"
  by (induction c) simp_all

lemma prefixLen_whole: "prefixLen a b = length b \<longleftrightarrow> take (length b) a = b"
  by (induction a b rule: prefixLen.induct) auto

end
