(* ===== verification/Patricia.thy ===== *)
theory Patricia
  imports TrieKeys
begin

text \<open>
  The reference data structure of the trie: a Patricia tree in memory, without cached hashes and
  without nodes left in the database.  It holds the lookup, insertion and deletion the methods of
  \<open>src/trie/trie.go\<close> refine, the canonical form they keep, what a lookup returns after an
  update, and that a canonical tree is determined by the bindings it holds.
\<close>

section \<open>Trees and operations\<close>

datatype ptrie = PNil | PVal bytes | PShort bytes ptrie | PFull "ptrie list"

fun pget :: "ptrie \<Rightarrow> bytes \<Rightarrow> bytes option" where
  "pget PNil key = None"
| "pget (PVal v) key = Some v"
| "pget (PShort k p) key = (if take (length k) key = k then pget p (drop (length k) key) else None)"
| "pget (PFull ps) [] = None"
| "pget (PFull ps) (x # key) = pget (ps ! unat x) key"

definition pshort :: "bytes \<Rightarrow> ptrie \<Rightarrow> ptrie" where
  "pshort k p = (if k = [] then p else PShort k p)"

definition pbranch :: "u8 \<Rightarrow> ptrie \<Rightarrow> u8 \<Rightarrow> ptrie \<Rightarrow> ptrie" where
  "pbranch x p y q = PFull ((replicate 17 PNil)[unat x := p, unat y := q])"

fun pinsert :: "ptrie \<Rightarrow> bytes \<Rightarrow> bytes \<Rightarrow> ptrie" where
  "pinsert p [] v = PVal v"
| "pinsert PNil key v = PShort key (PVal v)"
| "pinsert (PVal w) key v = PVal w"
| "pinsert (PShort k p) key v =
     (let m = prefixLen key k
      in if m = length k then PShort k (pinsert p (drop m key) v)
         else pshort (take m key)
                (pbranch (k ! m) (pshort (drop (Suc m) k) p) (key ! m) (pshort (drop (Suc m) key) (PVal v))))"
| "pinsert (PFull ps) (x # key) v = PFull (ps[unat x := pinsert (ps ! unat x) key v])"

definition pcollapse :: "ptrie list \<Rightarrow> ptrie" where
  "pcollapse ps =
     (case filter (\<lambda>i. ps ! i \<noteq> PNil) [0..<17] of
        [i] \<Rightarrow> (case ps ! i of
                 PShort k p \<Rightarrow> if i = 16 then PShort [16] (ps ! i) else PShort (of_nat i # k) p
               | c \<Rightarrow> PShort [of_nat i] c)
      | _ \<Rightarrow> PFull ps)"

fun pdelete :: "ptrie \<Rightarrow> bytes \<Rightarrow> ptrie" where
  "pdelete PNil key = PNil"
| "pdelete (PVal v) key = PNil"
| "pdelete (PShort k p) key =
     (let m = prefixLen key k
      in if m < length k then PShort k p
         else if m = length key then PNil
         else case pdelete p (drop (length k) key) of PShort l q \<Rightarrow> PShort (k @ l) q | c \<Rightarrow> PShort k c)"
| "pdelete (PFull ps) [] = PFull ps"
| "pdelete (PFull ps) (x # key) = pcollapse (ps[unat x := pdelete (ps ! unat x) key])"

section \<open>Canonical form\<close>

text \<open>
  A leaf carries the rest of a key with its terminator and a value that is not empty, an extension
  carries nibbles and leads to a branch, and a branch has at least two children.
\<close>

inductive pwf :: "ptrie \<Rightarrow> bool" where
  leaf: "hexKey k \<Longrightarrow> v \<noteq> [] \<Longrightarrow> pwf (PShort k (PVal v))"
| ext: "k \<noteq> [] \<Longrightarrow> nibbles k \<Longrightarrow> pwf (PFull ps) \<Longrightarrow> pwf (PShort k (PFull ps))"
| full: "length ps = 17 \<Longrightarrow> (\<And>i. i < 16 \<Longrightarrow> ps ! i = PNil \<or> pwf (ps ! i))
    \<Longrightarrow> ps ! 16 = PNil \<or> (\<exists>v. v \<noteq> [] \<and> ps ! 16 = PVal v)
    \<Longrightarrow> i < j \<Longrightarrow> j < 17 \<Longrightarrow> ps ! i \<noteq> PNil \<Longrightarrow> ps ! j \<noteq> PNil \<Longrightarrow> pwf (PFull ps)"

inductive_cases pwf_NilE: "pwf PNil"
inductive_cases pwf_ValE: "pwf (PVal v)"
inductive_cases pwf_ShortE: "pwf (PShort k p)"
inductive_cases pwf_FullE: "pwf (PFull ps)"

definition pok :: "ptrie \<Rightarrow> bool" where
  "pok p \<longleftrightarrow> p = PNil \<or> pwf p"

text \<open>What may stand below a nibble or below the terminator, and the key that leads on.\<close>

definition pchild :: "nat \<Rightarrow> ptrie \<Rightarrow> bool" where
  "pchild i p \<longleftrightarrow> (if i < 16 then pok p else p = PNil \<or> (\<exists>v. v \<noteq> [] \<and> p = PVal v))"

definition keyTail :: "nat \<Rightarrow> bytes \<Rightarrow> bool" where
  "keyTail i k \<longleftrightarrow> (if i < 16 then hexKey k else k = [])"

lemma not_pwf [simp]: "\<not> pwf PNil" "\<not> pwf (PVal v)"
  by (auto elim: pwf_NilE pwf_ValE)

lemma pok_Nil [simp]: "pok PNil"
  by (simp add: pok_def)

lemma hexKey_Nil [simp]: "\<not> hexKey []"
  by (simp add: hexKey_def)

lemma hexKey_Cons: "hexKey (x # k) \<longleftrightarrow> unat x < 17 \<and> keyTail (unat x) k"
proof
  assume "hexKey (x # k)"
  then obtain ks where k: "x # k = ks @ [16]" "nibbles ks" by (auto simp: hexKey_def)
  show "unat x < 17 \<and> keyTail (unat x) k"
    using k by (cases ks) (auto simp: keyTail_def hexKey_def word_less_nat_alt)
next
  assume a: "unat x < 17 \<and> keyTail (unat x) k"
  show "hexKey (x # k)"
  proof (cases "unat x < 16")
    case True
    then obtain ks where "k = ks @ [16]" "nibbles ks" using a by (auto simp: keyTail_def hexKey_def)
    then have "x # k = (x # ks) @ [16] \<and> nibbles (x # ks)" using True by (auto simp: word_less_nat_alt)
    then show ?thesis unfolding hexKey_def by blast
  next
    case False
    with a have "unat x = unat (16 :: u8)" "k = []" by (simp_all add: keyTail_def)
    then have "x = 16" by (simp only: word_unat_eq_iff)
    with \<open>k = []\<close> show ?thesis by (auto simp: hexKey_def)
  qed
qed

lemma hexKey_append: "nibbles c \<Longrightarrow> hexKey (c @ k) \<longleftrightarrow> hexKey k"
  by (induction c) (auto simp: hexKey_Cons keyTail_def word_less_nat_alt)

lemma hexKey_append_tail: "hexKey (c @ x # k) \<longleftrightarrow> nibbles c \<and> unat x < 17 \<and> keyTail (unat x) k"
proof (induction c)
  case (Cons y c)
  then show ?case by (auto simp: hexKey_Cons keyTail_def word_less_nat_alt)
qed (simp add: hexKey_Cons)

lemma pwf_Full_iff:
  "pwf (PFull ps) \<longleftrightarrow> length ps = 17 \<and> (\<forall>i < 17. pchild i (ps ! i))
     \<and> (\<exists>i j. i < j \<and> j < 17 \<and> ps ! i \<noteq> PNil \<and> ps ! j \<noteq> PNil)"
proof
  assume "pwf (PFull ps)"
  then show "length ps = 17 \<and> (\<forall>i < 17. pchild i (ps ! i))
     \<and> (\<exists>i j. i < j \<and> j < 17 \<and> ps ! i \<noteq> PNil \<and> ps ! j \<noteq> PNil)"
  proof (cases rule: pwf.cases)
    case (full i j)
    have "pchild n (ps ! n)" if "n < 17" for n
      using full(2) [of n] full(3) that by (cases "n < 16") (auto simp: pchild_def pok_def dest: less_antisym)
    with full show ?thesis by blast
  qed
next
  assume a: "length ps = 17 \<and> (\<forall>i < 17. pchild i (ps ! i))
     \<and> (\<exists>i j. i < j \<and> j < 17 \<and> ps ! i \<noteq> PNil \<and> ps ! j \<noteq> PNil)"
  then obtain i j where "i < j" "j < 17" "ps ! i \<noteq> PNil" "ps ! j \<noteq> PNil" by blast
  then show "pwf (PFull ps)"
  proof (rule pwf.full [rotated 3])
    show "ps ! n = PNil \<or> pwf (ps ! n)" if "n < 16" for n
    proof -
      from a that have "pchild n (ps ! n)" by simp
      with that show ?thesis by (simp add: pchild_def pok_def)
    qed
    show "ps ! 16 = PNil \<or> (\<exists>v. v \<noteq> [] \<and> ps ! 16 = PVal v)"
      using a by (auto simp: pchild_def)
  qed (use a in blast)
qed

lemma pwf_Short_iff:
  "pwf (PShort k p) \<longleftrightarrow> (hexKey k \<and> (\<exists>v. v \<noteq> [] \<and> p = PVal v)) \<or> (k \<noteq> [] \<and> nibbles k \<and> (\<exists>ps. p = PFull ps) \<and> pwf p)"
  by (auto elim: pwf_ShortE intro: pwf.intros)

text \<open>Induction that treats every child of a branch alike.\<close>

lemma pchild_induct [consumes 1, case_names Nil Val Leaf Ext Full]:
  assumes "pchild i p"
    and "\<And>i. i < 17 \<Longrightarrow> P i PNil"
    and "\<And>v. v \<noteq> [] \<Longrightarrow> P 16 (PVal v)"
    and "\<And>i k v. i < 16 \<Longrightarrow> hexKey k \<Longrightarrow> v \<noteq> [] \<Longrightarrow> P i (PShort k (PVal v))"
    and "\<And>i k ps. i < 16 \<Longrightarrow> k \<noteq> [] \<Longrightarrow> nibbles k \<Longrightarrow> pwf (PFull ps) \<Longrightarrow> P i (PFull ps) \<Longrightarrow> P i (PShort k (PFull ps))"
    and "\<And>i ps. i < 16 \<Longrightarrow> pwf (PFull ps) \<Longrightarrow> (\<And>j. j < 17 \<Longrightarrow> P j (ps ! j)) \<Longrightarrow> P i (PFull ps)"
    and "i < 17"
  shows "P i p"
proof -
  have wf: "P i p" if "pwf p" "i < 16" for i p
    using that
  proof (induction arbitrary: i rule: pwf.induct)
    case (full ps m n)
    have "P j (ps ! j)" if "j < 17" for j
    proof (cases "j < 16")
      case True
      then show ?thesis using full.IH [of j] assms(2) by auto
    next
      case False
      with that have "j = 16" by simp
      then show ?thesis using full.hyps(2) assms(2,3) by auto
    qed
    moreover have "pwf (PFull ps)" using full.IH full.hyps by (intro pwf.full) blast+
    ultimately show ?case using assms(6) full.prems by blast
  qed (use assms(4,5) in auto)
  show ?thesis
  proof (cases "i < 16")
    case True
    with assms(1) show ?thesis using wf assms(2) by (auto simp: pchild_def pok_def)
  next
    case False
    with assms(7) have "i = 16" by simp
    with assms(1) show ?thesis using assms(2,3) by (auto simp: pchild_def)
  qed
qed


section \<open>Keys\<close>

lemma prefixLen_split:
  assumes "prefixLen a b < length a" "prefixLen a b < length b"
  obtains c x a' y b' where "a = c @ x # a'" "b = c @ y # b'" "x \<noteq> y" "prefixLen a b = length c"
proof (rule that)
  show "a = take (prefixLen a b) a @ a ! prefixLen a b # drop (Suc (prefixLen a b)) a"
    using assms(1) by (rule id_take_nth_drop)
  show "b = take (prefixLen a b) a @ b ! prefixLen a b # drop (Suc (prefixLen a b)) b"
    using assms(2) by (subst prefixLen_take) (rule id_take_nth_drop)
qed (use assms prefixLen_differ in auto)

lemma keyTail_prefix_free:
  "keyTail i k \<Longrightarrow> keyTail i key \<Longrightarrow> take (length k) key = k \<longleftrightarrow> key = k"
proof (induction k arbitrary: i key)
  case (Cons x k)
  then have "i < 16" by (simp add: keyTail_def split: if_splits)
  with Cons.prems obtain y key' where "key = y # key'" by (cases key) (auto simp: keyTail_def)
  then show ?case using Cons.prems \<open>i < 16\<close> Cons.IH [of "unat x" key'] by (auto simp: keyTail_def [of i] hexKey_Cons)
qed (auto simp: keyTail_def split: if_splits)

lemmas hexKey_prefix_free = keyTail_prefix_free [of 0, unfolded keyTail_def, simplified]

lemma hexKey_not_prefix:
  assumes "hexKey key" and "hexKey k \<or> nibbles k" and "prefixLen key k \<noteq> length k"
  shows "prefixLen key k < length key" "prefixLen key k < length k"
proof -
  show "prefixLen key k < length k" using assms(3) prefixLen_le(2) [of key k] by simp
  show "prefixLen key k < length key"
  proof (rule ccontr)
    assume "\<not> prefixLen key k < length key"
    then have l: "prefixLen key k = length key" using prefixLen_le(1) [of key k] by simp
    then have t: "take (length key) k = key" using prefixLen_take [of key k] by simp
    obtain ks where ks: "key = ks @ [16]" using assms(1) by (auto simp: hexKey_def)
    have "16 \<in> set k" using t ks by (metis in_set_conv_decomp in_set_takeD)
    then have "hexKey k" using assms(2) by auto
    then have "k = key" using hexKey_prefix_free [OF assms(1)] t by blast
    with l assms(3) show False by simp
  qed
qed

lemma hexKey_ext:
  "nibbles k \<Longrightarrow> hexKey key \<Longrightarrow> take (length k) key = k \<Longrightarrow> hexKey (drop (length k) key)"
  by (metis append_take_drop_id hexKey_append)

section \<open>Lookup after insertion\<close>

lemma pget_pshort: "pget (pshort k p) key = (if take (length k) key = k then pget p (drop (length k) key) else None)"
  by (simp add: pshort_def)

lemma pget_pbranch:
  assumes "x \<noteq> y" "unat x < 17" "unat y < 17" "unat z < 17"
  shows "pget (pbranch x p y q) (z # r) = (if z = y then pget q r else if z = x then pget p r else None)"
  using assms by (auto simp: pbranch_def nth_list_update word_unat_eq_iff)

lemma hexKey_not_Nil: "hexKey k \<Longrightarrow> k \<noteq> []"
  by auto

lemma pinsert_Short:
  assumes "hexKey key"
  shows "pinsert (PShort k p) key v =
     (let m = prefixLen key k
      in if m = length k then PShort k (pinsert p (drop m key) v)
         else pshort (take m key)
                (pbranch (k ! m) (pshort (drop (Suc m) k) p) (key ! m) (pshort (drop (Suc m) key) (PVal v))))"
  using assms hexKey_not_Nil [OF assms] by (cases key) (simp_all only: pinsert.simps list.simps)

lemma pinsert_same:
  "hexKey key \<Longrightarrow> take (length k) key = k \<Longrightarrow> pinsert (PShort k p) key v = PShort k (pinsert p (drop (length k) key) v)"
  by (simp add: pinsert_Short flip: prefixLen_whole)

lemma pinsert_split:
  assumes "hexKey key" and "hexKey k \<or> nibbles k" and "prefixLen key k \<noteq> length k"
  obtains c x a y b where "key = c @ x # a" "k = c @ y # b" "x \<noteq> y" "nibbles c"
    "unat x < 17" "keyTail (unat x) a" "unat y < 17" "hexKey k \<Longrightarrow> keyTail (unat y) b"
    "nibbles k \<Longrightarrow> unat y < 16 \<and> nibbles b"
    "pinsert (PShort k p) key v = pshort c (pbranch y (pshort b p) x (pshort a (PVal v)))"
proof -
  obtain c x a y b where s: "key = c @ x # a" "k = c @ y # b" "x \<noteq> y" "prefixLen key k = length c"
    using prefixLen_split [OF hexKey_not_prefix [OF assms]] by blast
  show ?thesis
  proof (rule that [of c x a y b])
    show "pinsert (PShort k p) key v = pshort c (pbranch y (pshort b p) x (pshort a (PVal v)))"
      using pinsert_Short [OF assms(1), of k p v] s by (auto simp: Let_def nth_append)
  qed (use s assms(1,2) in \<open>auto simp: hexKey_append_tail word_less_nat_alt\<close>)
qed

lemma pget_split:
  assumes "x \<noteq> y" "nibbles c" "unat x < 17" "keyTail (unat x) a" "unat y < 17" "hexKey key'"
  shows "pget (pshort c (pbranch y (pshort b p) x (pshort a (PVal v)))) key' =
     (if key' = c @ x # a then Some v else pget (PShort (c @ y # b) p) key')"
proof (cases "take (length c) key' = c")
  case True
  then obtain r where r: "key' = c @ r" by (metis append_take_drop_id)
  with assms(2,6) have "hexKey r" by (simp add: hexKey_append)
  then obtain z r' where z: "r = z # r'" "unat z < 17" "keyTail (unat z) r'" by (cases r) (auto simp: hexKey_Cons)
  have "take (length a) r' = a \<longleftrightarrow> r' = a" if "z = x"
    using keyTail_prefix_free [OF assms(4)] z(3) that by simp
  then show ?thesis using assms z r by (auto simp: pget_pshort pget_pbranch)
next
  case False
  then have "key' \<noteq> c @ x # a" "take (length (c @ y # b)) key' \<noteq> c @ y # b"
    by (auto simp: min_def dest: arg_cong [where f = "take (length c)"])
  with False show ?thesis by (simp add: pget_pshort)
qed

lemma pget_pinsert_child:
  assumes "pchild i p" "i < 17" "keyTail i key" "keyTail i key'"
  shows "pget (pinsert p key v) key' = (if key' = key then Some v else pget p key')"
  using assms(1,3,4)
proof (induction i p arbitrary: key key' rule: pchild_induct)
  case (Nil i)
  then show ?case using keyTail_prefix_free [OF Nil(2,3)] by (cases key) auto
next
  case (Val w)
  then show ?case by (simp add: keyTail_def)
next
  case (Leaf i k w)
  then have k: "hexKey key" "hexKey key'" by (simp_all add: keyTail_def)
  show ?case
  proof (cases "prefixLen key k = length k")
    case True
    then have "key = k" using hexKey_prefix_free [OF Leaf(2) k(1)] by (simp add: prefixLen_whole)
    then have "pinsert (PShort k (PVal w)) key v = PShort k (PVal v)" using k(1) by (simp add: pinsert_same)
    then show ?thesis using hexKey_prefix_free [OF Leaf(2) k(2)] \<open>key = k\<close> by simp
  next
    case False
    obtain c x a y b where s: "key = c @ x # a" "k = c @ y # b" "x \<noteq> y" "nibbles c" "unat x < 17" "keyTail (unat x) a" "unat y < 17"
        "pinsert (PShort k (PVal w)) key v = pshort c (pbranch y (pshort b (PVal w)) x (pshort a (PVal v)))"
      by (rule pinsert_split [OF k(1) disjI1 [OF Leaf(2)] False])
    show ?thesis unfolding s(8) using pget_split [OF s(3-7) k(2)] s(1,2) by simp
  qed
next
  case (Ext i k ps)
  then have k: "hexKey key" "hexKey key'" by (simp_all add: keyTail_def)
  show ?case
  proof (cases "prefixLen key k = length k")
    case True
    then have t: "take (length k) key = k" by (simp add: prefixLen_whole)
    have h: "keyTail i (drop (length k) key)" using hexKey_ext [OF Ext(3) k(1) t] Ext(1) by (simp add: keyTail_def)
    have "pget (pinsert (PFull ps) (drop (length k) key) v) (drop (length k) key')
        = (if drop (length k) key' = drop (length k) key then Some v else pget (PFull ps) (drop (length k) key'))"
      if "take (length k) key' = k"
      using hexKey_ext [OF Ext(3) k(2) that] Ext(1) by (intro Ext.IH h) (simp add: keyTail_def)
    moreover have "key' = key \<longleftrightarrow> take (length k) key' = k \<and> drop (length k) key' = drop (length k) key"
      using t by (metis append_take_drop_id)
    ultimately show ?thesis using pinsert_same [OF k(1) t] by (cases "take (length k) key' = k") auto
  next
    case False
    obtain c x a y b where s: "key = c @ x # a" "k = c @ y # b" "x \<noteq> y" "nibbles c" "unat x < 17" "keyTail (unat x) a" "unat y < 17"
        "pinsert (PShort k (PFull ps)) key v = pshort c (pbranch y (pshort b (PFull ps)) x (pshort a (PVal v)))"
      by (rule pinsert_split [OF k(1) disjI2 [OF Ext(3)] False])
    show ?thesis unfolding s(8) using pget_split [OF s(3-7) k(2)] s(1,2) by simp
  qed
next
  case (Full i ps)
  then obtain x r y r' where k: "key = x # r" "unat x < 17" "keyTail (unat x) r" "key' = y # r'" "unat y < 17" "keyTail (unat y) r'"
    by (cases key; cases key') (auto simp: keyTail_def hexKey_Cons)
  have "length ps = 17" using Full(2) by (simp add: pwf_Full_iff)
  then show ?case using k Full.IH [OF k(2,3)]
    by (cases "x = y") (auto simp: nth_list_update word_unat_eq_iff)
qed (use assms(2) in simp)


section \<open>Insertion keeps the canonical form\<close>

lemma pwf_pbranch:
  assumes "x \<noteq> y" "unat x < 17" "unat y < 17" "pchild (unat x) p" "p \<noteq> PNil" "pchild (unat y) q" "q \<noteq> PNil"
  shows "pwf (pbranch x p y q)"
proof -
  let ?ps = "(replicate 17 PNil)[unat x := p, unat y := q]"
  have ne: "unat x \<noteq> unat y" using assms(1) by (simp add: word_unat_eq_iff)
  have "pchild i (?ps ! i)" if "i < 17" for i
    using assms that ne by (auto simp: nth_list_update pchild_def)
  moreover have "?ps ! unat x \<noteq> PNil" "?ps ! unat y \<noteq> PNil"
    using assms ne by (simp_all add: nth_list_update)
  then have "\<exists>i j. i < j \<and> j < 17 \<and> ?ps ! i \<noteq> PNil \<and> ?ps ! j \<noteq> PNil"
    using assms(2,3) ne by (metis linorder_neqE_nat)
  ultimately show ?thesis by (simp add: pbranch_def pwf_Full_iff)
qed

lemma pchild_pshort_Val: "unat x < 17 \<Longrightarrow> keyTail (unat x) k \<Longrightarrow> v \<noteq> [] \<Longrightarrow> pchild (unat x) (pshort k (PVal v))"
  by (auto simp: pchild_def pshort_def keyTail_def pok_def intro: pwf.leaf split: if_splits)

lemma pchild_pshort_Full: "unat x < 16 \<Longrightarrow> nibbles k \<Longrightarrow> pwf (PFull ps) \<Longrightarrow> pchild (unat x) (pshort k (PFull ps))"
  by (auto simp: pchild_def pshort_def pok_def intro: pwf.ext)

lemma pwf_pshort_pbranch: "nibbles c \<Longrightarrow> pwf (pbranch x p y q) \<Longrightarrow> pwf (pshort c (pbranch x p y q))"
  by (auto simp: pshort_def pbranch_def intro: pwf.ext)

lemma pshort_not_Nil [simp]: "pshort k p = PNil \<longleftrightarrow> k = [] \<and> p = PNil"
  by (simp add: pshort_def)

lemma pinsert_split_pwf:
  assumes "hexKey key" and "prefixLen key k \<noteq> length k" and "pwf (PShort k p)" and "v \<noteq> []"
  shows "pwf (pinsert (PShort k p) key v)"
proof -
  have d: "hexKey k \<or> nibbles k" using assms(3) by (auto simp: pwf_Short_iff)
  obtain c x a y b where s: "x \<noteq> y" "nibbles c" "unat x < 17" "keyTail (unat x) a" "unat y < 17"
      "hexKey k \<Longrightarrow> keyTail (unat y) b" "nibbles k \<Longrightarrow> unat y < 16 \<and> nibbles b"
      "pinsert (PShort k p) key v = pshort c (pbranch y (pshort b p) x (pshort a (PVal v)))"
    by (rule pinsert_split [OF assms(1) d assms(2), of p v]) (rule that)
  have "pchild (unat y) (pshort b p)" "p \<noteq> PNil"
    using assms(3) s(5-7) by (auto simp: pwf_Short_iff intro: pchild_pshort_Val pchild_pshort_Full)
  then show ?thesis
    unfolding s(8) using s(1-5) assms(4) by (intro pwf_pshort_pbranch pwf_pbranch pchild_pshort_Val) auto
qed

lemma pinsert_not_Nil: "pinsert p key v \<noteq> PNil"
  by (cases "(p, key, v)" rule: pinsert.cases) (auto simp: Let_def pbranch_def)

lemma pinsert_Full: "key \<noteq> [] \<Longrightarrow> \<exists>qs. pinsert (PFull ps) key v = PFull qs"
  by (cases key) auto

lemma pchild_pinsert:
  assumes "pchild i p" "i < 17" "keyTail i key" "v \<noteq> []"
  shows "pchild i (pinsert p key v)"
  using assms(1,3)
proof (induction i p arbitrary: key rule: pchild_induct)
  case (Nil i)
  then show ?case using assms(4) by (cases key) (auto simp: keyTail_def pchild_def pok_def intro: pwf.leaf split: if_splits)
next
  case (Val w)
  then show ?case using assms(4) by (simp add: keyTail_def pchild_def)
next
  case (Leaf i k w)
  then have k: "hexKey key" by (simp add: keyTail_def)
  show ?case
  proof (cases "prefixLen key k = length k")
    case True
    then have "key = k" using hexKey_prefix_free [OF Leaf(2) k] by (simp add: prefixLen_whole)
    then have "pinsert (PShort k (PVal w)) key v = PShort k (PVal v)" using k by (simp add: pinsert_same)
    then show ?thesis using Leaf(1,2) assms(4) by (simp add: pchild_def pok_def pwf.leaf)
  next
    case False
    then show ?thesis using pinsert_split_pwf [OF k] Leaf(1,2,3) assms(4) by (simp add: pchild_def pok_def pwf.leaf)
  qed
next
  case (Ext i k ps)
  then have k: "hexKey key" by (simp add: keyTail_def)
  show ?case
  proof (cases "prefixLen key k = length k")
    case True
    then have t: "take (length k) key = k" by (simp add: prefixLen_whole)
    have h: "hexKey (drop (length k) key)" using hexKey_ext [OF Ext(3) k t] by simp
    obtain qs where "pinsert (PFull ps) (drop (length k) key) v = PFull qs"
      using pinsert_Full [OF hexKey_not_Nil [OF h]] by blast
    then show ?thesis using Ext.IH [of "drop (length k) key"] h Ext(1,2,3) pinsert_same [OF k t]
      by (auto simp: keyTail_def pchild_def pok_def intro: pwf.ext)
  next
    case False
    then show ?thesis using pinsert_split_pwf [OF k] Ext(1-4) assms(4) by (simp add: pchild_def pok_def pwf.ext)
  qed
next
  case (Full i ps)
  then obtain x r where k: "key = x # r" "unat x < 17" "keyTail (unat x) r"
    by (cases key) (auto simp: keyTail_def hexKey_Cons)
  have w: "length ps = 17" "\<forall>i < 17. pchild i (ps ! i)" using Full(2) by (simp_all add: pwf_Full_iff)
  let ?qs = "ps[unat x := pinsert (ps ! unat x) r v]"
  obtain m n where mn: "m < n" "n < 17" "ps ! m \<noteq> PNil" "ps ! n \<noteq> PNil" using Full(2) by (auto simp: pwf_Full_iff)
  have "pchild j (?qs ! j)" if "j < 17" for j
    using w k Full.IH [OF k(2,3)] that by (auto simp: nth_list_update)
  moreover have "?qs ! j \<noteq> PNil" if "ps ! j \<noteq> PNil" for j
    using that k(2) w(1) by (cases "j = unat x") (simp_all add: pinsert_not_Nil)
  ultimately have "pwf (PFull ?qs)" using w(1) mn unfolding pwf_Full_iff length_list_update by blast
  then show ?case using k Full(1) by (simp add: pchild_def pok_def)
qed (use assms(2) in simp)


section \<open>Deletion\<close>

lemma take_append_iff:
  "take (length (k @ l)) key = k @ l \<longleftrightarrow> take (length k) key = k \<and> take (length l) (drop (length k) key) = l"
proof -
  have "take (length (k @ l)) key = take (length k) key @ take (length l) (drop (length k) key)"
    by (simp only: length_append take_add)
  moreover have "take (length k) key @ x = k @ l \<longleftrightarrow> take (length k) key = k \<and> x = l" if "length x \<le> length l" for x
  proof (cases "length key \<ge> length k")
    case True
    then show ?thesis by (intro append_eq_append_conv disjI1) simp
  next
    case False
    then show ?thesis using that by (auto dest: arg_cong [where f = length])
  qed
  ultimately show ?thesis by simp
qed

lemma pget_Short_append:
  "pget (PShort (k @ l) p) key = (if take (length k) key = k then pget (PShort l p) (drop (length k) key) else None)"
  unfolding pget.simps(3) take_append_iff by (simp add: add.commute)

lemma filter_upt_single:
  assumes "filter P [0..<n] = [i]"
  shows "i < n \<and> P i \<and> (\<forall>j < n. P j \<longrightarrow> j = i)"
proof -
  have "set (filter P [0..<n]) = {i}" using assms by simp
  then show ?thesis by auto
qed

lemma pcollapse_cases:
  obtains (one) i where "i < 17" "qs ! i \<noteq> PNil" "\<And>j. j < 17 \<Longrightarrow> j \<noteq> i \<Longrightarrow> qs ! j = PNil"
      "pcollapse qs = (case qs ! i of
          PShort k p \<Rightarrow> if i = 16 then PShort [16] (qs ! i) else PShort (of_nat i # k) p
        | c \<Rightarrow> PShort [of_nat i] c)"
  | (none) "\<And>j. j < 17 \<Longrightarrow> qs ! j = PNil" "pcollapse qs = PFull qs"
  | (more) i j where "i < j" "j < 17" "qs ! i \<noteq> PNil" "qs ! j \<noteq> PNil" "pcollapse qs = PFull qs"
proof (cases "filter (\<lambda>i. qs ! i \<noteq> PNil) [0..<17]" rule: remdups_adj.cases)
  case 1
  then have "\<forall>j \<in> set [0..<17]. qs ! j = PNil" by (metis (mono_tags, lifting) filter_empty_conv)
  with 1 show ?thesis by (intro none) (simp_all add: pcollapse_def)
next
  case (2 i)
  with filter_upt_single [OF 2] show ?thesis by (intro one [of i]) (auto simp: pcollapse_def)
next
  case (3 i j r)
  have "sorted_wrt (<) (filter (\<lambda>i. qs ! i \<noteq> PNil) [0..<17])" by (rule sorted_wrt_filter) simp
  moreover have "set (filter (\<lambda>i. qs ! i \<noteq> PNil) [0..<17]) = {i. qs ! i \<noteq> PNil \<and> i < 17}" by auto
  ultimately have "i < j" "i \<in> {i. qs ! i \<noteq> PNil \<and> i < 17}" "j \<in> {i. qs ! i \<noteq> PNil \<and> i < 17}"
    unfolding 3 by auto
  with 3 show ?thesis by (intro more [of i j]) (simp_all add: pcollapse_def)
qed

lemma pget_pcollapse:
  assumes "\<And>i. i < 17 \<Longrightarrow> pchild i (qs ! i)" and "hexKey key"
  shows "pget (pcollapse qs) key = pget (PFull qs) key"
proof -
  obtain x r where k: "key = x # r" "unat x < 17" "keyTail (unat x) r"
    using assms(2) by (cases key) (auto simp: hexKey_Cons)
  show ?thesis
  proof (cases qs rule: pcollapse_cases)
    case (one i)
    have x: "x = of_nat i \<longleftrightarrow> unat x = i" using one(1) by (auto simp: word_unat_eq_iff unat_of_nat take_bit_nat_eq_self)
    have "qs ! i = PNil \<or> (\<exists>v. qs ! i = PVal v)" if "i = 16" using assms(1) [of 16] that by (auto simp: pchild_def)
    with x one k show ?thesis by (auto split: ptrie.splits)
  qed simp_all
qed

lemma pchild_pcollapse:
  assumes "length qs = 17" and "\<And>i. i < 17 \<Longrightarrow> pchild i (qs ! i)" and "m < 17" "qs ! m \<noteq> PNil"
  shows "pwf (pcollapse qs)"
proof (cases qs rule: pcollapse_cases)
  case (one i)
  show ?thesis
  proof (cases "i < 16")
    case True
    then have "pwf (qs ! i)" using assms(2) [of i] one(1,2) by (simp add: pchild_def pok_def)
    moreover have "(of_nat i :: u8) < 16" "unat (of_nat i :: u8) = i" using True by (simp_all add: word_less_nat_alt unat_of_nat take_bit_nat_eq_self)
    ultimately show ?thesis using one(4) True
      by - (cases "qs ! i", auto simp: pwf_Short_iff hexKey_Cons keyTail_def)
  next
    case False
    with one(1) have i: "i = 16" by simp
    then obtain v where "v \<noteq> []" "qs ! i = PVal v" using assms(2) [of 16] one(2) by (auto simp: pchild_def)
    with one(4) i show ?thesis by (simp add: pwf_Short_iff hexKey_Cons keyTail_def)
  qed
next
  case none
  with assms(3,4) show ?thesis by blast
next
  case (more i j)
  then have "pwf (PFull qs)" using assms(1,2) unfolding pwf_Full_iff by blast
  with more(5) show ?thesis by simp
qed

lemma pdelete_mismatch:
  "hexKey key \<Longrightarrow> take (length k) key \<noteq> k \<Longrightarrow> pdelete (PShort k p) key = PShort k p"
  using prefixLen_le(2) [of key k] by (simp add: Let_def flip: prefixLen_whole)

lemma pdelete_leaf: "pdelete (PShort k p) k = PNil"
proof -
  have "prefixLen k k = length k" by (simp add: prefixLen_whole)
  then show ?thesis by (simp add: Let_def)
qed

lemma pdelete_ext:
  "r \<noteq> [] \<Longrightarrow> pdelete (PShort k p) (k @ r) = (case pdelete p r of PShort l q \<Rightarrow> PShort (k @ l) q | c \<Rightarrow> PShort k c)"
proof -
  assume r: "r \<noteq> []"
  have "prefixLen (k @ r) k = length k" by (simp add: prefixLen_whole)
  with r show ?thesis by (simp add: Let_def)
qed

lemma pdelete_Full:
  assumes "pwf (PFull ps)" "unat x < 17" "pchild (unat x) (pdelete (ps ! unat x) r)"
  shows "pwf (pdelete (PFull ps) (x # r))"
    and "hexKey key' \<Longrightarrow> pget (pdelete (PFull ps) (x # r)) key' = pget (PFull (ps[unat x := pdelete (ps ! unat x) r])) key'"
proof -
  let ?qs = "ps[unat x := pdelete (ps ! unat x) r]"
  have w: "length ps = 17" "\<forall>i < 17. pchild i (ps ! i)" using assms(1) by (simp_all add: pwf_Full_iff)
  obtain m n where mn: "m < n" "n < 17" "ps ! m \<noteq> PNil" "ps ! n \<noteq> PNil" using assms(1) by (auto simp: pwf_Full_iff)
  have q: "pchild j (?qs ! j)" if "j < 17" for j using w assms(2,3) that by (auto simp: nth_list_update)
  show "hexKey key' \<Longrightarrow> pget (pdelete (PFull ps) (x # r)) key' = pget (PFull ?qs) key'"
    using pget_pcollapse [OF q] by simp
  obtain l where "l < 17" "l \<noteq> unat x" "ps ! l \<noteq> PNil" using mn by (metis less_trans nat_neq_iff)
  then show "pwf (pdelete (PFull ps) (x # r))"
    using pchild_pcollapse [of ?qs l] q w(1) by simp
qed

lemma pdelete_child:
  assumes "pchild i p" "i < 17" "keyTail i key"
  shows "pchild i (pdelete p key) \<and> (\<forall>ps. p = PFull ps \<longrightarrow> pdelete p key \<noteq> PNil)
    \<and> (\<forall>key'. keyTail i key' \<longrightarrow> pget (pdelete p key) key' = (if key' = key then None else pget p key'))"
  using assms(1,3)
proof (induction i p arbitrary: key rule: pchild_induct)
  case (Nil i)
  then show ?case by (simp add: pchild_def)
next
  case (Val w)
  then show ?case by (simp add: keyTail_def pchild_def)
next
  case (Leaf i k w)
  then have k: "hexKey key" by (simp add: keyTail_def)
  show ?case
  proof (cases "take (length k) key = k")
    case True
    then have "key = k" using hexKey_prefix_free [OF Leaf(2) k] by simp
    then show ?thesis using Leaf hexKey_prefix_free [OF Leaf(2)] pdelete_leaf [of k "PVal w"] by (auto simp: keyTail_def pchild_def)
  next
    case False
    then show ?thesis using Leaf pdelete_mismatch [OF k False, of "PVal w"] by (auto simp: keyTail_def pchild_def pok_def intro: pwf.leaf)
  qed
next
  case (Ext i k ps)
  then have k: "hexKey key" by (simp add: keyTail_def)
  show ?case
  proof (cases "take (length k) key = k")
    case True
    then obtain r where r: "key = k @ r" by (metis append_take_drop_id)
    with k Ext(3) have h: "hexKey r" by (simp add: hexKey_append)
    then obtain x r' where x: "r = x # r'" by (cases r) auto
    let ?q = "pdelete (PFull ps) r"
    have "pchild i ?q" "?q \<noteq> PNil"
        and ih: "\<And>key'. hexKey key' \<Longrightarrow> pget ?q key' = (if key' = r then None else pget (PFull ps) key')"
      using Ext.IH [of r] h Ext(1) by (auto simp: keyTail_def)
    then have q: "pwf ?q" using Ext(1) by (simp add: pchild_def pok_def)
    have d: "pdelete (PShort k (PFull ps)) key = (case ?q of PShort l q \<Rightarrow> PShort (k @ l) q | c \<Rightarrow> PShort k c)"
      using pdelete_ext [OF hexKey_not_Nil [OF h]] r by blast
    have "pwf (pdelete (PShort k (PFull ps)) key)"
      unfolding d by (cases ?q) (use q Ext(2,3) in \<open>auto simp: pwf_Short_iff hexKey_append\<close>)
    moreover have g: "pget (pdelete (PShort k (PFull ps)) key) key' = (if take (length k) key' = k then pget ?q (drop (length k) key') else None)" for key'
      unfolding d by (cases ?q) (use q in \<open>simp_all add: pget_Short_append del: pget.simps(3), simp_all\<close>)
    have "pget (pdelete (PShort k (PFull ps)) key) key' = (if key' = key then None else pget (PShort k (PFull ps)) key')"
      if "hexKey key'" for key'
    proof (cases "take (length k) key' = k")
      case True
      then obtain r' where r': "key' = k @ r'" by (metis append_take_drop_id)
      have "hexKey r'" using that Ext(3) unfolding r' by (simp add: hexKey_append)
      then show ?thesis unfolding g using ih [of r'] by (simp add: r' r)
    next
      case False
      then have "key' \<noteq> key" using r by auto
      with False show ?thesis unfolding g by simp
    qed
    ultimately show ?thesis using Ext(1) by (simp add: pchild_def pok_def keyTail_def)
  next
    case False
    then show ?thesis using Ext pdelete_mismatch [OF k False, of "PFull ps"] by (auto simp: keyTail_def pchild_def pok_def intro: pwf.ext)
  qed
next
  case (Full i ps)
  then obtain x r where k: "key = x # r" "unat x < 17" "keyTail (unat x) r"
    by (cases key) (auto simp: keyTail_def hexKey_Cons)
  have l: "length ps = 17" using Full(2) by (simp add: pwf_Full_iff)
  have ih: "pchild (unat x) (pdelete (ps ! unat x) r)"
      "\<And>key'. keyTail (unat x) key' \<Longrightarrow> pget (pdelete (ps ! unat x) r) key' = (if key' = r then None else pget (ps ! unat x) key')"
    using Full.IH [OF k(2,3)] by auto
  have "pget (PFull (ps[unat x := pdelete (ps ! unat x) r])) key' = (if key' = key then None else pget (PFull ps) key')"
    if key': "hexKey key'" for key'
  proof -
    obtain y r' where "key' = y # r'" "unat y < 17" "keyTail (unat y) r'" using key' by (cases key') (auto simp: hexKey_Cons)
    then show ?thesis using k l ih(2) by (cases "x = y") (auto simp: nth_list_update word_unat_eq_iff)
  qed
  then show ?case using pdelete_Full [OF Full(2) k(2) ih(1)] k(1) Full(1) by (auto simp: keyTail_def pchild_def pok_def)
qed (use assms(2) in simp)


section \<open>A canonical tree is determined by its bindings\<close>

lemma pchild_bound:
  assumes "pchild i p" "i < 17" "p \<noteq> PNil"
  shows "\<exists>k. keyTail i k \<and> pget p k \<noteq> None"
  using assms(1,3)
proof (induction i p rule: pchild_induct)
  case (Leaf i k v)
  then have "keyTail i k \<and> pget (PShort k (PVal v)) k \<noteq> None" by (simp add: keyTail_def)
  then show ?case by blast
next
  case (Ext i k ps)
  then obtain r where "keyTail i r" "pget (PFull ps) r \<noteq> None" by blast
  with Ext(1,3) have "keyTail i (k @ r) \<and> pget (PShort k (PFull ps)) (k @ r) \<noteq> None"
    by (simp add: keyTail_def hexKey_append)
  then show ?case by blast
next
  case (Full i ps)
  then obtain j where j: "j < 17" "ps ! j \<noteq> PNil" by (auto simp: pwf_Full_iff)
  with Full.IH obtain r where r: "keyTail j r" "pget (ps ! j) r \<noteq> None" by blast
  have "unat (of_nat j :: u8) = j" using j(1) by (simp add: unat_of_nat take_bit_nat_eq_self)
  with r j(1) Full(1) have "keyTail i (of_nat j # r) \<and> pget (PFull ps) (of_nat j # r) \<noteq> None"
    by (simp add: keyTail_def [of i] hexKey_Cons)
  then show ?case by blast
qed (use assms(2) in \<open>auto simp: keyTail_def\<close>)

text \<open>Below a branch there are two keys that part right after the branch.\<close>

lemma branch_two:
  assumes "pwf (PFull ps)" "nibbles k"
  obtains x r y s where "x \<noteq> y" "hexKey (k @ x # r)" "hexKey (k @ y # s)"
    "pget (pshort k (PFull ps)) (k @ x # r) \<noteq> None" "pget (pshort k (PFull ps)) (k @ y # s) \<noteq> None"
proof -
  obtain m n where mn: "m < n" "n < 17" "ps ! m \<noteq> PNil" "ps ! n \<noteq> PNil" using assms(1) by (auto simp: pwf_Full_iff)
  have c: "pchild m (ps ! m)" "pchild n (ps ! n)" using assms(1) mn by (simp_all add: pwf_Full_iff)
  obtain r where r: "keyTail m r" "pget (ps ! m) r \<noteq> None" using pchild_bound [OF c(1) _ mn(3)] mn(1,2) by auto
  obtain s where s: "keyTail n s" "pget (ps ! n) s \<noteq> None" using pchild_bound [OF c(2) _ mn(4)] mn(2) by auto
  have u: "unat (of_nat m :: u8) = m" "unat (of_nat n :: u8) = n"
    using mn(1,2) by (simp_all add: unat_of_nat take_bit_nat_eq_self)
  show ?thesis
  proof (rule that [of "of_nat m" "of_nat n" r s])
    show "(of_nat m :: u8) \<noteq> of_nat n" using u mn(1) by (metis nat_neq_iff)
  qed (use u mn(1,2) r s assms(2) in \<open>simp_all add: hexKey_append hexKey_Cons pget_pshort\<close>)
qed

lemma pget_prefix: "pget (pshort k p) key \<noteq> None \<Longrightarrow> take (length k) key = k"
  by (simp add: pget_pshort split: if_splits)

lemma branch_not_longer:
  assumes "pwf (PFull ps)" "nibbles k"
    and "\<And>key. hexKey key \<Longrightarrow> pget (pshort k (PFull ps)) key \<noteq> None \<Longrightarrow> take (length l) key = l"
  shows "length l \<le> length k \<and> take (length l) k = l"
proof -
  obtain x r y s where b: "x \<noteq> y" "hexKey (k @ x # r)" "hexKey (k @ y # s)"
    "pget (pshort k (PFull ps)) (k @ x # r) \<noteq> None" "pget (pshort k (PFull ps)) (k @ y # s) \<noteq> None"
    by (rule branch_two [OF assms(1,2)])
  have t: "take (length l) (k @ x # r) = l" "take (length l) (k @ y # s) = l"
    using assms(3) b(2-5) by blast+
  have "length l \<le> length k"
  proof (rule ccontr)
    assume n: "\<not> length l \<le> length k"
    then have "l ! length k = (k @ x # r) ! length k" "l ! length k = (k @ y # s) ! length k"
      using t by (metis not_le nth_take)+
    with b(1) show False by simp
  qed
  with t(1) show ?thesis by simp
qed

lemma branch_same_key:
  assumes "pwf (PFull ps)" "nibbles k" "pwf (PFull qs)" "nibbles l"
    and "\<And>key. hexKey key \<Longrightarrow> pget (pshort k (PFull ps)) key = pget (pshort l (PFull qs)) key"
  shows "k = l"
proof -
  have "length l \<le> length k \<and> take (length l) k = l"
    using assms(5) pget_prefix by (intro branch_not_longer [OF assms(1,2)]) metis
  moreover have "length k \<le> length l \<and> take (length k) l = k"
    using assms(5) pget_prefix by (intro branch_not_longer [OF assms(3,4)]) metis
  ultimately show ?thesis by simp
qed

lemma branch_not_leaf:
  assumes "pwf (PFull ps)" "nibbles k" "hexKey l"
  shows "\<not> (\<forall>key. hexKey key \<longrightarrow> pget (pshort k (PFull ps)) key = pget (PShort l (PVal v)) key)"
proof
  assume a: "\<forall>key. hexKey key \<longrightarrow> pget (pshort k (PFull ps)) key = pget (PShort l (PVal v)) key"
  obtain x r y s where b: "x \<noteq> y" "hexKey (k @ x # r)" "hexKey (k @ y # s)"
    "pget (pshort k (PFull ps)) (k @ x # r) \<noteq> None" "pget (pshort k (PFull ps)) (k @ y # s) \<noteq> None"
    by (rule branch_two [OF assms(1,2)])
  have "k @ x # r = l" "k @ y # s = l"
    using a b(2-5) hexKey_prefix_free [OF assms(3)] by (metis pget.simps(3))+
  with b(1) show False by auto
qed

text \<open>A canonical tree that is not empty: a leaf, or a branch below some nibbles.\<close>

lemma pwf_forms:
  assumes "pwf p"
  obtains (leaf) k v where "p = PShort k (PVal v)" "hexKey k" "v \<noteq> []"
  | (branch) k ps where "p = pshort k (PFull ps)" "nibbles k" "pwf (PFull ps)"
  using assms
proof (cases rule: pwf.cases)
  case (leaf k v)
  then show ?thesis by (intro that(1))
next
  case (ext k ps)
  then show ?thesis by (intro that(2) [of k ps]) (simp_all add: pshort_def)
next
  case (full ps)
  then show ?thesis using assms by (intro that(2) [of "[]" ps]) (simp_all add: pshort_def)
qed

lemma pwf_branch_unique:
  assumes "pwf (PFull ps)" "nibbles k" "pok q"
    and g: "\<And>key. hexKey key \<Longrightarrow> pget (pshort k (PFull ps)) key = pget q key"
    and sub: "\<And>qs. pwf (PFull qs) \<Longrightarrow> (\<And>key. hexKey key \<Longrightarrow> pget (PFull ps) key = pget (PFull qs) key) \<Longrightarrow> ps = qs"
  shows "q = pshort k (PFull ps)"
proof -
  obtain x r where "hexKey (k @ x # r)" "pget (pshort k (PFull ps)) (k @ x # r) \<noteq> None"
    by (rule branch_two [OF assms(1,2)])
  then have "q \<noteq> PNil" using g by auto
  then have "pwf q" using assms(3) by (simp add: pok_def)
  then show ?thesis
  proof (cases rule: pwf_forms)
    case (leaf l v)
    then show ?thesis using branch_not_leaf [OF assms(1,2) leaf(2), of v] g by blast
  next
    case (branch l qs)
    then have "k = l" using branch_same_key [OF assms(1,2) branch(3,2)] g by simp
    moreover have "pget (PFull ps) key = pget (PFull qs) key" if "hexKey key" for key
      using g [of "k @ key"] that assms(2) branch \<open>k = l\<close> by (simp add: hexKey_append pget_pshort)
    then have "ps = qs" using sub branch(3) by blast
    ultimately show ?thesis using branch by simp
  qed
qed

lemma pchild_unique:
  assumes "pchild i p" "i < 17" "pchild i q" "\<And>k. keyTail i k \<Longrightarrow> pget p k = pget q k"
  shows "p = q"
  using assms(1,3,4)
proof (induction i p arbitrary: q rule: pchild_induct)
  case (Nil i)
  show ?case
  proof (rule ccontr)
    assume "PNil \<noteq> q"
    then obtain k where "keyTail i k" "pget q k \<noteq> None" using pchild_bound [OF Nil(2,1)] by blast
    with Nil(3) show False by force
  qed
next
  case (Val v)
  then show ?case by (auto simp: pchild_def keyTail_def)
next
  case (Leaf i k v)
  then have q: "pok q" and g: "\<And>key. hexKey key \<Longrightarrow> pget (PShort k (PVal v)) key = pget q key"
    by (simp_all add: pchild_def keyTail_def)
  have b: "pget q k = Some v" using g [OF Leaf(2)] by simp
  then have "pwf q" using q by (auto simp: pok_def)
  then show ?case
  proof (cases rule: pwf_forms)
    case (leaf l w)
    then show ?thesis using b hexKey_prefix_free [OF leaf(2) Leaf(2)] by (auto split: if_splits)
  next
    case (branch l qs)
    then show ?thesis using branch_not_leaf [OF branch(3,2) Leaf(2), of v] g by metis
  qed
next
  case (Ext i k ps)
  have "q = pshort k (PFull ps)"
  proof (rule pwf_branch_unique [OF Ext(4,3)])
    show "pok q" using Ext(1,6) by (simp add: pchild_def)
    show "ps = qs" if "pwf (PFull qs)" "\<And>key. hexKey key \<Longrightarrow> pget (PFull ps) key = pget (PFull qs) key" for qs
      using Ext.IH [of "PFull qs"] that Ext(1) by (simp add: pchild_def pok_def keyTail_def)
  qed (use Ext(1,2,7) in \<open>simp add: pshort_def keyTail_def\<close>)
  with Ext(2) show ?case by (simp add: pshort_def)
next
  case (Full i ps)
  have "q = pshort [] (PFull ps)"
  proof (rule pwf_branch_unique [OF Full(2)])
    show "pok q" using Full(1,4) by (simp add: pchild_def)
    show "ps = qs" if qs: "pwf (PFull qs)" and g: "\<And>key. hexKey key \<Longrightarrow> pget (PFull ps) key = pget (PFull qs) key" for qs
    proof (rule nth_equalityI)
      show "length ps = length qs" using Full(2) qs by (simp add: pwf_Full_iff)
      fix j
      assume "j < length ps"
      then have j: "j < 17" using Full(2) by (simp add: pwf_Full_iff)
      then have u: "unat (of_nat j :: u8) = j" by (simp add: unat_of_nat take_bit_nat_eq_self)
      have "pget (ps ! j) k = pget (qs ! j) k" if "keyTail j k" for k
        using g [of "of_nat j # k"] j that by (simp add: hexKey_Cons u)
      then show "ps ! j = qs ! j" using Full.IH [OF j] j qs by (simp add: pwf_Full_iff)
    qed
  qed (use Full(1,5) in \<open>simp_all add: pshort_def keyTail_def\<close>)
  then show ?case by (simp add: pshort_def)
qed (use assms(2) in simp)

end
