(* ===== verification/Spec2Isabelle.thy ===== *)
theory Spec2Isabelle
  imports Base58 CtrlManager Patricia
begin

text \<open>
  A verification library for the leader election of the MATRIX node and the code it rests on: the
  message-centre data model, RLP and the hashes that are signed, signatures with a vote bit, the
  delegated proof-of-stake engine, the leader schedule, and the controllers that replace a leader
  that does not deliver its block.

  \<^bold>\<open>The program.\<close>  For every height a validator runs a controller (\<open>leaderelect2.0/\<close>).  Turn 0 of a
  height belongs to the leader that follows the previous one; when no block reaches proof-of-stake
  consensus in time, the validators enter re-election turns by the clock.  The master of a re-election
  turn asks all validators for their state (inquiry).  If two thirds agree that nothing was decided, it
  sends the inquiry with these signatures as a leader request, collects two thirds of votes for it, and
  broadcasts the result; then the next consensus turn begins with the master as the leader.  A manager
  keeps the controllers of three heights and routes messages to them.

  \<^bold>\<open>Theories.\<close>
  \<^item> \<open>Prelude\<close>: Go integers, byte arrays, errors and maps; the interfaces \<open>go_map\<close>, \<open>go_cmp\<close> and
    \<open>message_machine\<close>.
  \<^item> \<open>McTypes\<close> (\<open>mc/funcdef.go\<close>, \<open>mc/configfunc.go\<close>, \<open>common/matrix.go\<close>): roles, positions, topology graphs and
    their changes, broadcast and re-election numbers, consensus turns, chain states.  Lemmas: the graph
    invariant is kept, a change is a map update, the next broadcast number is the least one above, the
    comparisons are total orders (interface \<open>go_cmp\<close>).
  \<^item> \<open>TurnTimes\<close> (\<open>leaderelect2.0/turnTimes.go\<close>): the clock of a height.  Lemmas: \<open>CalState\<close> computes the one
    turn a time is in (interface \<open>turn_schedule\<close>), and nodes with different consensus turns agree on it.
  \<^item> \<open>Rlp\<close> (\<open>rlp/encode.go\<close>, \<open>rlp/raw.go\<close>): the encoder with its buffer of strings and list heads, and the
    splitting functions.  Lemmas: the buffer gives the recursive format, encoding is injective, splitting
    inverts it.
  \<^item> \<open>ChainTypes\<close> (\<open>core/types/header.go\<close>, \<open>crypto/signature_cgo.go\<close>, \<open>accounts/signhelper/\<close>,
    \<open>params/manversion/\<close>): headers, the four header hashes, signatures that carry a vote.
  \<^item> \<open>LeaderCal\<close> (\<open>leaderelect2.0/leaderCal.go\<close>): the walk back to the last ordinary block, which ends, and
    the list of leaders (interface \<open>leader_schedule\<close>).
  \<^item> \<open>MtxDpos\<close> (\<open>consensus/mtxdpos/mtxdpos.go\<close>): targets, the count of votes, super blocks, broadcast blocks.
    Lemmas: a hash passes exactly when the approvers reach the target, in whatever order the vote map
    is ranged over; two quorums share an honest validator (interface \<open>quorum_rule\<close>).
  \<^item> \<open>Base58\<close> (\<open>base58/base58.go\<close>, \<open>crc8/crc8.go\<close>): the textual form of addresses and its check sum.
  \<^item> \<open>ChainReader\<close> (\<open>core/blockchain_state.go\<close>, \<open>core/topology_store.go\<close>, parts of \<open>core/blockchain.go\<close>): what the
    chain answers about a block's state.
  \<^item> \<open>Messages\<close>, \<open>MsgPool\<close>, \<open>Cdc\<close>, \<open>MasterCache\<close> (\<open>mc/msgdef2.0.go\<close>, \<open>leaderelect2.0/msgPool.go\<close>, \<open>cdc.go\<close>,
    \<open>masterCache.go\<close>): the messages of a re-election and what their hashes bind, the caches (interface
    \<open>write_once\<close>), the data of a round.  Lemmas: the round answers like the chain for the engine's
    questions; what a master collected convinces the others.
  \<^item> \<open>Controller\<close> (\<open>controller.go\<close>, \<open>ctrlHandle.go\<close>, \<open>ctrlReelection.go\<close>): the controller, every handler whole.
    \<open>CtrlTurns\<close>: what handlers keep (interpretation of \<open>message_machine\<close>).  \<open>CtrlReturns\<close>: under which
    conditions no handler ends the process.  \<open>Reelection\<close>: the properties of a controller.
  \<^item> \<open>CtrlManager\<close> (\<open>ctrlManager.go\<close>, \<open>leaderReElection.go\<close>): the manager and the service, the interleaving of
    the goroutines as a step relation, and its invariants by rule induction.

  \<^bold>\<open>Conventions.\<close>  Unsigned integers are words of their width and wrap.  \<open>int64\<close> values are integers with
  the wrap-around \<open>i64\<close> written out; \<open>big.Int\<close> is \<open>int\<close>.  An error result is a value of \<open>error + 'a\<close>, with the
  messages shortened to constants.  A nil pointer that is read, a division by zero and \<open>log.Crit\<close> are
  \<open>None\<close>.  A Go map is an association list with distinct keys; where the code ranges over a map, the
  result is shown not to depend on the order, or the order is that of the list.  Sends, publications
  and timers are recorded in the state.  Logging has no effect unless it reads through a pointer.

  \<^bold>\<open>Parameters.\<close>  The hash function, the recovery of a signer's key and the signing of a hash are the
  record \<open>Crypto\<close>; the state of a block is the record \<open>StateDB\<close> of the values that
  \<open>core/matrixstate\<close> reads from it; the chain is the record \<open>BlockChain\<close> of its look-ups; the proof-of-work
  check of a header is a field of \<open>Env\<close>.  Their assumed behaviour is named where it is used:
  \<open>noCollision\<close>, \<open>signRecovers\<close>, \<open>headersNumbered\<close>, \<open>parentsKnown\<close>, \<open>parentKnown\<close>, \<open>zeroNotDelegated\<close>.

  \<^bold>\<open>Bounds.\<close>  The walk of \<open>getRealPreLeader\<close> has fuel of one more than the block number, and
  \<open>getRealPreLeader_terminates\<close> shows that this is enough.  \<open>timesOK\<close> bounds the times of a height so that
  no \<open>int64\<close> wraps before the horizon of \<open>2 ^ 32\<close> turns.  A graph has less than \<open>2 ^ 48\<close> nodes, so that the
  conversion of counts to \<open>float64\<close> is exact.

  \<^bold>\<open>Not modelled.\<close>  The rest of the node: the block chain's storage and execution (\<open>core\<close>, \<open>trie\<close>, \<open>mandb\<close>),
  proof-of-work mining (\<open>consensus/manash\<close>, \<open>amhash\<close>, \<open>cryptonight\<close>, \<open>miner\<close>), block verification and
  generation services (\<open>blkverify\<close>, \<open>blkgenor\<close>), elections of validators and miners (\<open>election\<close>,
  \<open>reelection\<close>), rewards, networking and RPC.  They are listed with the reasons in the manifest.  The first
  version of leader election (\<open>leaderelect\<close>) is the predecessor of \<open>leaderelect2.0\<close> for headers before
  version Gamma.
\<close>

section \<open>Agreement between the controllers of a height\<close>

text \<open>C4. Re-elections of a height share an honest voter: when two controllers, perhaps of different nodes,
  with the same validators at the parent block enter another consensus turn, then for every set of at
  most a third of these validators there is a validator outside it whose approvals of both leader
  requests were counted.  The turns the controllers entered are the ones after the turns of the
  inquiries in these requests.\<close>

theorem reelections_share_voter:
  assumes "ctrlRun env1 ev1 c1 = Some c1'" "ConsensusTurn c1' \<noteq> ConsensusTurn c1"
    and "ctrlRun env2 ev2 c2 = Some c2'" "ConsensusTurn c2' \<noteq> ConsensusTurn c2"
    and "cdcGetGraphByHash (e_chain env1) (ct_dc c1) (ParentHash c1) = Inr (g, eg1)"
    and "cdcGetGraphByHash (e_chain env2) (ct_dc c2) (ParentHash c2) = Inr (g, eg2)"
    and "length (NodeList g) < 2 ^ 48"
    and "F \<subseteq> set (validatorAccounts g)" "3 * card F \<le> card (set (validatorAccounts g))"
  shows "\<exists>req1 inquiry1 votes1 req2 inquiry2 votes2 a.
      lr_InquiryReq req1 = Some inquiry1 \<and> lr_InquiryReq req2 = Some inquiry2
    \<and> ConsensusTurn c1' = calcNextConsensusTurn (iq_ConsensusTurn inquiry1) (iq_ReelectTurn inquiry1)
    \<and> ConsensusTurn c2' = calcNextConsensusTurn (iq_ConsensusTurn inquiry2) (iq_ReelectTurn inquiry2)
    \<and> a \<in> requestVoters env1 c1 g req1 votes1 \<and> a \<in> requestVoters env2 c2 g req2 votes2 \<and> a \<notin> F"
proof -
  let ?n = "card (set (validatorAccounts g))"
  have d: "decided env1 c1 (ConsensusTurn c1')" "decided env2 c2 (ConsensusTurn c2')"
    using ctrlRun_moves [OF assms(1)] ctrlRun_moves [OF assms(3)] assms(2,4) by (simp_all add: moves_def)
  from decided_quorum [OF d(1) assms(5,7)] obtain req1 inquiry1 votes1 where
    q1: "lr_InquiryReq req1 = Some inquiry1" "targetCount ?n \<le> card (requestVoters env1 c1 g req1 votes1)"
    "ConsensusTurn c1' = calcNextConsensusTurn (iq_ConsensusTurn inquiry1) (iq_ReelectTurn inquiry1)"
    "c_MinStockCount (NewMtxDPOS (e_SimpleMode env1)) \<le> int ?n" by blast
  from decided_quorum [OF d(2) assms(6,7)] obtain req2 inquiry2 votes2 where
    q2: "lr_InquiryReq req2 = Some inquiry2" "targetCount ?n \<le> card (requestVoters env2 c2 g req2 votes2)"
    "ConsensusTurn c2' = calcNextConsensusTurn (iq_ConsensusTurn inquiry2) (iq_ReelectTurn inquiry2)" by blast
  have "?n \<le> length (NodeList g)"
    unfolding validatorAccounts_def by (rule order_trans [OF card_length]) simp
  then have n: "0 < ?n \<and> ?n < 2 ^ 48" using q1(4) assms(7) by (auto split: if_splits)
  have "\<exists>a \<in> requestVoters env1 c1 g req1 votes1 \<inter> requestVoters env2 c2 g req2 votes2. a \<notin> F"
    by (rule dpos.honest_approver [OF _ _ _ _ assms(8) q1(2) q2(2) assms(9)])
      (use n in \<open>simp_all add: requestVoters_def approvedBy_subset\<close>)
  with q1 q2 show ?thesis by blast
qed

theorem reelections_share_voter_witness:
  "\<exists>req1 req2 votes1 votes2 a. a \<in> requestVoters exampleEnv exampleCtrl exampleGraph req1 votes1
     \<and> a \<in> requestVoters exampleEnv exampleCtrl exampleGraph req2 votes2 \<and> a \<notin> {13}"
proof -
  obtain c' where c': "ctrlRun exampleEnv (MsgCh (ResultBroadcastMsg (Some exampleResult))) exampleCtrl = Some c'"
    "ConsensusTurn c' = \<lparr>PreConsensusTurn = 0, UsedReelectTurn = 1\<rparr>" "ConsensusTurn c' \<noteq> ConsensusTurn exampleCtrl"
    by (rule exampleResult_step)
  have "length (NodeList exampleGraph) < 2 ^ 48" "{13} \<subseteq> set (validatorAccounts exampleGraph)"
    "3 * card {13 :: address} \<le> card (set (validatorAccounts exampleGraph))" by (simp_all add: exampleReader_graph)
  from reelections_share_voter [OF c'(1,3) c'(1,3) exampleCtrl_graph exampleCtrl_graph this] show ?thesis by blast
qed

end
